(* ===== verification/Prelude.thy ===== *)
theory Prelude
  imports Main "HOL-Library.Word" "HOL-Library.AList" "HOL-Library.Multiset"
begin

text \<open>
  Shared vocabulary of the development: the error values of the program, the outcome of a call
  (value, error, panic, or no return), calls as functions on an explicit state, the lemma
  collections, and generic lemmas on association lists and option values.
\<close>

section \<open>Lemma collections\<close>

named_theorems run_simps \<open>equations that evaluate sequencing of calls\<close>
named_theorems frame_simps \<open>what an operation leaves unchanged\<close>

section \<open>Error values\<close>

text \<open>
  One constructor per place of the code that makes or wraps an error. \<open>LibError\<close> is an error
  value made by code outside the repository, identified by a tag. The comment after a constructor
  gives the Go call that makes it: \<open>%w\<close> and \<^verbatim>\<open>errors.Wrap\<close> keep the chain, \<open>%v\<close> keeps only
  the text.
\<close>

datatype go_error =
    LibError string
  | RenderFailed go_error                       \<comment> \<open>rollout.go, \<open>%v\<close>\<close>
  | InitializeFeedback go_error                 \<comment> \<open>rollout.go, \<open>%w\<close>\<close>
  | RunStepFailed go_error                      \<comment> \<open>rollout.go, \<open>%w\<close>\<close>
  | FailedToRunStep "go_error list"             \<comment> \<open>rollout.go, errors.Wrap of a multierror\<close>
  | ObjectNotFound string                       \<comment> \<open>rollout.go, leaf\<close>
  | ActionFailed string go_error                \<comment> \<open>rollout.go, \<open>%v\<close>\<close>
  | UnknownAction string                        \<comment> \<open>rollout.go, leaf\<close>
  | DiscoveryFailed string string go_error      \<comment> \<open>client.go, errors.Wrapf\<close>
  | DynamicClientFailed string go_error         \<comment> \<open>client.go, errors.Wrapf\<close>
  | ParsingGroupVersionFailed string go_error   \<comment> \<open>client.go, errors.Wrapf\<close>
  | DuplicateCheck string                       \<comment> \<open>checks.go, errors.Errorf\<close>
  | ExpectedOneResult                           \<comment> \<open>success\_check.go, leaf\<close>
  | ClientForUnstructuredFailed go_error        \<comment> \<open>success\_check.go, errors.Wrap\<close>
  | ExtractPeriodicStatus go_error              \<comment> \<open>success\_check.go, errors.Wrap\<close>
  | ExtractUpdatedStatus go_error               \<comment> \<open>success\_check.go, errors.Wrap\<close>
  | CheckIfRolloutFailed go_error               \<comment> \<open>success\_check.go, \<open>%w\<close>\<close>
  | UnknownFailureCheck string                  \<comment> \<open>success\_check.go, leaf\<close>
  | FailedToReportFailure go_error              \<comment> \<open>success\_check.go, \<open>%w\<close>\<close>
  | RunFailedCheck string go_error              \<comment> \<open>success\_check.go, \<open>%w\<close>\<close>
  | NoReportingConfigured                       \<comment> \<open>success\_check.go, leaf\<close>
  | DatabaseConnectionNotFound string           \<comment> \<open>success\_check.go, leaf\<close>
  | DatabaseTypeNotSupported string             \<comment> \<open>success\_check.go, leaf\<close>
  | ErrOOMKilled                                \<comment> \<open>job\_oom.go, package variable\<close>
  | ErrNotAJob                                  \<comment> \<open>job\_oom.go, package variable\<close>
  | ListingPods go_error                        \<comment> \<open>job\_oom.go, \<open>%w\<close>\<close>
  | PodOOMKilled string string go_error         \<comment> \<open>job\_oom.go, \<open>%w\<close>\<close>
  | InvalidDuration                             \<comment> \<open>types.go, leaf\<close>
  | OpenConfigFile go_error                     \<comment> \<open>errors.Wrap / \<open>%w\<close>, several files\<close>
  | ParseConfigFile go_error                    \<comment> \<open>errors.Wrap / \<open>%w\<close>, several files\<close>
  | NoConnectionForDatabase string              \<comment> \<open>database.go, crdb.go, errors.Errorf\<close>
  | UnsupportedDatabaseType string              \<comment> \<open>database.go, crdb.go, errors.Errorf\<close>
  | KeyColumnNotInResult string                 \<comment> \<open>database.go, errors.Errorf\<close>
  | ExecuteTxFailed go_error                    \<comment> \<open>database.go, \<open>%w\<close>\<close>
  | DuplicateConnectionName string              \<comment> \<open>db/config.go, errors.Errorf\<close>
  | UnknownConnectionType string                \<comment> \<open>db/config.go, errors.Errorf\<close>
  | ParseDBString go_error                      \<comment> \<open>crdb/client.go, \<open>%w\<close>\<close>
  | CreateConnectionPool go_error               \<comment> \<open>crdb/client.go, \<open>%w\<close>\<close>
  | ReadDefaultUrlFile go_error                 \<comment> \<open>db/config.go, errors.Wrap\<close>
  | CreateCockroachClient go_error              \<comment> \<open>db/config.go, \<open>%w\<close>\<close>
  | CompileRegex go_error                       \<comment> \<open>handlers.go, errors.Wrap\<close>
  | CreateResourceClient string string go_error \<comment> \<open>resource.go, errors.Wrapf\<close>
  | CreateResourceHandlers string string go_error \<comment> \<open>resource.go, errors.Wrapf\<close>
  | InvalidExtStr string                        \<comment> \<open>jsonnet.go, leaf\<close>
  | ReadMainJsonnet string                      \<comment> \<open>jsonnet.go, leaf\<close>
  | EvaluateFailed go_error                     \<comment> \<open>jsonnet.go, \<open>%v\<close>\<close>
  | UnmarshalFailed go_error                    \<comment> \<open>jsonnet.go, \<open>%v\<close>\<close>
  | MarshalFailed go_error                      \<comment> \<open>jsonnet.go, \<open>%w\<close>\<close>
  | RunTriggerFailed go_error                   \<comment> \<open>cli.go, \<open>%w\<close>\<close>
  | LogLevelUnknown string                      \<comment> \<open>cli.go, leaf\<close>
  | NoTriggersConfigured                        \<comment> \<open>cli.go, only logged\<close>
  | RenderProviderNotFound                      \<comment> \<open>cli.go, only logged\<close>

text \<open>
  \<^verbatim>\<open>errors.Unwrap\<close>: the error that a wrapping error holds. Errors formatted with \<open>%v\<close> hold none.
  The aggregate of a parallel group holds several, which \<open>errors_Is\<close> treats below.
\<close>

fun unwrap :: "go_error \<Rightarrow> go_error option" where
  "unwrap (InitializeFeedback e) = Some e"
| "unwrap (RunStepFailed e) = Some e"
| "unwrap (DiscoveryFailed _ _ e) = Some e"
| "unwrap (DynamicClientFailed _ e) = Some e"
| "unwrap (ParsingGroupVersionFailed _ e) = Some e"
| "unwrap (ClientForUnstructuredFailed e) = Some e"
| "unwrap (ExtractPeriodicStatus e) = Some e"
| "unwrap (ExtractUpdatedStatus e) = Some e"
| "unwrap (CheckIfRolloutFailed e) = Some e"
| "unwrap (FailedToReportFailure e) = Some e"
| "unwrap (RunFailedCheck _ e) = Some e"
| "unwrap (ListingPods e) = Some e"
| "unwrap (PodOOMKilled _ _ e) = Some e"
| "unwrap (OpenConfigFile e) = Some e"
| "unwrap (ParseConfigFile e) = Some e"
| "unwrap (ExecuteTxFailed e) = Some e"
| "unwrap (ReadDefaultUrlFile e) = Some e"
| "unwrap (CreateCockroachClient e) = Some e"
| "unwrap (CompileRegex e) = Some e"
| "unwrap (ParseDBString e) = Some e"
| "unwrap (CreateConnectionPool e) = Some e"
| "unwrap (CreateResourceClient _ _ e) = Some e"
| "unwrap (CreateResourceHandlers _ _ e) = Some e"
| "unwrap (MarshalFailed e) = Some e"
| "unwrap (RunTriggerFailed e) = Some e"
| "unwrap _ = None"

lemma unwrap_smaller: "unwrap e = Some e' \<Longrightarrow> size e' < size e"
  by (cases e) auto

text \<open>
  \<^verbatim>\<open>errors.Is(err, target)\<close>: the error itself, or one it wraps, is the target. An aggregate of
  several errors is the target when one of them is.
\<close>

function errors_Is :: "go_error \<Rightarrow> go_error \<Rightarrow> bool" where
  "errors_Is err target =
     (err = target \<or>
      (case err of
         FailedToRunStep es \<Rightarrow> list_ex (\<lambda>e. errors_Is e target) es
       | _ \<Rightarrow> (case unwrap err of None \<Rightarrow> False | Some e \<Rightarrow> errors_Is e target)))"
  by pat_completeness auto
termination
  by (relation "measure (\<lambda>(e, t). size e)")
    (auto dest: unwrap_smaller simp: size_list_estimation' less_Suc_eq_le)

declare errors_Is.simps [simp del]

lemma errors_Is_refl [simp]: "errors_Is e e"
  by (subst errors_Is.simps) simp

lemma errors_Is_unwrap: "unwrap err = Some e \<Longrightarrow> errors_Is e target \<Longrightarrow> errors_Is err target"
  by (subst errors_Is.simps) (cases err; simp)

section \<open>Outcomes of calls\<close>

text \<open>
  A panic ends the process. \<open>Diverge\<close> is a call that does not return.
\<close>

datatype go_panic =
    NilDereference
  | NilMapAssignment
  | IndexOutOfRange
  | NonPositiveTicker
  | DuplicateRegistration

datatype 'a outcome = Ok 'a | Err go_error | Panic go_panic | Diverge

fun is_Ok :: "'a outcome \<Rightarrow> bool" where
  "is_Ok (Ok _) = True"
| "is_Ok _ = False"

fun is_Err :: "'a outcome \<Rightarrow> bool" where
  "is_Err (Err _) = True"
| "is_Err _ = False"

lemma is_Ok_iff [simp]: "is_Ok r \<longleftrightarrow> (\<exists>a. r = Ok a)"
  by (cases r) auto

lemma is_Err_iff [simp]: "is_Err r \<longleftrightarrow> (\<exists>e. r = Err e)"
  by (cases r) auto

fun map_err :: "(go_error \<Rightarrow> go_error) \<Rightarrow> 'a outcome \<Rightarrow> 'a outcome" where
  "map_err f (Err e) = Err (f e)"
| "map_err f (Ok a) = Ok a"
| "map_err f (Panic p) = Panic p"
| "map_err f Diverge = Diverge"

lemma map_err_eq_Ok [simp]: "map_err f r = Ok a \<longleftrightarrow> r = Ok a"
  by (cases r) auto

lemma map_err_eq_Err [simp]: "map_err f r = Err e \<longleftrightarrow> (\<exists>e'. r = Err e' \<and> e = f e')"
  by (cases r) auto

lemma map_err_eq_Panic [simp]: "map_err f r = Panic p \<longleftrightarrow> r = Panic p"
  by (cases r) auto

lemma map_err_eq_Diverge [simp]: "map_err f r = Diverge \<longleftrightarrow> r = Diverge"
  by (cases r) auto

text \<open>An operation that can fail but neither panics nor diverges returns a sum.\<close>

fun of_sum :: "go_error + 'a \<Rightarrow> 'a outcome" where
  "of_sum (Inl e) = Err e"
| "of_sum (Inr a) = Ok a"

lemma of_sum_eq_Ok [simp]: "of_sum x = Ok a \<longleftrightarrow> x = Inr a"
  by (cases x) auto

lemma of_sum_eq_Err [simp]: "of_sum x = Err e \<longleftrightarrow> x = Inl e"
  by (cases x) auto

lemma of_sum_not_Panic [simp]: "of_sum x \<noteq> Panic p" "of_sum x \<noteq> Diverge"
  by (cases x; simp)+

section \<open>Calls on a state\<close>

text \<open>
  \<open>('s, 'a) io\<close> is a call that reads and changes a state \<open>'s\<close>; \<open>('s, 'a) eff\<close> is one that can
  only succeed or fail (the calls into libraries). \<open>andThen\<close> is the Go sequence
  \<^verbatim>\<open>a, err := m; if err != nil { return err }; f(a)\<close>: an error, a panic or no return ends it.
\<close>

type_synonym ('s, 'a) io = "'s \<Rightarrow> 'a outcome \<times> 's"
type_synonym ('s, 'a) eff = "'s \<Rightarrow> (go_error + 'a) \<times> 's"

definition andThen :: "'a outcome \<times> 's \<Rightarrow> ('a \<Rightarrow> 's \<Rightarrow> 'b outcome \<times> 's) \<Rightarrow> 'b outcome \<times> 's" where
  "andThen r f =
     (case r of
        (Ok a, s) \<Rightarrow> f a s
      | (Err e, s) \<Rightarrow> (Err e, s)
      | (Panic p, s) \<Rightarrow> (Panic p, s)
      | (Diverge, s) \<Rightarrow> (Diverge, s))"

lemma andThen_simps [simp, run_simps]:
  "andThen (Ok a, s) f = f a s"
  "andThen (Err e, s) f = (Err e, s)"
  "andThen (Panic p, s) f = (Panic p, s)"
  "andThen (Diverge, s) f = (Diverge, s)"
  by (simp_all add: andThen_def)

lemma andThen_Ok_iff:
  "andThen r f = (Ok b, s') \<longleftrightarrow> (\<exists>a s. r = (Ok a, s) \<and> f a s = (Ok b, s'))"
  by (cases r; cases "fst r") auto

definition on_err :: "(go_error \<Rightarrow> go_error) \<Rightarrow> 'a outcome \<times> 's \<Rightarrow> 'a outcome \<times> 's" where
  "on_err f r = (map_err f (fst r), snd r)"

lemma on_err_simps [simp, run_simps]:
  "on_err f (Ok a, s) = (Ok a, s)"
  "on_err f (Err e, s) = (Err (f e), s)"
  "on_err f (Panic p, s) = (Panic p, s)"
  "on_err f (Diverge, s) = (Diverge, s)"
  by (simp_all add: on_err_def)

lemma on_err_eq_Ok [simp]: "on_err f r = (Ok a, s) \<longleftrightarrow> r = (Ok a, s)"
  by (cases r) (simp add: on_err_def)

lemma fst_on_err [simp]: "fst (on_err f r) = map_err f (fst r)"
  by (simp add: on_err_def)

lemma snd_on_err [simp]: "snd (on_err f r) = snd r"
  by (simp add: on_err_def)

text \<open>A library call run inside the program: its sum becomes an outcome.\<close>

definition lib :: "(go_error + 'a) \<times> 's \<Rightarrow> 'a outcome \<times> 's" where
  "lib r = (of_sum (fst r), snd r)"

lemma lib_simps [simp, run_simps]:
  "lib (Inl e, s) = (Err e, s)"
  "lib (Inr a, s) = (Ok a, s)"
  by (simp_all add: lib_def)

lemma fst_lib [simp]: "fst (lib r) = of_sum (fst r)"
  by (simp add: lib_def)

lemma snd_lib [simp]: "snd (lib r) = snd r"
  by (simp add: lib_def)

section \<open>Generic lemmas\<close>

lemma map_of_None_iff_notin: "map_of xs k = None \<longleftrightarrow> k \<notin> fst ` set xs"
  by (simp add: map_of_eq_None_iff)

lemma distinct_map_of_Some: "distinct (map fst xs) \<Longrightarrow> (k, v) \<in> set xs \<Longrightarrow> map_of xs k = Some v"
  by (simp add: map_of_eq_Some_iff)

lemma map_of_mset_cong:
  "mset xs = mset ys \<Longrightarrow> distinct (map fst xs) \<Longrightarrow> map_of xs = map_of ys"
proof -
  assume m: "mset xs = mset ys" and d: "distinct (map fst xs)"
  have "mset (map fst xs) = mset (map fst ys)" using m by (metis mset_map)
  then have "distinct (map fst ys)" using d by (metis mset_eq_imp_distinct_iff)
  moreover have "set xs = set ys" using m by (rule mset_eq_setD)
  ultimately show ?thesis using d by (metis map_of_inject_set)
qed

lemma list_ex_filter_nil: "filter P xs = [] \<longleftrightarrow> \<not> list_ex P xs"
  by (induction xs) auto

end
