(* ===== verification/Values.thy ===== *)
theory Values
  imports Prelude
begin

text \<open>
  The dynamic values of the program (\<^verbatim>\<open>interface{}\<close> holding decoded JSON), equality on them as
  \<^verbatim>\<open>reflect.DeepEqual\<close> computes it, and unstructured Kubernetes objects. The accessors of
  \<^verbatim>\<open>k8s.io/apimachinery\<close>'s \<^verbatim>\<open>unstructured\<close> package, which the repository only calls, are the
  fields of the parameter record \<open>ulib\<close>; \<open>ulib_ok\<close> states the documented behaviour that the
  proofs rely on.
\<close>

section \<open>Values\<close>

text \<open>
  \<open>VNil\<close> is the nil interface. Integers decoded by the Kubernetes client are \<^verbatim>\<open>int64\<close>, numbers
  decoded by \<^verbatim>\<open>encoding/json\<close> are \<^verbatim>\<open>float64\<close>; the two have different dynamic types and are never
  deeply equal. A float is its IEEE 754 bit pattern. A map is an association list with distinct
  keys (\<open>wf_gov\<close>), whose order carries no meaning.
\<close>

datatype gov =
    VNil
  | VBool bool
  | VInt "64 word"
  | VFloat "64 word"
  | VStr string
  | VArr "gov list"
  | VObj "(string \<times> gov) list"

type_synonym obj = "(string \<times> gov) list"

fun wf_gov :: "gov \<Rightarrow> bool" where
  "wf_gov (VArr xs) = list_all wf_gov xs"
| "wf_gov (VObj m) = (distinct (map fst m) \<and> list_all (\<lambda>kv. wf_gov (snd kv)) m)"
| "wf_gov _ = True"

definition f64_magnitude :: "64 word \<Rightarrow> 64 word" where
  "f64_magnitude x = take_bit 63 x"

definition f64_nan :: "64 word \<Rightarrow> bool" where
  "f64_nan x \<longleftrightarrow> f64_magnitude x > 0x7FF0000000000000"

text \<open>Go's \<open>==\<close> on \<^verbatim>\<open>float64\<close>: NaN differs from everything, the two zeros are equal.\<close>

definition f64_eq :: "64 word \<Rightarrow> 64 word \<Rightarrow> bool" where
  "f64_eq a b \<longleftrightarrow> \<not> f64_nan a \<and> \<not> f64_nan b \<and>
     (a = b \<or> f64_magnitude a = 0 \<and> f64_magnitude b = 0)"

fun nan_free :: "gov \<Rightarrow> bool" where
  "nan_free (VFloat f) = (\<not> f64_nan f)"
| "nan_free (VArr xs) = list_all nan_free xs"
| "nan_free (VObj m) = list_all (\<lambda>kv. nan_free (snd kv)) m"
| "nan_free _ = True"

text \<open>
  \<^verbatim>\<open>reflect.DeepEqual\<close>: same dynamic type; slices of the same length with deeply equal elements;
  maps of the same length where every key of the one is a key of the other with a deeply equal
  value.
\<close>

fun deep_equal :: "gov \<Rightarrow> gov \<Rightarrow> bool"
  and deep_equal_elems :: "gov list \<Rightarrow> gov list \<Rightarrow> bool"
  and deep_equal_entries :: "(string \<times> gov) list \<Rightarrow> (string \<times> gov) list \<Rightarrow> bool" where
  "deep_equal VNil b = (b = VNil)"
| "deep_equal (VBool x) b = (b = VBool x)"
| "deep_equal (VInt x) b = (b = VInt x)"
| "deep_equal (VFloat x) b = (case b of VFloat y \<Rightarrow> f64_eq x y | _ \<Rightarrow> False)"
| "deep_equal (VStr x) b = (b = VStr x)"
| "deep_equal (VArr xs) b = (case b of VArr ys \<Rightarrow> deep_equal_elems xs ys | _ \<Rightarrow> False)"
| "deep_equal (VObj m) b =
     (case b of VObj n \<Rightarrow> length m = length n \<and> deep_equal_entries m n | _ \<Rightarrow> False)"
| "deep_equal_elems [] ys = (ys = [])"
| "deep_equal_elems (x # xs) ys =
     (case ys of [] \<Rightarrow> False | y # ys' \<Rightarrow> deep_equal x y \<and> deep_equal_elems xs ys')"
| "deep_equal_entries [] n = True"
| "deep_equal_entries ((k, v) # m) n =
     ((case map_of n k of None \<Rightarrow> False | Some v' \<Rightarrow> deep_equal v v') \<and> deep_equal_entries m n)"

lemma deep_equal_elems_iff: "deep_equal_elems xs ys \<longleftrightarrow> list_all2 deep_equal xs ys"
  by (induction xs arbitrary: ys) (auto split: list.splits simp: list_all2_Cons1)

lemma deep_equal_entries_iff:
  "deep_equal_entries m n \<longleftrightarrow> (\<forall>(k, v) \<in> set m. \<exists>v'. map_of n k = Some v' \<and> deep_equal v v')"
  by (induction m) (auto split: option.splits)

lemma f64_eq_refl: "\<not> f64_nan x \<Longrightarrow> f64_eq x x"
  by (simp add: f64_eq_def)

lemma f64_eq_sym: "f64_eq x y \<Longrightarrow> f64_eq y x"
  by (auto simp: f64_eq_def)

lemma f64_eq_trans: "f64_eq x y \<Longrightarrow> f64_eq y z \<Longrightarrow> f64_eq x z"
  by (auto simp: f64_eq_def)

lemma deep_equal_entries_keys: "deep_equal_entries m n \<Longrightarrow> fst ` set m \<subseteq> fst ` set n"
  by (force simp: deep_equal_entries_iff dest: map_of_SomeD)

text \<open>
  With distinct keys and equal lengths the inclusion of the keys is an equality, so the test is
  symmetric although the code looks the keys up in one direction only.
\<close>

lemma distinct_keys_eq:
  assumes "length m = length n" "distinct (map fst m)" "distinct (map fst n)"
    and "fst ` set m \<subseteq> fst ` set n"
  shows "fst ` set m = fst ` set n"
proof (rule card_subset_eq)
  show "card (fst ` set m) = card (fst ` set n)"
    using assms(1-3) by (metis distinct_card length_map set_map)
qed (use assms(4) in auto)

lemma deep_equal_refl: "wf_gov a \<Longrightarrow> nan_free a \<Longrightarrow> deep_equal a a"
proof (induction a)
  case (VArr xs)
  then show ?case
    by (auto simp: deep_equal_elems_iff list_all_iff intro!: list.rel_refl_strong)
next
  case (VObj m)
  have "\<exists>v'. map_of m k = Some v' \<and> deep_equal v v'" if "(k, v) \<in> set m" for k v
  proof -
    have "map_of m k = Some v" using that VObj.prems by (simp add: map_of_eq_Some_iff)
    moreover have "deep_equal v v"
      using VObj.IH [OF that, of v] VObj.prems that by (force simp: list_all_iff)
    ultimately show ?thesis by blast
  qed
  then show ?case by (auto simp: deep_equal_entries_iff)
qed (auto simp: f64_eq_refl)

lemma deep_equal_sym: "wf_gov a \<Longrightarrow> wf_gov b \<Longrightarrow> deep_equal a b \<Longrightarrow> deep_equal b a"
proof (induction a arbitrary: b)
  case (VFloat x)
  then show ?case by (auto split: gov.splits intro: f64_eq_sym)
next
  case (VArr xs)
  then obtain ys where b: "b = VArr ys" and r: "list_all2 deep_equal xs ys"
    by (auto split: gov.splits simp: deep_equal_elems_iff)
  have "list_all2 (\<lambda>y x. deep_equal y x) ys xs"
    using r VArr.IH VArr.prems(1,2) b
    by (auto simp: list_all2_conv_all_nth list_all_length)
  then show ?case by (simp add: b deep_equal_elems_iff)
next
  case (VObj m)
  then obtain n where b: "b = VObj n" and len: "length m = length n"
    and r: "deep_equal_entries m n" by (auto split: gov.splits)
  have dm: "distinct (map fst m)" and dn: "distinct (map fst n)"
    using VObj.prems(1,2) b by auto
  have keys: "fst ` set m = fst ` set n"
    by (rule distinct_keys_eq [OF len dm dn deep_equal_entries_keys [OF r]])
  have "\<exists>v'. map_of m k = Some v' \<and> deep_equal v v'" if kv: "(k, v) \<in> set n" for k v
  proof -
    obtain u where u: "(k, u) \<in> set m" using kv keys by (metis (no_types, lifting) fst_conv imageE image_eqI prod.collapse)
    then obtain v' where v': "map_of n k = Some v'" "deep_equal u v'"
      using r by (auto simp: deep_equal_entries_iff)
    with kv dn have "v' = v" by (simp add: map_of_eq_Some_iff)
    moreover have "wf_gov u" "wf_gov v" using u kv VObj.prems(1,2) b by (auto simp: list_all_iff)
    ultimately have "deep_equal v u" using VObj.IH [OF u, of u v] v' by simp
    then show ?thesis using u dm by (auto simp: map_of_eq_Some_iff)
  qed
  then show ?case by (auto simp: b len deep_equal_entries_iff)
qed auto

lemma deep_equal_trans: "deep_equal a b \<Longrightarrow> deep_equal b c \<Longrightarrow> deep_equal a c"
proof (induction a arbitrary: b c)
  case (VFloat x)
  then show ?case by (auto split: gov.splits intro: f64_eq_trans)
next
  case (VArr xs)
  then obtain ys zs where "b = VArr ys" "c = VArr zs" and r: "list_all2 deep_equal xs ys"
    "list_all2 deep_equal ys zs"
    by (auto split: gov.splits simp: deep_equal_elems_iff)
  then show ?case
    using VArr.IH by (auto simp: deep_equal_elems_iff list_all2_conv_all_nth)
next
  case (VObj m)
  then obtain n p where bc: "b = VObj n" "c = VObj p" and len: "length m = length n" "length n = length p"
    and r: "deep_equal_entries m n" "deep_equal_entries n p"
    by (auto split: gov.splits)
  have "\<exists>v'. map_of p k = Some v' \<and> deep_equal v v'" if kv: "(k, v) \<in> set m" for k v
  proof -
    obtain v1 where v1: "map_of n k = Some v1" "deep_equal v v1"
      using r(1) kv by (auto simp: deep_equal_entries_iff)
    then obtain v2 where v2: "map_of p k = Some v2" "deep_equal v1 v2"
      using r(2) by (fastforce simp: deep_equal_entries_iff dest: map_of_SomeD)
    show ?thesis using VObj.IH [OF kv, of v v1 v2] v1 v2 by simp
  qed
  then show ?case using len bc by (auto simp: deep_equal_entries_iff)
qed auto

text \<open>Two maps with the same entries in a different order are deeply equal.\<close>

lemma deep_equal_reorder:
  assumes "mset m = mset n" "wf_gov (VObj m)" "nan_free (VObj m)"
  shows "deep_equal (VObj m) (VObj n)"
proof -
  have "map_of m = map_of n" using assms(1,2) by (intro map_of_mset_cong) auto
  moreover have "length m = length n" using assms(1) by (metis size_mset)
  moreover have "deep_equal_entries m m" using deep_equal_refl [OF assms(2,3)] by simp
  ultimately show ?thesis by (simp add: deep_equal_entries_iff)
qed

lemma deep_equal_int_float [simp]:
  "\<not> deep_equal (VInt i) (VFloat f)" "\<not> deep_equal (VFloat f) (VInt i)"
  by simp_all

end
