(* ===== verification/Unstructured.thy ===== *)
theory Unstructured
  imports Values
begin

text \<open>
  Unstructured objects: \<open>obj\<close> is the content of \<^verbatim>\<open>unstructured.Unstructured.Object\<close>. The package's
  accessors are the parameter record \<open>ulib\<close>, with their documented laws in \<open>ulib_ok\<close>. The last
  section gives one concrete library that satisfies the laws; the witnesses use it.
\<close>

section \<open>The accessor library as a parameter\<close>

text \<open>
  A getter for a string field returns the empty string when the field is absent. The two nested
  getters return an error, nothing, or the value found (Go's \<^verbatim>\<open>val, found, err\<close>). Setters return
  the object as it is after the call. \<open>listItems\<close> are the elements that \<^verbatim>\<open>EachListItem\<close> visits, in
  order; they share storage with the list, so \<open>setListItems\<close> is the list after its elements were
  changed in place. \<open>itemNotObject\<close> is the error of \<^verbatim>\<open>EachListItem\<close> for an element that is no
  object.
\<close>

record ulib =
  getAPIVersion :: "obj \<Rightarrow> string"
  getKind :: "obj \<Rightarrow> string"
  getName :: "obj \<Rightarrow> string"
  getNamespace :: "obj \<Rightarrow> string"
  getResourceVersion :: "obj \<Rightarrow> string"
  setResourceVersion :: "obj \<Rightarrow> string \<Rightarrow> obj"
  getAnnotations :: "obj \<Rightarrow> (string \<times> string) list option"
  setAnnotations :: "obj \<Rightarrow> (string \<times> string) list option \<Rightarrow> obj"
  nestedString :: "obj \<Rightarrow> string list \<Rightarrow> go_error + string option"
  nestedFieldNoCopy :: "obj \<Rightarrow> string list \<Rightarrow> go_error + gov option"
  setNestedField :: "obj \<Rightarrow> gov \<Rightarrow> string list \<Rightarrow> (go_error + unit) \<times> obj"
  isList :: "obj \<Rightarrow> bool"
  listItems :: "obj \<Rightarrow> gov list"
  setListItems :: "obj \<Rightarrow> gov list \<Rightarrow> obj"
  itemNotObject :: go_error

text \<open>What addresses an object at the API server.\<close>

definition ident :: "ulib \<Rightarrow> obj \<Rightarrow> string \<times> string \<times> string \<times> string" where
  "ident U u = (getAPIVersion U u, getKind U u, getNamespace U u, getName U u)"

lemma ident_eqD:
  assumes "ident U a = ident U b"
  shows "getAPIVersion U a = getAPIVersion U b" "getKind U a = getKind U b"
    "getNamespace U a = getNamespace U b" "getName U a = getName U b"
  using assms by (simp_all add: ident_def)

text \<open>An object whose metadata, when present, is a map. Setters silently fail on any other.\<close>

definition meta_ok :: "obj \<Rightarrow> bool" where
  "meta_ok u = (case map_of u ''metadata'' of None \<Rightarrow> True | Some (VObj _) \<Rightarrow> True | _ \<Rightarrow> False)"

definition keeps :: "ulib \<Rightarrow> obj \<Rightarrow> obj \<Rightarrow> bool" where
  "keeps U u u' \<longleftrightarrow> ident U u' = ident U u \<and> isList U u' = isList U u \<and> (meta_ok u \<longrightarrow> meta_ok u')"

lemma keeps_refl [simp]: "keeps U u u"
  by (simp add: keeps_def)

lemma keeps_trans: "keeps U a b \<Longrightarrow> keeps U b c \<Longrightarrow> keeps U a c"
  by (simp add: keeps_def)

definition ulib_ok :: "ulib \<Rightarrow> bool" where
  "ulib_ok U \<longleftrightarrow>
     (\<forall>u v. meta_ok u \<longrightarrow> getResourceVersion U (setResourceVersion U u v) = v) \<and>
     (\<forall>u v. keeps U u (setResourceVersion U u v)) \<and>
     (\<forall>u a. meta_ok u \<longrightarrow>
        map_option map_of (getAnnotations U (setAnnotations U u (Some a))) = Some (map_of a)) \<and>
     (\<forall>u a. keeps U u (setAnnotations U u a) \<and>
        getResourceVersion U (setAnnotations U u a) = getResourceVersion U u) \<and>
     (\<forall>u v ks. keeps U u (snd (setNestedField U u v (''spec'' # ks))) \<and>
        getResourceVersion U (snd (setNestedField U u v (''spec'' # ks))) = getResourceVersion U u) \<and>
     (\<forall>u s k ks. fst (setNestedField U u (VStr s) (k # ks)) = Inr () \<longrightarrow>
        nestedString U (snd (setNestedField U u (VStr s) (k # ks))) (k # ks) = Inr (Some s)) \<and>
     (\<forall>u v. v \<in> set (listItems U u) \<longrightarrow> size v < size (VObj u)) \<and>
     (\<forall>u vs. isList U u \<longrightarrow> keeps U u (setListItems U u vs)) \<and>
     (\<forall>u vs. isList U u \<longrightarrow> listItems U (setListItems U u vs) = vs)"

lemma ulib_okD:
  assumes "ulib_ok U"
  shows "meta_ok u \<Longrightarrow> getResourceVersion U (setResourceVersion U u v) = v"
    and "keeps U u (setResourceVersion U u v)"
    and "meta_ok u \<Longrightarrow>
      map_option map_of (getAnnotations U (setAnnotations U u (Some a))) = Some (map_of a)"
    and "keeps U u (setAnnotations U u b)"
    and "getResourceVersion U (setAnnotations U u b) = getResourceVersion U u"
    and "keeps U u (snd (setNestedField U u w (''spec'' # ks)))"
    and "getResourceVersion U (snd (setNestedField U u w (''spec'' # ks))) = getResourceVersion U u"
    and "fst (setNestedField U u (VStr s) (k # ks)) = Inr () \<Longrightarrow>
      nestedString U (snd (setNestedField U u (VStr s) (k # ks))) (k # ks) = Inr (Some s)"
    and "x \<in> set (listItems U u) \<Longrightarrow> size x < size (VObj u)"
    and "isList U u \<Longrightarrow> keeps U u (setListItems U u vs)"
    and "isList U u \<Longrightarrow> listItems U (setListItems U u vs) = vs"
  using assms unfolding ulib_ok_def by (simp_all only: simp_thms all_simps)

section \<open>A concrete library\<close>

fun nested_get :: "obj \<Rightarrow> string list \<Rightarrow> go_error + gov option" where
  "nested_get u [] = Inr (Some (VObj u))"
| "nested_get u (k # ks) =
     (case map_of u k of
        None \<Rightarrow> Inr None
      | Some v \<Rightarrow>
          (if ks = [] then Inr (Some v)
           else case v of VObj m \<Rightarrow> nested_get m ks | _ \<Rightarrow> Inl (LibError ''not a map'')))"

fun nested_set :: "obj \<Rightarrow> gov \<Rightarrow> string list \<Rightarrow> (go_error + unit) \<times> obj" where
  "nested_set u v [] = (Inl (LibError ''no path''), u)"
| "nested_set u v (k # ks) =
     (if ks = [] then (Inr (), AList.update k v u)
      else case map_of u k of
        None \<Rightarrow> (let (r, m) = nested_set [] v ks in (r, AList.update k (VObj m) u))
      | Some (VObj m) \<Rightarrow> (let (r, m') = nested_set m v ks in (r, AList.update k (VObj m') u))
      | Some _ \<Rightarrow> (Inl (LibError ''not a map''), u))"

definition nested_str :: "obj \<Rightarrow> string list \<Rightarrow> string" where
  "nested_str u ks = (case nested_get u ks of Inr (Some (VStr s)) \<Rightarrow> s | _ \<Rightarrow> [])"

fun all_strings :: "(string \<times> gov) list \<Rightarrow> (string \<times> string) list option" where
  "all_strings [] = Some []"
| "all_strings ((k, VStr s) # m) = map_option (\<lambda>r. (k, s) # r) (all_strings m)"
| "all_strings (_ # m) = None"

definition sample_ulib :: ulib where
  "sample_ulib =
     \<lparr>getAPIVersion = (\<lambda>u. nested_str u [''apiVersion'']),
      getKind = (\<lambda>u. nested_str u [''kind'']),
      getName = (\<lambda>u. nested_str u [''metadata'', ''name'']),
      getNamespace = (\<lambda>u. nested_str u [''metadata'', ''namespace'']),
      getResourceVersion = (\<lambda>u. nested_str u [''metadata'', ''resourceVersion'']),
      setResourceVersion = (\<lambda>u v. snd (nested_set u (VStr v) [''metadata'', ''resourceVersion''])),
      getAnnotations = (\<lambda>u. case nested_get u [''metadata'', ''annotations''] of
         Inr (Some (VObj m)) \<Rightarrow> all_strings m | _ \<Rightarrow> None),
      setAnnotations = (\<lambda>u a. case a of
         None \<Rightarrow> u
       | Some m \<Rightarrow> snd (nested_set u (VObj (map (\<lambda>(k, s). (k, VStr s)) m)) [''metadata'', ''annotations''])),
      nestedString = (\<lambda>u ks. case nested_get u ks of
         Inl e \<Rightarrow> Inl e | Inr None \<Rightarrow> Inr None | Inr (Some (VStr s)) \<Rightarrow> Inr (Some s)
       | Inr (Some _) \<Rightarrow> Inl (LibError ''not a string'')),
      nestedFieldNoCopy = nested_get,
      setNestedField = nested_set,
      isList = (\<lambda>u. case map_of u ''items'' of Some (VArr _) \<Rightarrow> True | _ \<Rightarrow> False),
      listItems = (\<lambda>u. case map_of u ''items'' of Some (VArr xs) \<Rightarrow> xs | _ \<Rightarrow> []),
      setListItems = (\<lambda>u vs. AList.update ''items'' (VArr vs) u),
      itemNotObject = LibError ''items member is not an object''\<rparr>"

lemma map_of_update [simp]: "map_of (AList.update k v xs) = (map_of xs)(k \<mapsto> v)"
  by (rule ext) (simp add: update_conv')

lemma nested_set_other: "k' \<noteq> k \<Longrightarrow> map_of (snd (nested_set u v (k # ks))) k' = map_of u k'"
  by (auto simp: Let_def split: option.splits gov.splits prod.splits)

lemma nested_get_set:
  "fst (nested_set u v (k # ks)) = Inr () \<Longrightarrow>
   nested_get (snd (nested_set u v (k # ks))) (k # ks) = Inr (Some v)"
proof (induction ks arbitrary: u k)
  case Nil
  then show ?case by simp
next
  case (Cons k' ks)
  have IH: "nested_get m (k' # ks) = Inr (Some v)" if "nested_set u0 v (k' # ks) = (Inr (), m)" for u0 m
    using Cons.IH [of u0 k'] that by simp
  show ?case
    using Cons.prems IH
    by (auto simp del: nested_get.simps(2) nested_set.simps(2)
        simp: nested_set.simps(2) [of u v k "k' # ks"] nested_get.simps(2) [of _ k "k' # ks"]
        Let_def split: option.splits gov.splits prod.splits if_splits)
qed

lemma nested_str_cong:
  "map_of u k = map_of u' k \<Longrightarrow> nested_str u (k # ks) = nested_str u' (k # ks)"
  by (simp add: nested_str_def)

lemma all_strings_map: "all_strings (map (\<lambda>(k, s). (k, VStr s)) m) = Some m"
  by (induction m) auto

lemma size_map_of: "map_of u k = Some v \<Longrightarrow> size v < size (VObj u)"
  by (auto dest!: map_of_SomeD simp: less_Suc_eq_le intro: order_trans [OF _ size_list_estimation'])

lemma meta_set_str:
  "f \<noteq> g \<Longrightarrow> nested_str (snd (nested_set u w [''metadata'', g])) [''metadata'', f] =
     nested_str u [''metadata'', f]"
  by (auto simp: nested_str_def Let_def split: option.splits gov.splits)

lemma meta_set_meta_ok: "meta_ok u \<Longrightarrow> meta_ok (snd (nested_set u w [''metadata'', g]))"
  by (auto simp: meta_ok_def split: option.splits gov.splits)

lemma meta_set_get:
  "meta_ok u \<Longrightarrow> nested_get (snd (nested_set u w [''metadata'', g])) [''metadata'', g] = Inr (Some w)"
  by (rule nested_get_set) (auto simp: meta_ok_def split: option.splits gov.splits)

lemma meta_set_other:
  "k \<noteq> ''metadata'' \<Longrightarrow> nested_str (snd (nested_set u w [''metadata'', g])) [k] = nested_str u [k]"
  using nested_set_other [of k "''metadata''" u w "[g]"] by (rule nested_str_cong)

declare nested_get.simps(2) [simp del] nested_set.simps(2) [simp del]

text \<open>The equations that evaluate the library on a concrete object.\<close>

lemmas sample_ulib_eval = sample_ulib_def nested_get.simps nested_set.simps nested_str_def meta_ok_def

lemma keeps_sampleI:
  assumes "nested_str u' [''apiVersion''] = nested_str u [''apiVersion'']"
    and "nested_str u' [''kind''] = nested_str u [''kind'']"
    and "nested_str u' [''metadata'', ''namespace''] = nested_str u [''metadata'', ''namespace'']"
    and "nested_str u' [''metadata'', ''name''] = nested_str u [''metadata'', ''name'']"
    and "isList sample_ulib u' = isList sample_ulib u" and "meta_ok u \<Longrightarrow> meta_ok u'"
  shows "keeps sample_ulib u u'"
  using assms by (simp add: keeps_def ident_def sample_ulib_def)

lemma keeps_meta_set:
  "g \<noteq> ''name'' \<Longrightarrow> g \<noteq> ''namespace'' \<Longrightarrow>
   keeps sample_ulib u (snd (nested_set u w [''metadata'', g]))"
  by (rule keeps_sampleI)
    (simp_all add: meta_set_str meta_set_other meta_set_meta_ok nested_set_other sample_ulib_def)

lemma keeps_other:
  assumes "k \<noteq> ''metadata''" "k \<noteq> ''apiVersion''" "k \<noteq> ''kind''"
    and "isList sample_ulib u' = isList sample_ulib u" and "\<And>k'. k' \<noteq> k \<Longrightarrow> map_of u' k' = map_of u k'"
  shows "keeps sample_ulib u u'"
  by (rule keeps_sampleI) (use assms in \<open>auto simp: meta_ok_def intro!: nested_str_cong\<close>)

lemma sample_ulib_ok: "ulib_ok sample_ulib"
  unfolding ulib_ok_def
proof (intro conjI allI impI)
  fix u v assume "meta_ok u"
  then show "getResourceVersion sample_ulib (setResourceVersion sample_ulib u v) = v"
    using meta_set_get [of u "VStr v" "''resourceVersion''"] by (simp add: sample_ulib_def nested_str_def)
next
  fix u v show "keeps sample_ulib u (setResourceVersion sample_ulib u v)"
    using keeps_meta_set [of "''resourceVersion''"] by (simp add: sample_ulib_def)
next
  fix u a assume "meta_ok u"
  then show "map_option map_of (getAnnotations sample_ulib (setAnnotations sample_ulib u (Some a)))
      = Some (map_of a)"
    using meta_set_get [of u "VObj (map (\<lambda>(k, s). (k, VStr s)) a)" "''annotations''"]
    by (simp add: sample_ulib_def all_strings_map)
next
  fix u a show "keeps sample_ulib u (setAnnotations sample_ulib u a)"
    using keeps_meta_set [of "''annotations''"] by (cases a) (simp_all add: sample_ulib_def)
next
  fix u a
  show "getResourceVersion sample_ulib (setAnnotations sample_ulib u a) = getResourceVersion sample_ulib u"
    using meta_set_str [of "''resourceVersion''" "''annotations''"]
    by (cases a) (simp_all add: sample_ulib_def)
next
  fix u v ks
  show "keeps sample_ulib u (snd (setNestedField sample_ulib u v (''spec'' # ks)))"
    using nested_set_other by (intro keeps_other [of "''spec''"]) (simp_all add: sample_ulib_def)
next
  fix u v ks
  show "getResourceVersion sample_ulib (snd (setNestedField sample_ulib u v (''spec'' # ks)))
      = getResourceVersion sample_ulib u"
    using nested_set_other [of "''metadata''" "''spec''"]
    by (auto simp: sample_ulib_def intro!: nested_str_cong)
next
  fix u s k ks assume "fst (setNestedField sample_ulib u (VStr s) (k # ks)) = Inr ()"
  then show "nestedString sample_ulib (snd (setNestedField sample_ulib u (VStr s) (k # ks))) (k # ks)
      = Inr (Some s)"
    using nested_get_set [of u "VStr s" k ks] by (simp add: sample_ulib_def)
next
  fix u v assume "v \<in> set (listItems sample_ulib u)"
  then obtain xs where "map_of u ''items'' = Some (VArr xs)" "v \<in> set xs"
    by (auto simp: sample_ulib_def split: option.splits gov.splits) metis
  then show "size v < size (VObj u)"
    using size_map_of [of u "''items''" "VArr xs"] size_list_estimation' [of v xs "size v" size]
    by simp
next
  fix u vs assume "isList sample_ulib u"
  then show "keeps sample_ulib u (setListItems sample_ulib u vs)"
    by (intro keeps_other [of "''items''"]) (simp_all add: sample_ulib_def)
next
  fix u vs show "listItems sample_ulib (setListItems sample_ulib u vs) = vs" by (simp add: sample_ulib_def)
qed

end
