(* ===== verification/Client.thy ===== *)
theory Client
  imports Unstructured
begin

text \<open>
  The Kubernetes client of client/client.go: finding the resource of a kind, and updating an
  object with what the server already has. The API server and the discovery and dynamic clients
  are the parameter record \<open>kube\<close> over a world \<open>'w\<close>.
\<close>

section \<open>The API server as a parameter\<close>

text \<open>
  \<open>rest_config\<close> is the part of \<^verbatim>\<open>rest.Config\<close> that the code sets. A \<open>target\<close> is a dynamic client
  for a resource in a namespace. The operations take the world and return a result or an error,
  and the world after the call.
\<close>

record rest_config =
  cfg_Base :: string
  cfg_GroupVersion :: "(string \<times> string) option"
  cfg_APIPath :: string

record apiResource =
  res_Kind :: string
  res_Name :: string

record apiResourceList =
  rl_GroupVersion :: string
  rl_APIResources :: "apiResource list"

record target =
  tg_Config :: rest_config
  tg_Group :: string
  tg_Version :: string
  tg_Resource :: string
  tg_Namespace :: string

record containerStatus =
  cs_Terminated :: "string option"  \<comment> \<open>the reason, when the container has terminated\<close>

record pod =
  pod_Namespace :: string
  pod_Name :: string
  pod_ContainerStatuses :: "containerStatus list"

record 'w kube =
  k_ServerResources :: "string \<Rightarrow> ('w, apiResourceList) eff"
  k_ParseGroupVersion :: "string \<Rightarrow> go_error + string \<times> string"
  k_NewForConfig :: "rest_config \<Rightarrow> go_error + unit"
  k_Get :: "target \<Rightarrow> string \<Rightarrow> ('w, obj) eff"
  k_Create :: "target \<Rightarrow> obj \<Rightarrow> ('w, obj) eff"
  k_Update :: "target \<Rightarrow> obj \<Rightarrow> ('w, obj) eff"
  k_UpdateStatus :: "target \<Rightarrow> obj \<Rightarrow> ('w, obj) eff"
  k_Delete :: "target \<Rightarrow> string \<Rightarrow> string option \<Rightarrow> ('w, unit) eff"
  k_IsNotFound :: "go_error \<Rightarrow> bool"
  k_ListPods :: "string \<Rightarrow> string \<Rightarrow> ('w, pod list) eff"

section \<open>The client\<close>

text \<open>
  A preparation changes the updated object in place and may fail; a check says whether an update
  is needed. Both are interfaces of the code with one function each.
\<close>

type_synonym preparation = "ulib \<Rightarrow> obj \<Rightarrow> obj \<Rightarrow> (go_error + unit) \<times> obj"
type_synonym update_check = "ulib \<Rightarrow> obj \<Rightarrow> obj \<Rightarrow> go_error + bool"

record client =
  cl_cfg :: rest_config
  cl_updatePreparations :: "preparation list"
  cl_updateChecks :: "update_check list"

definition NewClient :: "rest_config \<Rightarrow> client" where
  "NewClient cfg = \<lparr>cl_cfg = cfg, cl_updatePreparations = [], cl_updateChecks = []\<rparr>"

definition SetUpdatePreparations :: "client \<Rightarrow> preparation list \<Rightarrow> client" where
  "SetUpdatePreparations c ps = c\<lparr>cl_updatePreparations := ps\<rparr>"

definition SetUpdateChecks :: "client \<Rightarrow> update_check list \<Rightarrow> client" where
  "SetUpdateChecks c cs = c\<lparr>cl_updateChecks := cs\<rparr>"

record resourceClient =
  rc_target :: target
  rc_updatePreparations :: "preparation list"
  rc_updateChecks :: "update_check list"

definition setConfigDefaults :: "'w kube \<Rightarrow> string \<Rightarrow> rest_config \<Rightarrow> go_error + rest_config" where
  "setConfigDefaults K groupVersion config =
     (case k_ParseGroupVersion K groupVersion of
        Inl e \<Rightarrow> Inl e
      | Inr gv \<Rightarrow>
          let config = config\<lparr>cfg_GroupVersion := Some gv, cfg_APIPath := ''/apis''\<rparr> in
          if fst gv = '''' \<and> snd gv = ''v1'' then Inr (config\<lparr>cfg_APIPath := ''/api''\<rparr>)
          else Inr config)"

text \<open>The configuration is copied first (\<^verbatim>\<open>config := *c\<close>), so the client's own is unchanged.\<close>

definition newForConfig :: "'w kube \<Rightarrow> string \<Rightarrow> rest_config \<Rightarrow> go_error + rest_config" where
  "newForConfig K groupVersion c =
     (case setConfigDefaults K groupVersion c of
        Inl e \<Rightarrow> Inl e
      | Inr config \<Rightarrow> (case k_NewForConfig K config of Inl e \<Rightarrow> Inl e | Inr _ \<Rightarrow> Inr config))"

fun find_resource :: "string \<Rightarrow> apiResource list \<Rightarrow> string" where
  "find_resource kind [] = ''''"
| "find_resource kind (r # rs) = (if res_Kind r = kind then res_Name r else find_resource kind rs)"

definition ClientFor ::
  "'w kube \<Rightarrow> client \<Rightarrow> string \<Rightarrow> string \<Rightarrow> string \<Rightarrow> ('w, resourceClient) eff" where
  "ClientFor K c apiVersion kind namespace w =
     (case k_ServerResources K apiVersion w of
        (Inl e, w1) \<Rightarrow> (Inl (DiscoveryFailed kind apiVersion e), w1)
      | (Inr rl, w1) \<Rightarrow>
          (case newForConfig K (rl_GroupVersion rl) (cl_cfg c) of
             Inl e \<Rightarrow> (Inl (DynamicClientFailed (rl_GroupVersion rl) e), w1)
           | Inr config \<Rightarrow>
               (case k_ParseGroupVersion K (rl_GroupVersion rl) of
                  Inl e \<Rightarrow> (Inl (ParsingGroupVersionFailed (rl_GroupVersion rl) e), w1)
                | Inr gv \<Rightarrow>
                    (Inr \<lparr>rc_target =
                            \<lparr>tg_Config = config, tg_Group = fst gv, tg_Version = snd gv,
                             tg_Resource = find_resource kind (rl_APIResources rl),
                             tg_Namespace = namespace\<rparr>,
                          rc_updatePreparations = cl_updatePreparations c,
                          rc_updateChecks = cl_updateChecks c\<rparr>, w1))))"

definition ClientForUnstructured ::
  "ulib \<Rightarrow> 'w kube \<Rightarrow> client \<Rightarrow> obj \<Rightarrow> ('w, resourceClient) eff" where
  "ClientForUnstructured U K c u =
     ClientFor K c (getAPIVersion U u) (getKind U u) (getNamespace U u)"

section \<open>Updating\<close>

text \<open>The loop over the preparations stops at the first error; the object keeps what was done.\<close>

fun run_preparations :: "ulib \<Rightarrow> preparation list \<Rightarrow> obj \<Rightarrow> obj \<Rightarrow> (go_error + unit) \<times> obj" where
  "run_preparations U [] current updated = (Inr (), updated)"
| "run_preparations U (p # ps) current updated =
     (case p U current updated of
        (Inl e, updated') \<Rightarrow> (Inl e, updated')
      | (Inr _, updated') \<Rightarrow> run_preparations U ps current updated')"

definition prepareUnstructuredForUpdate ::
  "ulib \<Rightarrow> resourceClient \<Rightarrow> obj \<Rightarrow> obj \<Rightarrow> (go_error + unit) \<times> obj" where
  "prepareUnstructuredForUpdate U rc current updated =
     run_preparations U (rc_updatePreparations rc) current
       (setResourceVersion U updated (getResourceVersion U current))"

fun run_update_checks :: "ulib \<Rightarrow> update_check list \<Rightarrow> obj \<Rightarrow> obj \<Rightarrow> go_error + bool" where
  "run_update_checks U [] current updated = Inr True"
| "run_update_checks U (p # ps) current updated =
     (case p U current updated of
        Inl e \<Rightarrow> Inl e
      | Inr needUpdate \<Rightarrow>
          if \<not> needUpdate then Inr False else run_update_checks U ps current updated)"

definition checkUnstructuredForUpdate ::
  "ulib \<Rightarrow> resourceClient \<Rightarrow> obj \<Rightarrow> obj \<Rightarrow> go_error + bool" where
  "checkUnstructuredForUpdate U rc = run_update_checks U (rc_updateChecks rc)"

text \<open>
  The result is the updated object at the server, or nothing when no update was needed. The
  second component is \<open>updated\<close> as the call leaves it.
\<close>

definition UpdateWithCurrent ::
  "ulib \<Rightarrow> 'w kube \<Rightarrow> resourceClient \<Rightarrow> obj \<Rightarrow> obj \<Rightarrow> 'w \<Rightarrow>
     (go_error + obj option) \<times> obj \<times> 'w" where
  "UpdateWithCurrent U K rc current updated w =
     (case prepareUnstructuredForUpdate U rc current updated of
        (Inl e, u) \<Rightarrow> (Inl e, u, w)
      | (Inr _, u) \<Rightarrow>
          (case checkUnstructuredForUpdate U rc current u of
             Inl e \<Rightarrow> (Inl e, u, w)
           | Inr needUpdate \<Rightarrow>
               if \<not> needUpdate then (Inr None, u, w)
               else (case k_Update K (rc_target rc) u w of
                       (Inl e, w1) \<Rightarrow> (Inl e, u, w1)
                     | (Inr o', w1) \<Rightarrow> (Inr (Some o'), u, w1))))"

section \<open>The preparations and checks that the program installs\<close>

definition PrepareServiceForUpdate :: preparation where
  "PrepareServiceForUpdate U current updated =
     (if getAPIVersion U updated = ''v1'' \<and> getKind U updated = ''Service'' then
        (case nestedString U current [''spec'', ''clusterIP''] of
           Inl e \<Rightarrow> (Inl e, updated)
         | Inr None \<Rightarrow> (Inr (), updated)
         | Inr (Some clusterIP) \<Rightarrow> setNestedField U updated (VStr clusterIP) [''spec'', ''clusterIP''])
      else (Inr (), updated))"

definition deploymentRevisionAnnotation :: string where
  "deploymentRevisionAnnotation = ''deployment.kubernetes.io/revision''"

text \<open>Indexing a Go map with an absent key gives the zero value, here the empty string.\<close>

definition str_at :: "(string \<times> string) list \<Rightarrow> string \<Rightarrow> string" where
  "str_at m k = (case map_of m k of None \<Rightarrow> '''' | Some v \<Rightarrow> v)"

definition PrepareDeploymentForUpdate :: preparation where
  "PrepareDeploymentForUpdate U current updated =
     (if (getAPIVersion U updated = ''apps/v1'' \<or> getAPIVersion U updated = ''v1beta2'') \<and>
         getKind U updated = ''Deployment'' then
        let updatedAnnotations =
              (case getAnnotations U updated of None \<Rightarrow> [] | Some m \<Rightarrow> m)
        in (case getAnnotations U current of
              None \<Rightarrow> (Inr (), updated)
            | Some curAnnotations \<Rightarrow>
                (Inr (), setAnnotations U updated
                   (Some (AList.update deploymentRevisionAnnotation
                      (str_at curAnnotations deploymentRevisionAnnotation) updatedAnnotations))))
      else (Inr (), updated))"

text \<open>
  The service account check marshals both objects and unmarshals them into the typed
  \<^verbatim>\<open>corev1.ServiceAccount\<close>. That decoding is library code: the parameter \<open>decodeSA\<close> gives the
  fields that are compared. The maps are compared up to order, nil and empty being equal
  (\<^verbatim>\<open>EquateEmpty\<close>).
\<close>

record serviceAccountMeta =
  sa_Name :: string
  sa_Namespace :: string
  sa_Labels :: "(string \<times> string) list"
  sa_Annotations :: "(string \<times> string) list"

definition same_entries :: "(string \<times> string) list \<Rightarrow> (string \<times> string) list \<Rightarrow> bool" where
  "same_entries a b \<longleftrightarrow>
     list_all (\<lambda>k. map_of a k = map_of b k) (map fst a) \<and>
     list_all (\<lambda>k. map_of a k = map_of b k) (map fst b)"

definition CheckServiceAccountForUpdate :: "(obj \<Rightarrow> go_error + serviceAccountMeta) \<Rightarrow> update_check" where
  "CheckServiceAccountForUpdate decodeSA U current updated =
     (if getAPIVersion U updated = ''v1'' \<and> getKind U updated = ''ServiceAccount'' then
        (case decodeSA current of
           Inl e \<Rightarrow> Inl e
         | Inr currentSA \<Rightarrow>
             (case decodeSA updated of
                Inl e \<Rightarrow> Inl e
              | Inr updatedSA \<Rightarrow>
                  if sa_Name currentSA = sa_Name updatedSA \<and>
                     sa_Namespace currentSA = sa_Namespace updatedSA \<and>
                     same_entries (sa_Labels currentSA) (sa_Labels updatedSA) \<and>
                     same_entries (sa_Annotations currentSA) (sa_Annotations updatedSA)
                  then Inr False else Inr True))
      else Inr True)"

definition DefaultUpdatePreparations :: "preparation list" where
  "DefaultUpdatePreparations = [PrepareServiceForUpdate, PrepareDeploymentForUpdate]"

definition DefaultUpdateChecks :: "(obj \<Rightarrow> go_error + serviceAccountMeta) \<Rightarrow> update_check list" where
  "DefaultUpdateChecks decodeSA = [CheckServiceAccountForUpdate decodeSA]"

lemma same_entries_iff: "same_entries a b \<longleftrightarrow> map_of a = map_of b"
proof
  assume e: "same_entries a b"
  show "map_of a = map_of b"
  proof
    fix k
    show "map_of a k = map_of b k"
    proof (cases "k \<in> fst ` set a \<union> fst ` set b")
      case True
      with e show ?thesis by (auto simp: same_entries_def list_all_iff)
    next
      case False
      then show ?thesis by (metis UnCI map_of_eq_None_iff)
    qed
  qed
qed (simp add: same_entries_def list_all_iff)

section \<open>The contract of a preparation\<close>

text \<open>
  What \<open>UpdateWithCurrent\<close> relies on: a preparation neither moves the object to another address
  nor touches the resource version that was just copied from the server. The pipeline of several
  preparations then has the same contract.
\<close>

locale update_preparation =
  fixes prepare :: preparation
  assumes prepare_keeps: "ulib_ok U \<Longrightarrow> keeps U updated (snd (prepare U current updated))"
    and prepare_version: "ulib_ok U \<Longrightarrow>
      getResourceVersion U (snd (prepare U current updated)) = getResourceVersion U updated"

locale update_pipeline =
  fixes preps :: "preparation list"
  assumes each: "p \<in> set preps \<Longrightarrow> update_preparation p"
begin

lemma run_keeps_version:
  assumes "ulib_ok U" "set ps \<subseteq> set preps"
  shows "keeps U updated (snd (run_preparations U ps current updated)) \<and>
    getResourceVersion U (snd (run_preparations U ps current updated)) = getResourceVersion U updated"
  using assms(2)
proof (induction ps arbitrary: updated)
  case (Cons p ps)
  have p: "update_preparation p" using Cons.prems each by simp
  obtain r u where ru: "p U current updated = (r, u)" by fastforce
  have k: "keeps U updated u" "getResourceVersion U u = getResourceVersion U updated"
    using update_preparation.prepare_keeps [OF p assms(1), of updated current]
      update_preparation.prepare_version [OF p assms(1), of current updated] ru
    by simp_all
  show ?case
  proof (cases r)
    case (Inr x)
    with k ru Cons.IH [of u] Cons.prems show ?thesis by (auto intro: keeps_trans)
  qed (use k ru in simp)
qed simp

lemma prepared:
  assumes U: "ulib_ok U" and rc: "rc_updatePreparations rc = preps"
  shows "keeps U updated (snd (prepareUnstructuredForUpdate U rc current updated))"
    and "meta_ok updated \<Longrightarrow>
      getResourceVersion U (snd (prepareUnstructuredForUpdate U rc current updated)) =
      getResourceVersion U current"
proof -
  let ?u = "setResourceVersion U updated (getResourceVersion U current)"
  have r: "keeps U ?u (snd (prepareUnstructuredForUpdate U rc current updated)) \<and>
      getResourceVersion U (snd (prepareUnstructuredForUpdate U rc current updated)) =
      getResourceVersion U ?u"
    using run_keeps_version [OF U, of preps ?u current] by (simp add: prepareUnstructuredForUpdate_def rc)
  then show "keeps U updated (snd (prepareUnstructuredForUpdate U rc current updated))"
    using ulib_okD(2) [OF U] keeps_trans by blast
  show "getResourceVersion U (snd (prepareUnstructuredForUpdate U rc current updated)) =
      getResourceVersion U current" if "meta_ok updated"
    using r ulib_okD(1) [OF U that] by simp
qed

lemma update_keeps:
  assumes U: "ulib_ok U" and rc: "rc_updatePreparations rc = preps"
  shows "keeps U updated (fst (snd (UpdateWithCurrent U K rc current updated w)))"
  using prepared(1) [OF U rc, of updated current]
  by (auto simp: UpdateWithCurrent_def split: prod.splits sum.splits)

end

interpretation service_preparation: update_preparation PrepareServiceForUpdate
  by unfold_locales
    (auto simp: PrepareServiceForUpdate_def ulib_okD split: sum.splits option.splits)

interpretation deployment_preparation: update_preparation PrepareDeploymentForUpdate
  by unfold_locales
    (auto simp: PrepareDeploymentForUpdate_def Let_def ulib_okD split: sum.splits option.splits)

interpretation default_preparations: update_pipeline DefaultUpdatePreparations
  by (rule update_pipeline.intro)
    (use service_preparation.update_preparation_axioms deployment_preparation.update_preparation_axioms
      in \<open>auto simp: DefaultUpdatePreparations_def\<close>)

lemma find_resource_find:
  "find_resource kind rs = (case find (\<lambda>r. res_Kind r = kind) rs of None \<Rightarrow> '''' | Some r \<Rightarrow> res_Name r)"
  by (induction rs) auto

lemma ClientFor_Inr:
  assumes "ClientFor K c apiVersion kind namespace w = (Inr rc, w')"
  shows "rc_updatePreparations rc = cl_updatePreparations c" "rc_updateChecks rc = cl_updateChecks c"
    "tg_Namespace (rc_target rc) = namespace"
  using assms by (auto simp: ClientFor_def split: prod.splits sum.splits)

end
