(* ===== verification/Cluster.thy ===== *)
theory Cluster
  imports Client
begin

text \<open>
  What the program relies on of the API server, as a law on the requests of \<open>kube\<close> with respect
  to a view \<open>store\<close> of the objects the server holds, and one concrete server that obeys it, for
  the witnesses.
\<close>

section \<open>The contract of the API server\<close>

text \<open>
  A read does not change the objects; what it returns is there, and \<open>not found\<close> means that it is
  not. A successful create adds an object that was absent; a successful update replaces one that
  is present, and only when the request carries no resource version or the current one. The
  object at the server has the address of the request. A request concerns one name only. Nothing
  is assumed of a write that fails, beyond that.
\<close>

type_synonym 'w view = "'w \<Rightarrow> target \<Rightarrow> string \<Rightarrow> obj option"

definition only_changes :: "'w view \<Rightarrow> target \<Rightarrow> string \<Rightarrow> 'w \<Rightarrow> 'w \<Rightarrow> bool" where
  "only_changes store t n w w' \<longleftrightarrow> (\<forall>t' n'. (t', n') \<noteq> (t, n) \<longrightarrow> store w' t' n' = store w t' n')"

lemma only_changes_refl: "store w' = store w \<Longrightarrow> only_changes store t n w w'"
  by (simp add: only_changes_def)

lemma only_changes_trans:
  "only_changes store t n w w1 \<Longrightarrow> only_changes store t n w1 w2 \<Longrightarrow> only_changes store t n w w2"
  by (simp add: only_changes_def)

definition get_law :: "'w kube \<Rightarrow> 'w view \<Rightarrow> bool" where
  "get_law K store \<longleftrightarrow>
     (\<forall>t n w. let (r, w') = k_Get K t n w in
        store w' = store w \<and>
        (case r of Inr u \<Rightarrow> store w t n = Some u
         | Inl e \<Rightarrow> k_IsNotFound K e \<longrightarrow> store w t n = None))"

definition create_law :: "ulib \<Rightarrow> 'w kube \<Rightarrow> 'w view \<Rightarrow> bool" where
  "create_law U K store \<longleftrightarrow>
     (\<forall>t u w. let (r, w') = k_Create K t u w in
        only_changes store t (getName U u) w w' \<and>
        (case r of Inl e \<Rightarrow> True
         | Inr o' \<Rightarrow> store w t (getName U u) = None \<and> store w' t (getName U u) = Some o' \<and>
             ident U o' = ident U u))"

definition update_law :: "ulib \<Rightarrow> 'w kube \<Rightarrow> 'w view \<Rightarrow> bool" where
  "update_law U K store \<longleftrightarrow>
     (\<forall>t u w. let (r, w') = k_Update K t u w in
        only_changes store t (getName U u) w w' \<and>
        (case r of Inl e \<Rightarrow> True
         | Inr o' \<Rightarrow> store w' t (getName U u) = Some o' \<and> ident U o' = ident U u \<and>
             (\<exists>cur. store w t (getName U u) = Some cur \<and>
                (getResourceVersion U u = '''' \<or> getResourceVersion U u = getResourceVersion U cur))))"

text \<open>
  A delete request that the server accepts does not have to remove the object at once (deletion in
  the foreground waits for the dependents).
\<close>

definition delete_law :: "'w kube \<Rightarrow> 'w view \<Rightarrow> bool" where
  "delete_law K store \<longleftrightarrow>
     (\<forall>t n p w. let (r, w') = k_Delete K t n p w in
        only_changes store t n w w' \<and>
        (case r of Inr _ \<Rightarrow> store w t n \<noteq> None
         | Inl e \<Rightarrow> k_IsNotFound K e \<longrightarrow> store w t n = None \<and> store w' = store w))"

definition kube_ok :: "ulib \<Rightarrow> 'w kube \<Rightarrow> 'w view \<Rightarrow> bool" where
  "kube_ok U K store \<longleftrightarrow>
     get_law K store \<and> create_law U K store \<and> update_law U K store \<and> delete_law K store"

lemma kube_okD_get:
  assumes "kube_ok U K store" "k_Get K t n w = (r, w')"
  shows "store w' = store w" "r = Inr u \<Longrightarrow> store w t n = Some u"
    "r = Inl e \<Longrightarrow> k_IsNotFound K e \<Longrightarrow> store w t n = None"
  using assms
  by (auto simp: kube_ok_def get_law_def Let_def dest!: spec [of _ t] spec [of _ n] spec [of _ w])

lemma kube_okD_create:
  assumes "kube_ok U K store" "k_Create K t u w = (r, w')"
  shows "only_changes store t (getName U u) w w'"
    "r = Inr o' \<Longrightarrow> store w t (getName U u) = None \<and> store w' t (getName U u) = Some o' \<and>
      ident U o' = ident U u"
  using assms
  by (auto simp: kube_ok_def create_law_def Let_def dest!: spec [of _ t] spec [of _ u] spec [of _ w])

lemma kube_okD_update:
  assumes "kube_ok U K store" "k_Update K t u w = (r, w')"
  shows "only_changes store t (getName U u) w w'"
    "r = Inr o' \<Longrightarrow> store w' t (getName U u) = Some o' \<and> ident U o' = ident U u \<and>
      (\<exists>cur. store w t (getName U u) = Some cur \<and>
        (getResourceVersion U u = '''' \<or> getResourceVersion U u = getResourceVersion U cur))"
  using assms
  by (auto simp: kube_ok_def update_law_def Let_def dest!: spec [of _ t] spec [of _ u] spec [of _ w])

lemma kube_okD_delete:
  assumes "kube_ok U K store" "k_Delete K t n p w = (r, w')"
  shows "only_changes store t n w w'" "r = Inr x \<Longrightarrow> store w t n \<noteq> None"
    "r = Inl e \<Longrightarrow> k_IsNotFound K e \<Longrightarrow> store w t n = None \<and> store w' = store w"
  using assms
  by (auto simp: kube_ok_def delete_law_def Let_def dest!: spec [of _ t] spec [of _ n] spec [of _ p] spec [of _ w])

section \<open>A concrete server\<close>

text \<open>
  The objects by target and name, the pods, and a log of the write requests received (newest
  first). An accepted write gives the object a new resource version.
\<close>

record sworld =
  sw_objs :: "((target \<times> string) \<times> obj) list"
  sw_pods :: "pod list"
  sw_log :: "string list"

definition empty_world :: sworld where
  "empty_world = \<lparr>sw_objs = [], sw_pods = [], sw_log = []\<rparr>"

definition sample_cfg :: rest_config where
  "sample_cfg = \<lparr>cfg_Base = ''https'', cfg_GroupVersion = None, cfg_APIPath = []\<rparr>"

definition sw_store :: "sworld view" where
  "sw_store w t n = map_of (sw_objs w) (t, n)"

definition sw_put :: "target \<Rightarrow> obj \<Rightarrow> sworld \<Rightarrow> (go_error + obj) \<times> sworld" where
  "sw_put t u w =
     (let o' = setResourceVersion sample_ulib u (''v'' @ getResourceVersion sample_ulib u) in
      (Inr o', w\<lparr>sw_objs := AList.update (t, getName sample_ulib u) o' (sw_objs w)\<rparr>))"

definition sw_logged :: "string \<Rightarrow> sworld \<Rightarrow> sworld" where
  "sw_logged m w = w\<lparr>sw_log := m # sw_log w\<rparr>"

definition not_found :: go_error where
  "not_found = LibError ''NotFound''"

definition sample_kube :: "sworld kube" where
  "sample_kube =
     \<lparr>k_ServerResources = (\<lambda>v w.
        (if v = ''nowhere'' then Inl (LibError ''no such group'')
         else Inr \<lparr>rl_GroupVersion = v,
              rl_APIResources = [\<lparr>res_Kind = ''Service'', res_Name = ''services''\<rparr>,
                \<lparr>res_Kind = ''Deployment'', res_Name = ''deployments''\<rparr>,
                \<lparr>res_Kind = ''Job'', res_Name = ''jobs''\<rparr>]\<rparr>, w)),
      k_ParseGroupVersion = (\<lambda>v.
        (if v = ''v1'' then Inr ('''', ''v1'') else Inr (v, ''v1''))),
      k_NewForConfig = (\<lambda>c. Inr ()),
      k_Get = (\<lambda>t n w. (case sw_store w t n of None \<Rightarrow> Inl not_found | Some u \<Rightarrow> Inr u, w)),
      k_Create = (\<lambda>t u w.
        (let w = sw_logged ''create'' w in
         case sw_store w t (getName sample_ulib u) of
           None \<Rightarrow> sw_put t u w
         | Some _ \<Rightarrow> (Inl (LibError ''AlreadyExists''), w))),
      k_Update = (\<lambda>t u w.
        (let w = sw_logged ''update'' w in
         case sw_store w t (getName sample_ulib u) of
           None \<Rightarrow> (Inl not_found, w)
         | Some cur \<Rightarrow>
             if getResourceVersion sample_ulib u = '''' \<or>
                getResourceVersion sample_ulib u = getResourceVersion sample_ulib cur
             then sw_put t u w else (Inl (LibError ''Conflict''), w))),
      k_UpdateStatus = (\<lambda>t u w. (Inr u, sw_logged ''update status'' w)),
      k_Delete = (\<lambda>t n p w.
        (let w = sw_logged ''delete'' w in
         case sw_store w t n of
           None \<Rightarrow> (Inl not_found, w)
         | Some _ \<Rightarrow> (Inr (), w\<lparr>sw_objs := AList.delete (t, n) (sw_objs w)\<rparr>))),
      k_IsNotFound = (\<lambda>e. e = not_found),
      k_ListPods = (\<lambda>ns sel w.
        (if ns = ''broken'' then Inl (LibError ''list failed'') else Inr (sw_pods w), w))\<rparr>"

lemma sw_put_ident: "sw_put t u w = (Inr o', w') \<Longrightarrow> ident sample_ulib o' = ident sample_ulib u"
  using ulib_okD(2) [OF sample_ulib_ok]
  by (auto simp: sw_put_def Let_def keeps_def)

lemma sw_put_store:
  "sw_put t u w = (r, w') \<Longrightarrow>
   (\<exists>o'. r = Inr o' \<and> sw_store w' t (getName sample_ulib u) = Some o') \<and>
   only_changes sw_store t (getName sample_ulib u) w w'"
  by (auto simp: sw_put_def sw_store_def only_changes_def Let_def)

lemma sw_logged_store [simp]: "sw_store (sw_logged m w) = sw_store w"
  by (simp add: sw_store_def sw_logged_def fun_eq_iff)

lemma only_changes_logged [simp]:
  "only_changes sw_store t n w (sw_logged m w)"
  "only_changes sw_store t n (sw_logged m w) w' = only_changes sw_store t n w w'"
  by (simp_all add: only_changes_def)

lemma sample_get_law: "get_law sample_kube sw_store"
  by (simp add: get_law_def sample_kube_def split: option.splits)

lemma sample_create_law: "create_law sample_ulib sample_kube sw_store"
  by (auto simp: create_law_def sample_kube_def Let_def split: option.splits sum.splits
      dest: sw_put_store sw_put_ident)

lemma sample_update_law: "update_law sample_ulib sample_kube sw_store"
  by (auto simp: update_law_def sample_kube_def Let_def split: option.splits sum.splits if_splits
      dest: sw_put_store sw_put_ident)

lemma sample_delete_law: "delete_law sample_kube sw_store"
proof -
  have "only_changes sw_store t n w (w\<lparr>sw_objs := AList.delete (t, n) (sw_objs w)\<rparr>)" for t n w
    by (auto simp: only_changes_def sw_store_def delete_conv')
  then show ?thesis
    by (auto simp: delete_law_def sample_kube_def Let_def sw_logged_def not_found_def
        sw_store_def only_changes_def delete_conv' fun_eq_iff split: option.splits)
qed

lemma sample_kube_ok: "kube_ok sample_ulib sample_kube sw_store"
  by (simp add: kube_ok_def sample_get_law sample_create_law sample_update_law sample_delete_law)

end
