(* ===== verification/Client_Props.thy ===== *)
theory Client_Props
  imports Cluster
begin

text \<open>
  The properties of the client (client/client.go) over the contract of its libraries: what an
  update request carries, when no request is sent, and how a kind is mapped to a resource.
\<close>

section \<open>Sample objects\<close>

definition sample_object :: "string \<Rightarrow> string \<Rightarrow> string \<Rightarrow> (string \<times> gov) list \<Rightarrow> obj" where
  "sample_object apiv kind name meta =
     [(''apiVersion'', VStr apiv), (''kind'', VStr kind),
      (''metadata'', VObj ([(''name'', VStr name), (''namespace'', VStr ''ns'')] @ meta))]"

definition sample_rc :: "(obj \<Rightarrow> go_error + serviceAccountMeta) \<Rightarrow> resourceClient" where
  "sample_rc decodeSA =
     \<lparr>rc_target = \<lparr>tg_Config = \<lparr>cfg_Base = '''', cfg_GroupVersion = None, cfg_APIPath = ''''\<rparr>,
        tg_Group = '''', tg_Version = ''v1'', tg_Resource = ''services'', tg_Namespace = ''ns''\<rparr>,
      rc_updatePreparations = DefaultUpdatePreparations,
      rc_updateChecks = DefaultUpdateChecks decodeSA\<rparr>"

definition sample_decodeSA :: "obj \<Rightarrow> go_error + serviceAccountMeta" where
  "sample_decodeSA u =
     Inr \<lparr>sa_Name = getName sample_ulib u, sa_Namespace = getNamespace sample_ulib u,
          sa_Labels = [], sa_Annotations = []\<rparr>"

lemma meta_ok_sample [simp]: "meta_ok (sample_object a k n m)"
  by (simp add: meta_ok_def sample_object_def)

section \<open>What an update carries\<close>

text \<open>
  C11: With the preparations that the program installs, the object sent in an update carries the
  resource version that was read from the server, so that the server can refuse a stale update,
  and it is still addressed to the same API version, kind, namespace and name.
\<close>

theorem update_carries_current_version:
  assumes "ulib_ok U" "meta_ok updated" "rc_updatePreparations rc = DefaultUpdatePreparations"
  shows "getResourceVersion U (snd (prepareUnstructuredForUpdate U rc current updated)) =
      getResourceVersion U current \<and>
    ident U (snd (prepareUnstructuredForUpdate U rc current updated)) = ident U updated"
  using default_preparations.prepared [OF assms(1,3)] assms(2) by (simp add: keeps_def)

theorem update_carries_current_version_witness:
  "getResourceVersion sample_ulib
     (snd (prepareUnstructuredForUpdate sample_ulib (sample_rc sample_decodeSA)
        (sample_object ''v1'' ''Service'' ''web'' [(''resourceVersion'', VStr ''7'')])
        (sample_object ''v1'' ''Service'' ''web'' []))) = ''7''"
  using update_carries_current_version [OF sample_ulib_ok, of
      "sample_object ''v1'' ''Service'' ''web'' []" "sample_rc sample_decodeSA"
      "sample_object ''v1'' ''Service'' ''web'' [(''resourceVersion'', VStr ''7'')]"]
  by (simp add: sample_rc_def sample_object_def sample_ulib_eval)

text \<open>
  A service keeps the cluster address it was given: when the current v1 Service has a
  \<^verbatim>\<open>spec.clusterIP\<close> and the preparation succeeds, the updated object has the same one; and a kind
  other than a v1 Service, or a current object without the field, is left as it is.
\<close>

theorem service_keeps_cluster_ip:
  assumes U: "ulib_ok U" and ok: "fst (PrepareServiceForUpdate U current updated) = Inr ()"
  shows "if getAPIVersion U updated = ''v1'' \<and> getKind U updated = ''Service'' \<and>
            nestedString U current [''spec'', ''clusterIP''] \<noteq> Inr None
         then nestedString U (snd (PrepareServiceForUpdate U current updated)) [''spec'', ''clusterIP''] =
           nestedString U current [''spec'', ''clusterIP'']
         else snd (PrepareServiceForUpdate U current updated) = updated"
  using ok ulib_okD(8) [OF U, of updated _ "''spec''" "[''clusterIP'']"]
  by (auto simp: PrepareServiceForUpdate_def split: sum.splits option.splits)

theorem service_keeps_cluster_ip_witness:
  "nestedString sample_ulib
     (snd (PrepareServiceForUpdate sample_ulib
        (sample_object ''v1'' ''Service'' ''web'' [] @ [(''spec'', VObj [(''clusterIP'', VStr ''10.0.0.1'')])])
        (sample_object ''v1'' ''Service'' ''web'' []))) [''spec'', ''clusterIP''] = Inr (Some ''10.0.0.1'')"
  using service_keeps_cluster_ip [OF sample_ulib_ok, of
      "sample_object ''v1'' ''Service'' ''web'' [] @ [(''spec'', VObj [(''clusterIP'', VStr ''10.0.0.1'')])]"
      "sample_object ''v1'' ''Service'' ''web'' []"]
  by (simp add: sample_object_def sample_ulib_eval PrepareServiceForUpdate_def)

text \<open>
  For a deployment whose current object has annotations, the prepared object has its own
  annotations with the revision annotation taken from the current object (the empty string when
  the current object has none), and no other annotation is added or lost.
\<close>

theorem deployment_revision_annotation:
  assumes U: "ulib_ok U" and m: "meta_ok updated"
    and d: "getAPIVersion U updated = ''apps/v1''" "getKind U updated = ''Deployment''"
    and c: "getAnnotations U current = Some cur"
  shows "map_option map_of (getAnnotations U (snd (PrepareDeploymentForUpdate U current updated))) =
    Some ((case getAnnotations U updated of None \<Rightarrow> Map.empty | Some a \<Rightarrow> map_of a)
      (deploymentRevisionAnnotation \<mapsto>
         (case map_of cur deploymentRevisionAnnotation of None \<Rightarrow> '''' | Some v \<Rightarrow> v)))"
proof -
  let ?own = "case getAnnotations U updated of None \<Rightarrow> [] | Some m \<Rightarrow> m"
  let ?a = "AList.update deploymentRevisionAnnotation (str_at cur deploymentRevisionAnnotation) ?own"
  have "map_option map_of (getAnnotations U (setAnnotations U updated (Some ?a))) = Some (map_of ?a)"
    by (rule ulib_okD(3) [OF U m])
  moreover have "map_of ?own = (case getAnnotations U updated of None \<Rightarrow> Map.empty | Some a \<Rightarrow> map_of a)"
    by (simp split: option.splits)
  ultimately show ?thesis
    using d c by (simp add: PrepareDeploymentForUpdate_def Let_def str_at_def)
qed

theorem deployment_revision_annotation_witness:
  "getAnnotations sample_ulib
     (snd (PrepareDeploymentForUpdate sample_ulib
        (sample_object ''apps/v1'' ''Deployment'' ''d'' [(''annotations'', VObj [(''team'', VStr ''x'')])])
        (sample_object ''apps/v1'' ''Deployment'' ''d'' []))) =
   Some [(''deployment.kubernetes.io/revision'', '''')]"
  using deployment_revision_annotation [OF sample_ulib_ok, of
      "sample_object ''apps/v1'' ''Deployment'' ''d'' []"
      "sample_object ''apps/v1'' ''Deployment'' ''d'' [(''annotations'', VObj [(''team'', VStr ''x'')])]"
      "[(''team'', ''x'')]"]
  by (simp add: sample_object_def sample_ulib_eval PrepareDeploymentForUpdate_def str_at_def
      deploymentRevisionAnnotation_def)

section \<open>When a request is sent\<close>

text \<open>
  An update request goes out exactly when all preparations succeed and every check asks for
  it; it carries the prepared object. Otherwise the world is unchanged, and the call returns the
  error of the first preparation or check that failed, or nothing.
\<close>

theorem update_request_iff_needed:
  "UpdateWithCurrent U K rc current updated w =
     (let (p, u) = prepareUnstructuredForUpdate U rc current updated in
      case p of
        Inl e \<Rightarrow> (Inl e, u, w)
      | Inr _ \<Rightarrow>
          (if list_all (\<lambda>c. c U current u = Inr True) (rc_updateChecks rc)
           then (map_sum id Some (fst (k_Update K (rc_target rc) u w)), u,
                 snd (k_Update K (rc_target rc) u w))
           else (case the (find (\<lambda>r. r \<noteq> Inr True) (map (\<lambda>c. c U current u) (rc_updateChecks rc))) of
                   Inl e \<Rightarrow> (Inl e, u, w)
                 | Inr _ \<Rightarrow> (Inr None, u, w))))"
proof -
  have checks: "run_update_checks U cs current u =
      (if list_all (\<lambda>c. c U current u = Inr True) cs then Inr True
       else case the (find (\<lambda>r. r \<noteq> Inr True) (map (\<lambda>c. c U current u) cs)) of
         Inl e \<Rightarrow> Inl e | Inr _ \<Rightarrow> Inr False)" for cs u
    by (induction cs) (auto split: sum.splits)
  show ?thesis
    by (auto simp: UpdateWithCurrent_def checkUnstructuredForUpdate_def checks Let_def
        split: prod.splits sum.splits)
qed

text \<open>
  A v1 ServiceAccount whose name, namespace, labels and annotations are what the server already
  has is not updated: no request is sent, so no new secrets are created for it.
\<close>

theorem unchanged_service_account_not_updated:
  assumes U: "ulib_ok U" and m: "meta_ok updated"
    and rc: "rc_updatePreparations rc = DefaultUpdatePreparations"
      "rc_updateChecks rc = DefaultUpdateChecks decodeSA"
    and sa: "getAPIVersion U updated = ''v1''" "getKind U updated = ''ServiceAccount''"
    and same: "decodeSA current = Inr a"
      "decodeSA (setResourceVersion U updated (getResourceVersion U current)) = Inr b"
      "sa_Name a = sa_Name b" "sa_Namespace a = sa_Namespace b"
      "map_of (sa_Labels a) = map_of (sa_Labels b)"
      "map_of (sa_Annotations a) = map_of (sa_Annotations b)"
  shows "\<exists>u. UpdateWithCurrent U K rc current updated w = (Inr None, u, w)"
proof -
  let ?u = "setResourceVersion U updated (getResourceVersion U current)"
  have "ident U ?u = ident U updated" using ulib_okD(2) [OF U] by (simp add: keeps_def)
  then have "getAPIVersion U ?u = ''v1''" "getKind U ?u = ''ServiceAccount''"
    using sa by (auto dest: ident_eqD)
  then show ?thesis
    using same rc
    by (simp add: UpdateWithCurrent_def prepareUnstructuredForUpdate_def DefaultUpdatePreparations_def
        PrepareServiceForUpdate_def PrepareDeploymentForUpdate_def checkUnstructuredForUpdate_def
        DefaultUpdateChecks_def CheckServiceAccountForUpdate_def same_entries_iff)
qed

theorem unchanged_service_account_not_updated_witness:
  "fst (UpdateWithCurrent sample_ulib sample_kube (sample_rc sample_decodeSA)
     (sample_object ''v1'' ''ServiceAccount'' ''sa'' [(''resourceVersion'', VStr ''7'')])
     (sample_object ''v1'' ''ServiceAccount'' ''sa'' []) empty_world) = Inr None"
proof -
  let ?c = "sample_object ''v1'' ''ServiceAccount'' ''sa'' [(''resourceVersion'', VStr ''7'')]"
  let ?n = "sample_object ''v1'' ''ServiceAccount'' ''sa'' []"
  let ?a = "\<lparr>sa_Name = ''sa'', sa_Namespace = ''ns'', sa_Labels = [], sa_Annotations = []\<rparr>"
  have "\<exists>u. UpdateWithCurrent sample_ulib sample_kube (sample_rc sample_decodeSA) ?c ?n empty_world =
      (Inr None, u, empty_world)"
    by (rule unchanged_service_account_not_updated [OF sample_ulib_ok meta_ok_sample,
          where a = ?a and b = ?a and decodeSA = sample_decodeSA])
      (simp_all add: sample_rc_def sample_object_def sample_decodeSA_def sample_ulib_eval)
  then show ?thesis by auto
qed

section \<open>From a kind to a resource\<close>

text \<open>
  When discovery and the client construction succeed, the resource client addresses the first
  discovered resource of that kind, in the requested namespace, with the installed preparations
  and checks; for a kind that the group does not have the resource name is empty and the call
  still succeeds. The API path is \<open>/api\<close> for the core group's \<open>v1\<close> and \<open>/apis\<close> otherwise.
\<close>

theorem client_for_kind:
  assumes "k_ServerResources K apiVersion w = (Inr rl, w1)"
    and "k_ParseGroupVersion K (rl_GroupVersion rl) = Inr (g, v)"
    and "\<And>c. k_NewForConfig K c = Inr ()"
  shows "\<exists>rc. ClientFor K cl apiVersion kind namespace w = (Inr rc, w1) \<and>
    tg_Resource (rc_target rc) =
      (case find (\<lambda>r. res_Kind r = kind) (rl_APIResources rl) of None \<Rightarrow> '''' | Some r \<Rightarrow> res_Name r) \<and>
    tg_Group (rc_target rc) = g \<and> tg_Version (rc_target rc) = v \<and>
    tg_Namespace (rc_target rc) = namespace \<and>
    cfg_APIPath (tg_Config (rc_target rc)) = (if g = '''' \<and> v = ''v1'' then ''/api'' else ''/apis'') \<and>
    rc_updatePreparations rc = cl_updatePreparations cl \<and> rc_updateChecks rc = cl_updateChecks cl"
  using assms
  by (cases "g = '''' \<and> v = ''v1''")
    (simp_all add: ClientFor_def newForConfig_def setConfigDefaults_def find_resource_find Let_def)

theorem client_for_kind_witness:
  "\<exists>rc. ClientFor sample_kube (NewClient sample_cfg) ''v1'' ''Service'' ''ns'' empty_world = (Inr rc, empty_world) \<and>
     tg_Resource (rc_target rc) = ''services'' \<and> cfg_APIPath (tg_Config (rc_target rc)) = ''/api''"
proof -
  obtain rl where rl: "k_ServerResources sample_kube ''v1'' empty_world = (Inr rl, empty_world)" "rl_GroupVersion rl = ''v1''"
    "find (\<lambda>r. res_Kind r = ''Service'') (rl_APIResources rl) = Some \<lparr>res_Kind = ''Service'', res_Name = ''services''\<rparr>"
    by (simp add: sample_kube_def)
  show ?thesis
    using client_for_kind [OF rl(1), of "''''" "''v1''" "NewClient sample_cfg" "''Service''" "''ns''"] rl
    by (auto simp: sample_kube_def)
qed

end
