(* ===== verification/Actions.thy ===== *)
theory Actions
  imports Cluster
begin

text \<open>
  The object actions of rollout/actions.go: create or update, create if it does not exist, delete
  if it exists. An action is run with the client for the object's resource; it may change the
  object in place (an update does) and the world.
\<close>

section \<open>The actions\<close>

type_synonym 'w action_exec =
  "ulib \<Rightarrow> 'w kube \<Rightarrow> resourceClient \<Rightarrow> obj \<Rightarrow> 'w \<Rightarrow> (go_error + unit) \<times> obj \<times> 'w"

record 'w objectAction =
  oa_Name :: string
  oa_Execute :: "'w action_exec"

text \<open>The result of a call of which only the error is used.\<close>

definition drop_result :: "go_error + 'a \<Rightarrow> go_error + unit" where
  "drop_result r = map_sum id (\<lambda>_. ()) r"

lemma drop_result_simps [simp]: "drop_result (Inl e) = Inl e" "drop_result (Inr a) = Inr ()"
  by (simp_all add: drop_result_def)

lemma drop_result_iff [simp]:
  "drop_result r = Inr () \<longleftrightarrow> (\<exists>a. r = Inr a)" "drop_result r = Inl e \<longleftrightarrow> r = Inl e"
  by (cases r; simp)+

definition CreateOrUpdate_Execute :: "'w action_exec" where
  "CreateOrUpdate_Execute U K rc u w =
     (case k_Get K (rc_target rc) (getName U u) w of
        (Inl err, w1) \<Rightarrow>
          (if k_IsNotFound K err
           then (let (r, w2) = k_Create K (rc_target rc) u w1 in (drop_result r, u, w2))
           else (Inl err, u, w1))
      | (Inr current, w1) \<Rightarrow>
          (let (r, u', w2) = UpdateWithCurrent U K rc current u w1 in (drop_result r, u', w2)))"

definition CreateIfNotExist_Execute :: "'w action_exec" where
  "CreateIfNotExist_Execute U K rc u w =
     (case k_Get K (rc_target rc) (getName U u) w of
        (Inl err, w1) \<Rightarrow>
          (if k_IsNotFound K err
           then (let (r, w2) = k_Create K (rc_target rc) u w1 in (drop_result r, u, w2))
           else (Inl err, u, w1))
      | (Inr _, w1) \<Rightarrow> (Inr (), u, w1))"

definition DeletePropagationForeground :: string where
  "DeletePropagationForeground = ''Foreground''"

definition DeleteIfExists_Execute :: "'w action_exec" where
  "DeleteIfExists_Execute U K rc u w =
     (case k_Delete K (rc_target rc) (getName U u) (Some DeletePropagationForeground) w of
        (Inl err, w1) \<Rightarrow> (if k_IsNotFound K err then (Inr (), u, w1) else (Inl err, u, w1))
      | (Inr _, w1) \<Rightarrow> (Inr (), u, w1))"

definition CreateOrUpdateObjectAction :: "'w objectAction" where
  "CreateOrUpdateObjectAction = \<lparr>oa_Name = ''CreateOrUpdate'', oa_Execute = CreateOrUpdate_Execute\<rparr>"

definition CreateIfNotExistObjectAction :: "'w objectAction" where
  "CreateIfNotExistObjectAction =
     \<lparr>oa_Name = ''CreateIfNotExist'', oa_Execute = CreateIfNotExist_Execute\<rparr>"

definition DeleteIfExistsObjectAction :: "'w objectAction" where
  "DeleteIfExistsObjectAction = \<lparr>oa_Name = ''DeleteIfExist'', oa_Execute = DeleteIfExists_Execute\<rparr>"

definition DefaultObjectActions :: "'w objectAction list" where
  "DefaultObjectActions =
     [CreateOrUpdateObjectAction, CreateIfNotExistObjectAction, DeleteIfExistsObjectAction]"

section \<open>The contract of an action\<close>

text \<open>
  Whatever an action does, the object keeps its address (so the checks that follow look at the
  object that was acted on), and only the object of that name can change at the server. A set of
  actions has the contract when each of them has.
\<close>

locale object_action =
  fixes exec :: "'w action_exec"
  assumes exec_keeps: "ulib_ok U \<Longrightarrow> rc_updatePreparations rc = DefaultUpdatePreparations \<Longrightarrow>
      keeps U u (fst (snd (exec U K rc u w)))"
    and exec_local: "ulib_ok U \<Longrightarrow> rc_updatePreparations rc = DefaultUpdatePreparations \<Longrightarrow>
      kube_ok U K store \<Longrightarrow>
      only_changes store (rc_target rc) (getName U u) w (snd (snd (exec U K rc u w)))"

locale action_set =
  fixes acts :: "'w objectAction list"
  assumes acts_contract: "a \<in> set acts \<Longrightarrow> object_action (oa_Execute a)"
begin

lemma acts_keep:
  "a \<in> set acts \<Longrightarrow> ulib_ok U \<Longrightarrow> rc_updatePreparations rc = DefaultUpdatePreparations \<Longrightarrow>
   keeps U u (fst (snd (oa_Execute a U K rc u w)))"
  by (rule object_action.exec_keeps [OF acts_contract])

lemma acts_ident:
  "a \<in> set acts \<Longrightarrow> ulib_ok U \<Longrightarrow> rc_updatePreparations rc = DefaultUpdatePreparations \<Longrightarrow>
   ident U (fst (snd (oa_Execute a U K rc u w))) = ident U u"
  using acts_keep by (simp add: keeps_def)

end

text \<open>The single request that each branch of an action may send after it has read.\<close>

lemma update_only_changes:
  assumes U: "ulib_ok U" and rc: "rc_updatePreparations rc = DefaultUpdatePreparations"
    and K: "kube_ok U K store"
  shows "only_changes store (rc_target rc) (getName U u) w (snd (snd (UpdateWithCurrent U K rc cur u w)))"
proof -
  obtain p u' where pu: "prepareUnstructuredForUpdate U rc cur u = (p, u')" by fastforce
  then have "keeps U u u'" using default_preparations.prepared(1) [OF U rc, of u cur] by simp
  then have name: "getName U u' = getName U u" by (auto simp: keeps_def dest: ident_eqD)
  obtain r w1 where "k_Update K (rc_target rc) u' w = (r, w1)" by fastforce
  then show ?thesis
    using kube_okD_update(1) [OF K, of "rc_target rc" u' w r w1] pu name
    by (auto simp: UpdateWithCurrent_def only_changes_refl split: sum.splits)
qed

lemma create_or_update_local:
  assumes U: "ulib_ok U" and rc: "rc_updatePreparations rc = DefaultUpdatePreparations"
    and K: "kube_ok U K store"
  shows "only_changes store (rc_target rc) (getName U u) w (snd (snd (CreateOrUpdate_Execute U K rc u w)))"
proof -
  obtain r w1 where g: "k_Get K (rc_target rc) (getName U u) w = (r, w1)" by fastforce
  have s: "only_changes store (rc_target rc) (getName U u) w w1"
    using kube_okD_get(1) [OF K g] by (rule only_changes_refl)
  show ?thesis
  proof (cases r)
    case (Inl e)
    obtain r2 w2 where c: "k_Create K (rc_target rc) u w1 = (r2, w2)" by fastforce
    show ?thesis
      using g Inl c s only_changes_trans [OF s kube_okD_create(1) [OF K c]]
      by (simp add: CreateOrUpdate_Execute_def)
  next
    case (Inr cur)
    obtain x a b where u: "UpdateWithCurrent U K rc cur u w1 = (x, a, b)" using prod_cases3 by blast
    have "only_changes store (rc_target rc) (getName U u) w1 b"
      using update_only_changes [OF U rc K, of u w1 cur] u by simp
    then show ?thesis
      using g Inr u only_changes_trans [OF s] by (simp add: CreateOrUpdate_Execute_def Let_def)
  qed
qed

lemma create_if_not_exist_local:
  assumes K: "kube_ok U K store"
  shows "only_changes store (rc_target rc) (getName U u) w (snd (snd (CreateIfNotExist_Execute U K rc u w)))"
proof -
  obtain r w1 where g: "k_Get K (rc_target rc) (getName U u) w = (r, w1)" by fastforce
  have s: "only_changes store (rc_target rc) (getName U u) w w1"
    using kube_okD_get(1) [OF K g] by (rule only_changes_refl)
  obtain r2 w2 where c: "k_Create K (rc_target rc) u w1 = (r2, w2)" by fastforce
  show ?thesis
    using g c s only_changes_trans [OF s kube_okD_create(1) [OF K c]]
    by (auto simp: CreateIfNotExist_Execute_def split: sum.splits)
qed

lemma delete_if_exists_local:
  assumes K: "kube_ok U K store"
  shows "only_changes store (rc_target rc) (getName U u) w (snd (snd (DeleteIfExists_Execute U K rc u w)))"
proof -
  obtain r w1 where d:
    "k_Delete K (rc_target rc) (getName U u) (Some DeletePropagationForeground) w = (r, w1)" by fastforce
  then show ?thesis
    using kube_okD_delete(1) [OF K d] by (auto simp: DeleteIfExists_Execute_def split: sum.splits)
qed

lemma create_or_update_keeps:
  assumes "ulib_ok U" "rc_updatePreparations rc = DefaultUpdatePreparations"
  shows "keeps U u (fst (snd (CreateOrUpdate_Execute U K rc u w)))"
proof -
  have "keeps U u u'" if "UpdateWithCurrent U K rc cur u w1 = (r, u', w2)" for cur w1 r u' w2
    using default_preparations.update_keeps [OF assms, of u K cur w1] that by simp
  then show ?thesis
    by (auto simp: CreateOrUpdate_Execute_def Let_def split: prod.splits sum.splits)
qed

interpretation create_or_update: object_action CreateOrUpdate_Execute
  by unfold_locales (fact create_or_update_keeps create_or_update_local)+

interpretation create_if_not_exist: object_action CreateIfNotExist_Execute
proof unfold_locales
  show "keeps U u (fst (snd (CreateIfNotExist_Execute U K rc u w)))" for U u K rc w
    by (auto simp: CreateIfNotExist_Execute_def Let_def split: prod.splits sum.splits)
qed (rule create_if_not_exist_local)

interpretation delete_if_exists: object_action DeleteIfExists_Execute
proof unfold_locales
  show "keeps U u (fst (snd (DeleteIfExists_Execute U K rc u w)))" for U u K rc w
    by (auto simp: DeleteIfExists_Execute_def split: prod.splits sum.splits)
qed (rule delete_if_exists_local)

interpretation default_actions: action_set DefaultObjectActions
  by (rule action_set.intro)
    (use create_or_update.object_action_axioms create_if_not_exist.object_action_axioms
        delete_if_exists.object_action_axioms
      in \<open>auto simp: DefaultObjectActions_def CreateOrUpdateObjectAction_def
        CreateIfNotExistObjectAction_def DeleteIfExistsObjectAction_def\<close>)

section \<open>What the actions do to the server\<close>

definition sample_service :: obj where
  "sample_service =
     [(''apiVersion'', VStr ''v1''), (''kind'', VStr ''Service''),
      (''metadata'', VObj [(''name'', VStr ''web''), (''namespace'', VStr ''ns'')])]"

definition sample_target :: resourceClient where
  "sample_target =
     \<lparr>rc_target = \<lparr>tg_Config = sample_cfg, tg_Group = [], tg_Version = ''v1'',
        tg_Resource = ''services'', tg_Namespace = ''ns''\<rparr>,
      rc_updatePreparations = DefaultUpdatePreparations, rc_updateChecks = []\<rparr>"

lemma sample_target_preparations [simp]: "rc_updatePreparations sample_target = DefaultUpdatePreparations"
  by (simp add: sample_target_def)

lemmas sample_eval = sample_target_def sample_service_def sample_ulib_eval sample_kube_def
  sw_store_def empty_world_def sw_logged_def sw_put_def sample_cfg_def not_found_def Let_def

lemma create_or_update_put:
  assumes U: "ulib_ok U" and K: "kube_ok U K store"
    and rc: "rc_updatePreparations rc = DefaultUpdatePreparations"
    and run: "CreateOrUpdate_Execute U K rc u w = (Inr (), u', w')"
  shows "\<exists>v. store w' (rc_target rc) (getName U u) = Some v \<and>
      (ident U v = ident U u \<or> store w' = store w) \<and>
      only_changes store (rc_target rc) (getName U u) w w'"
proof -
  let ?t = "rc_target rc" and ?n = "getName U u"
  obtain r w1 where g: "k_Get K ?t ?n w = (r, w1)" by fastforce
  have oc: "only_changes store ?t ?n w w'" using create_or_update_local [OF U rc K, of u w] run by simp
  show ?thesis
  proof (cases r)
    case (Inl e)
    obtain r2 w2 where c: "k_Create K ?t u w1 = (r2, w2)" by fastforce
    with Inl g run obtain o' where "r2 = Inr o'" "w2 = w'"
      by (auto simp: CreateOrUpdate_Execute_def split: if_splits)
    with kube_okD_create(2) [OF K c] oc show ?thesis by blast
  next
    case (Inr cur)
    obtain p v where pv: "prepareUnstructuredForUpdate U rc cur u = (p, v)" by fastforce
    have idv: "ident U v = ident U u"
      using default_preparations.prepared(1) [OF U rc, of u cur] pv by (simp add: keeps_def)
    obtain r2 w2 where k: "k_Update K ?t v w1 = (r2, w2)" by fastforce
    from run g Inr pv k
    consider "w' = w1" | o' where "r2 = Inr o'" "w' = w2"
      by (auto simp: CreateOrUpdate_Execute_def UpdateWithCurrent_def split: sum.splits if_splits)
    then show ?thesis
    proof cases
      case 1
      then show ?thesis using kube_okD_get [OF K g] Inr oc by simp
    next
      case 2
      with kube_okD_update(2) [OF K k] idv oc show ?thesis by (auto dest: ident_eqD)
    qed
  qed
qed

text \<open>
  What the update check of the program looks at: a v1 service account that the server already has
  with the same name, namespace, labels and annotations.
\<close>

definition settled_account :: "(obj \<Rightarrow> go_error + serviceAccountMeta) \<Rightarrow> ulib \<Rightarrow> obj \<Rightarrow> obj \<Rightarrow> bool" where
  "settled_account decodeSA U current new \<longleftrightarrow>
     getAPIVersion U new = ''v1'' \<and> getKind U new = ''ServiceAccount'' \<and>
     (\<exists>a b. decodeSA current = Inr a \<and> decodeSA new = Inr b \<and> sa_Name a = sa_Name b \<and>
        sa_Namespace a = sa_Namespace b \<and> map_of (sa_Labels a) = map_of (sa_Labels b) \<and>
        map_of (sa_Annotations a) = map_of (sa_Annotations b))"

lemma default_check_settled:
  assumes "rc_updateChecks rc = DefaultUpdateChecks decodeSA"
    and "checkUnstructuredForUpdate U rc current new = Inr need"
  shows "need \<longleftrightarrow> \<not> settled_account decodeSA U current new"
  using assms
  by (auto simp: checkUnstructuredForUpdate_def DefaultUpdateChecks_def CheckServiceAccountForUpdate_def
      settled_account_def same_entries_iff split: sum.splits if_splits)

text \<open>
  C7: CreateOrUpdate is an upsert. When it succeeds and the object was not there, the server has accepted
  a create request for it and holds the result. When it was there, the object has been prepared from
  the current one, and the server has accepted an update request with it and holds the result; only for a
  service account that is already as wanted nothing is sent. In each case the object at the server has
  the address of the given one, and no object of another name has changed.
\<close>

theorem create_or_update_upserts:
  assumes U: "ulib_ok U" and K: "kube_ok U K store"
    and rc: "rc_updatePreparations rc = DefaultUpdatePreparations"
      "rc_updateChecks rc = DefaultUpdateChecks decodeSA"
    and run: "CreateOrUpdate_Execute U K rc u w = (Inr (), u', w')"
  shows "only_changes store (rc_target rc) (getName U u) w w' \<and>
    (case store w (rc_target rc) (getName U u) of
       None \<Rightarrow> u' = u \<and>
         (\<exists>v w1. store w1 = store w \<and> k_Create K (rc_target rc) u w1 = (Inr v, w') \<and>
            store w' (rc_target rc) (getName U u) = Some v \<and> ident U v = ident U u)
     | Some current \<Rightarrow> u' = snd (prepareUnstructuredForUpdate U rc current u) \<and>
         (if settled_account decodeSA U current u' then store w' = store w
          else \<exists>v w1. store w1 = store w \<and> k_Update K (rc_target rc) u' w1 = (Inr v, w') \<and>
            store w' (rc_target rc) (getName U u) = Some v \<and> ident U v = ident U u))"
proof -
  let ?t = "rc_target rc" and ?n = "getName U u"
  obtain r w1 where g: "k_Get K ?t ?n w = (r, w1)" by (rule prod.exhaust)
  note law = kube_okD_get [OF K g]
  have oc: "only_changes store ?t ?n w w'" using create_or_update_local [OF U rc(1) K, of u w] run by simp
  show ?thesis
  proof (cases r)
    case (Inl e)
    obtain r2 w2 where c: "k_Create K ?t u w1 = (r2, w2)" by (rule prod.exhaust)
    have x: "k_IsNotFound K e" "drop_result r2 = Inr ()" "u' = u" "w' = w2"
      using run g Inl c by (simp_all add: CreateOrUpdate_Execute_def split: if_splits)
    then obtain v where "r2 = Inr v" by auto
    moreover have "store w ?t ?n = None" using law(3) [OF Inl x(1)] .
    ultimately show ?thesis using kube_okD_create(2) [OF K c] c oc law(1) x(3,4) by auto
  next
    case (Inr cur)
    obtain p new where pv: "prepareUnstructuredForUpdate U rc cur u = (p, new)" by (rule prod.exhaust)
    have idv: "ident U new = ident U u"
      using default_preparations.prepared(1) [OF U rc(1), of u cur] pv by (simp add: keeps_def)
    obtain r2 w2 where k: "k_Update K ?t new w1 = (r2, w2)" by (rule prod.exhaust)
    obtain need where need: "checkUnstructuredForUpdate U rc cur new = Inr need" and u': "u' = new"
      and out: "if need then (\<exists>v. r2 = Inr v) \<and> w' = w2 else w' = w1"
      using run g Inr pv k
      by (auto simp: CreateOrUpdate_Execute_def UpdateWithCurrent_def split: sum.splits if_splits)
    note n = default_check_settled [OF rc(2) need]
    have "store w ?t ?n = Some cur" using law(2) [OF Inr] .
    moreover have "\<exists>v. k_Update K ?t new w1 = (Inr v, w') \<and> store w' ?t ?n = Some v \<and> ident U v = ident U u"
      if need: need
    proof -
      obtain v where v: "r2 = Inr v" "w' = w2" using out need by auto
      then show ?thesis using kube_okD_update(2) [OF K k v(1)] k idv by (auto dest: ident_eqD)
    qed
    ultimately show ?thesis using oc law(1) out n pv u' by (cases need) auto
  qed
qed

definition served_world :: sworld where
  "served_world = empty_world\<lparr>sw_objs := [((rc_target sample_target, ''web''), sample_service)]\<rparr>"

definition checked_target :: resourceClient where
  "checked_target = sample_target\<lparr>rc_updateChecks := DefaultUpdateChecks (\<lambda>u. Inl ErrNotAJob)\<rparr>"

text \<open>The witness: a service that is there is updated.\<close>

theorem create_or_update_upserts_witness:
  "\<exists>v u' w1 w'. CreateOrUpdate_Execute sample_ulib sample_kube checked_target sample_service served_world =
      (Inr (), u', w') \<and> k_Update sample_kube (rc_target checked_target) u' w1 = (Inr v, w') \<and>
      sw_store w' (rc_target checked_target) ''web'' = Some v"
proof -
  have rc: "rc_updatePreparations checked_target = DefaultUpdatePreparations"
    "rc_updateChecks checked_target = DefaultUpdateChecks (\<lambda>u. Inl ErrNotAJob)"
    by (simp_all add: checked_target_def)
  have t: "rc_target checked_target = rc_target sample_target" by (simp add: checked_target_def)
  obtain u' w' where r: "CreateOrUpdate_Execute sample_ulib sample_kube checked_target sample_service served_world =
      (Inr (), u', w')"
    by (simp add: CreateOrUpdate_Execute_def UpdateWithCurrent_def prepareUnstructuredForUpdate_def rc t
        DefaultUpdatePreparations_def PrepareServiceForUpdate_def PrepareDeploymentForUpdate_def
        checkUnstructuredForUpdate_def DefaultUpdateChecks_def CheckServiceAccountForUpdate_def
        served_world_def sample_eval)
  have n: "getName sample_ulib sample_service = ''web''" by (simp add: sample_eval)
  have s: "sw_store served_world (rc_target sample_target) ''web'' = Some sample_service"
    by (simp add: served_world_def sample_eval)
  have "\<not> settled_account (\<lambda>u. Inl ErrNotAJob) sample_ulib sample_service u'" by (simp add: settled_account_def)
  then show ?thesis
    using create_or_update_upserts [OF sample_ulib_ok sample_kube_ok rc r] r n s t by auto
qed

text \<open>
  CreateIfNotExist never touches an object that exists: whatever it returns, the objects at the
  server are unchanged when there was one of that name; and when it succeeds there is one.
\<close>

theorem create_if_not_exist_creates_only:
  assumes K: "kube_ok U K store"
    and run: "CreateIfNotExist_Execute U K rc u w = (r, u', w')"
  shows "(store w (rc_target rc) (getName U u) \<noteq> None \<longrightarrow> store w' = store w) \<and>
    (r = Inr () \<longrightarrow> store w' (rc_target rc) (getName U u) \<noteq> None) \<and> u' = u"
proof -
  let ?t = "rc_target rc" and ?n = "getName U u"
  obtain g w1 where g: "k_Get K ?t ?n w = (g, w1)" by fastforce
  note law = kube_okD_get [OF K g]
  obtain c w2 where c: "k_Create K ?t u w1 = (c, w2)" by fastforce
  show ?thesis
  proof (cases g)
    case (Inl e)
    show ?thesis
    proof (cases "k_IsNotFound K e")
      case True
      then have "store w ?t ?n = None" using law(3) [OF Inl] by simp
      moreover have "r = drop_result c" "w' = w2" "u' = u"
        using run g Inl c True by (simp_all add: CreateIfNotExist_Execute_def)
      ultimately show ?thesis using kube_okD_create(2) [OF K c] by auto
    qed (use run g Inl law(1) in \<open>auto simp: CreateIfNotExist_Execute_def\<close>)
  next
    case (Inr o')
    then show ?thesis using run g law(1,2) by (auto simp: CreateIfNotExist_Execute_def)
  qed
qed

theorem create_if_not_exist_creates_only_witness:
  "\<exists>r u' w'. CreateIfNotExist_Execute sample_ulib sample_kube sample_target sample_service
       (empty_world\<lparr>sw_objs := [((rc_target sample_target, ''web''), [])]\<rparr>) = (r, u', w') \<and>
     sw_store w' = sw_store (empty_world\<lparr>sw_objs := [((rc_target sample_target, ''web''), [])]\<rparr>)"
proof -
  let ?w = "empty_world\<lparr>sw_objs := [((rc_target sample_target, ''web''), [])]\<rparr>"
  obtain r u' w' where r: "CreateIfNotExist_Execute sample_ulib sample_kube sample_target sample_service ?w =
      (r, u', w')" using prod_cases3 by blast
  have "sw_store ?w (rc_target sample_target) (getName sample_ulib sample_service) \<noteq> None"
    by (simp add: sample_eval)
  then show ?thesis using create_if_not_exist_creates_only [OF sample_kube_ok r] r by blast
qed

text \<open>
  DeleteIfExists treats an absent object as deleted: it fails only with an error of the server
  that does not mean \<open>not found\<close>; on an absent object it changes nothing and fails only in that
  way; and it never touches an object of another name. The request asks for foreground deletion.
\<close>

theorem delete_if_exists_spec:
  assumes K: "kube_ok U K store"
    and run: "DeleteIfExists_Execute U K rc u w = (r, u', w')"
  shows "(\<forall>e. r = Inl e \<longrightarrow> \<not> k_IsNotFound K e \<and>
        k_Delete K (rc_target rc) (getName U u) (Some ''Foreground'') w = (Inl e, w')) \<and>
    (store w (rc_target rc) (getName U u) = None \<and> r = Inr () \<longrightarrow> store w' = store w) \<and>
    only_changes store (rc_target rc) (getName U u) w w' \<and> u' = u"
proof -
  obtain d w1 where d: "k_Delete K (rc_target rc) (getName U u) (Some ''Foreground'') w = (d, w1)"
    by fastforce
  note law = kube_okD_delete [OF K d]
  show ?thesis
  proof (cases d)
    case (Inl e)
    show ?thesis
      using run d Inl law(1) law(3) [OF Inl]
      by (auto simp: DeleteIfExists_Execute_def DeletePropagationForeground_def split: if_splits)
  next
    case (Inr x)
    show ?thesis
      using run d Inr law(1) law(2) [OF Inr]
      by (auto simp: DeleteIfExists_Execute_def DeletePropagationForeground_def)
  qed
qed

theorem delete_if_exists_spec_witness:
  "\<exists>u' w'. DeleteIfExists_Execute sample_ulib sample_kube sample_target sample_service empty_world =
     (Inr (), u', w') \<and> sw_store w' = sw_store empty_world"
proof -
  obtain u' w' where r: "DeleteIfExists_Execute sample_ulib sample_kube sample_target sample_service empty_world =
     (Inr (), u', w')"
    by (simp add: DeleteIfExists_Execute_def sample_eval)
  have "sw_store empty_world (rc_target sample_target) (getName sample_ulib sample_service) = None"
    by (simp add: sample_eval)
  then show ?thesis using delete_if_exists_spec [OF sample_kube_ok r] r by blast
qed

end
