(* ===== verification/Interference.thy ===== *)
theory Interference
  imports Actions
begin

text \<open>
  The actions of rollout/actions.go while others use the API server. CreateOrUpdate and CreateIfNotExist
  send two requests: they read, and then write what the read calls for. Whatever happens at the server
  between the two, be it by another goroutine of a parallel group, by another instance of the program
  or by a user, is an arbitrary change of the world there; what happens before the read and after the
  write needs no place of its own.
\<close>

section \<open>A change between two requests\<close>

definition interrupted :: "('w \<Rightarrow> 'w) \<Rightarrow> 'w kube \<Rightarrow> 'w kube" where
  "interrupted others K =
     K\<lparr>k_Get := (\<lambda>t n w. let (r, w1) = k_Get K t n w in (r, others w1))\<rparr>"

lemma interrupted_sel [simp]:
  "k_Create (interrupted others K) = k_Create K" "k_Update (interrupted others K) = k_Update K"
  "k_IsNotFound (interrupted others K) = k_IsNotFound K"
  by (simp_all add: interrupted_def)


lemma UpdateWithCurrent_interrupted [simp]:
  "UpdateWithCurrent U (interrupted others K) rc cur u w = UpdateWithCurrent U K rc cur u w"
  by (simp add: UpdateWithCurrent_def split: prod.split sum.split)


section \<open>No change is overwritten\<close>











end
