(* ===== verification/Duration.thy ===== *)
theory Duration
  imports Values
begin

text \<open>
  The \<^verbatim>\<open>Duration\<close> of rollout/types/types.go: a \<^verbatim>\<open>time.Duration\<close> (64-bit signed nanoseconds) that is
  decoded from a JSON number or from a string such as \<open>1m30s\<close>. The standard library's
  \<^verbatim>\<open>time.ParseDuration\<close> is modelled; the floating-point product that it computes for digits after
  a decimal point is a parameter, and so is the implementation-dependent result of converting an
  out-of-range float to an integer.
\<close>

section \<open>The type and its order\<close>

datatype duration = Duration (nanoseconds: "64 word")

lemma sint_inject: "sint (a :: 'a::len word) = sint b \<Longrightarrow> a = b"
  by (rule signed_word_eqI)

instantiation duration :: linorder
begin

definition less_eq_duration :: "duration \<Rightarrow> duration \<Rightarrow> bool" where
  "less_eq_duration a b \<longleftrightarrow> sint (nanoseconds a) \<le> sint (nanoseconds b)"

definition less_duration :: "duration \<Rightarrow> duration \<Rightarrow> bool" where
  "less_duration a b \<longleftrightarrow> sint (nanoseconds a) < sint (nanoseconds b)"

instance
  by standard
    (auto simp: less_eq_duration_def less_duration_def intro!: duration.expand sint_inject
      dest: order_antisym)

end

instantiation duration :: zero
begin

definition zero_duration :: duration where
  "zero_duration = Duration 0"

instance ..

end

section \<open>Parsing\<close>

definition is_digit :: "char \<Rightarrow> bool" where
  "is_digit c \<longleftrightarrow> 48 \<le> (of_char c :: nat) \<and> (of_char c :: nat) \<le> 57"

definition digit_val :: "char \<Rightarrow> nat" where
  "digit_val c = of_char c - 48"

text \<open>\<^verbatim>\<open>leadingInt\<close>: the leading digits as a number, or nothing when it exceeds \<open>2 ^ 63\<close>.\<close>

fun leadingInt :: "nat \<Rightarrow> string \<Rightarrow> (nat \<times> string) option" where
  "leadingInt x [] = Some (x, [])"
| "leadingInt x (c # s) =
     (if \<not> is_digit c then Some (x, c # s)
      else if x > 2 ^ 63 div 10 then None
      else (let y = x * 10 + digit_val c in
            if y > 2 ^ 63 then None else leadingInt y s))"

text \<open>
  \<^verbatim>\<open>leadingFraction\<close>: the digits that fit, how many of them were taken (the scale is that power of
  ten), and the rest of the string.
\<close>

fun leadingFraction :: "nat \<Rightarrow> nat \<Rightarrow> bool \<Rightarrow> string \<Rightarrow> nat \<times> nat \<times> string" where
  "leadingFraction x n overflow [] = (x, n, [])"
| "leadingFraction x n overflow (c # s) =
     (if \<not> is_digit c then (x, n, c # s)
      else if overflow then leadingFraction x n True s
      else if x > (2 ^ 63 - 1) div 10 then leadingFraction x n True s
      else (let y = x * 10 + digit_val c in
            if y > 2 ^ 63 then leadingFraction x n True s
            else leadingFraction y (Suc n) False s))"

definition unitMap :: "(string \<times> nat) list" where
  "unitMap =
     [(''ns'', 1), (''us'', 1000),
      ([CHR 0xC2, CHR 0xB5, CHR ''s''], 1000), ([CHR 0xCE, CHR 0xBC, CHR ''s''], 1000),
      (''ms'', 1000000), (''s'', 1000000000), (''m'', 60000000000), (''h'', 3600000000000)]"

definition unit_char :: "char \<Rightarrow> bool" where
  "unit_char c \<longleftrightarrow> \<not> (c = CHR ''.'' \<or> is_digit c)"

text \<open>
  One round of the loop: a number, an optional fraction, a unit. The first parameter is the
  floating-point value of \<open>fraction * unit / 10 ^ digits\<close>, truncated to an integer.
\<close>

definition parse_component :: "(nat \<Rightarrow> nat \<Rightarrow> nat \<Rightarrow> nat) \<Rightarrow> string \<Rightarrow> (nat \<times> string) option" where
  "parse_component frac s =
     (case s of [] \<Rightarrow> None | c # _ \<Rightarrow>
       if \<not> (c = CHR ''.'' \<or> is_digit c) then None
       else case leadingInt 0 s of None \<Rightarrow> None | Some (v, s1) \<Rightarrow>
         let pre = (length s1 \<noteq> length s);
             (f, n, s2, post) =
               (case s1 of
                  [] \<Rightarrow> (0, 0, s1, False)
                | d # s1' \<Rightarrow>
                    (if d = CHR ''.'' then
                       (let (f, n, r) = leadingFraction 0 0 False s1'
                        in (f, n, r, length r \<noteq> length s1'))
                     else (0, 0, s1, False)))
         in if \<not> pre \<and> \<not> post then None
            else let u = takeWhile unit_char s2; s3 = dropWhile unit_char s2 in
              if u = [] then None
              else case map_of unitMap u of None \<Rightarrow> None | Some unit \<Rightarrow>
                if v > 2 ^ 63 div unit then None
                else let v' = v * unit;
                         v'' = (if f > 0 then v' + frac f unit n else v')
                     in if f > 0 \<and> v'' > 2 ^ 63 then None else Some (v'', s3))"

lemma leadingInt_length: "leadingInt x s = Some (y, r) \<Longrightarrow> length r \<le> length s"
  by (induction x s rule: leadingInt.induct) (auto simp: Let_def split: if_splits)

lemma leadingFraction_length: "leadingFraction x n ov s = (y, m, r) \<Longrightarrow> length r \<le> length s"
proof (induction x n ov s rule: leadingFraction.induct)
  case (2 x n ov c s)
  then show ?case by (fastforce simp: Let_def split: if_splits)
qed simp

lemma parse_component_shorter: "parse_component frac s = Some (v, r) \<Longrightarrow> length r < length s"
proof -
  assume a: "parse_component frac s = Some (v, r)"
  show ?thesis
    using a
    by (auto simp: parse_component_def Let_def
        split: list.splits if_splits option.splits prod.splits
        simp: less_Suc_eq_le
        dest!: leadingInt_length leadingFraction_length intro: order_trans [OF length_dropWhile_le])
qed

text \<open>The loop; \<open>d\<close> is the 64-bit sum so far.\<close>

function parse_loop :: "(nat \<Rightarrow> nat \<Rightarrow> nat \<Rightarrow> nat) \<Rightarrow> nat \<Rightarrow> string \<Rightarrow> nat option" where
  "parse_loop frac d s =
     (if s = [] then Some d
      else case parse_component frac s of None \<Rightarrow> None | Some (v, r) \<Rightarrow>
        let d' = (d + v) mod 2 ^ 64 in
        if d' > 2 ^ 63 then None else parse_loop frac d' r)"
  by pat_completeness auto
termination
  by (relation "measure (\<lambda>(f, d, s). length s)") (auto dest: parse_component_shorter)

declare parse_loop.simps [simp del]

definition ParseDuration :: "(nat \<Rightarrow> nat \<Rightarrow> nat \<Rightarrow> nat) \<Rightarrow> string \<Rightarrow> go_error + duration" where
  "ParseDuration frac s =
     (let (neg, r) =
        (case s of [] \<Rightarrow> (False, s)
         | c # s' \<Rightarrow> (if c = CHR ''-'' \<or> c = CHR ''+'' then (c = CHR ''-'', s') else (False, s)))
      in if r = ''0'' then Inr 0
         else if r = [] then Inl InvalidDuration
         else case parse_loop frac 0 r of
             None \<Rightarrow> Inl InvalidDuration
           | Some d \<Rightarrow>
               if neg then Inr (Duration (- of_nat d))
               else if d > 2 ^ 63 - 1 then Inl InvalidDuration
               else Inr (Duration (of_nat d)))"

section \<open>Decoding\<close>

text \<open>
  A float converted to \<^verbatim>\<open>int64\<close>: the integer part of its value when that fits, else whatever the
  processor delivers (\<open>conv\<close>).
\<close>

definition f64_int :: "64 word \<Rightarrow> int" where
  "f64_int x =
     (let e = unat (take_bit 11 (drop_bit 52 x)); m = unat (take_bit 52 x);
          sig = (if e = 0 then m else m + 2 ^ 52); ex = max e 1;
          mag = (if ex \<ge> 1075 then sig * 2 ^ (ex - 1075) else sig div 2 ^ (1075 - ex))
      in if bit x 63 then - int mag else int mag)"

definition f64_finite :: "64 word \<Rightarrow> bool" where
  "f64_finite x \<longleftrightarrow> f64_magnitude x < 0x7FF0000000000000"

definition f64_to_int64 :: "(64 word \<Rightarrow> 64 word) \<Rightarrow> 64 word \<Rightarrow> 64 word" where
  "f64_to_int64 conv x =
     (if f64_finite x \<and> - (2 ^ 63) \<le> f64_int x \<and> f64_int x < 2 ^ 63 then of_int (f64_int x)
      else conv x)"

text \<open>
  \<^verbatim>\<open>Duration.UnmarshalJSON\<close> on the decoded value: a number counts nanoseconds, a string is parsed,
  anything else (null included) is an error.
\<close>

fun UnmarshalJSON ::
  "(64 word \<Rightarrow> 64 word) \<Rightarrow> (nat \<Rightarrow> nat \<Rightarrow> nat \<Rightarrow> nat) \<Rightarrow> gov \<Rightarrow> go_error + duration" where
  "UnmarshalJSON conv frac (VFloat x) = Inr (Duration (f64_to_int64 conv x))"
| "UnmarshalJSON conv frac (VStr s) = ParseDuration frac s"
| "UnmarshalJSON conv frac _ = Inl InvalidDuration"

section \<open>Parsing a whole number of units\<close>

fun show_nat :: "nat \<Rightarrow> string" where
  "show_nat n = (if n < 10 then [char_of (48 + n)] else show_nat (n div 10) @ [char_of (48 + n mod 10)])"

declare show_nat.simps [simp del]

lemma is_digit_char_of: "(d::nat) < 10 \<Longrightarrow> is_digit (char_of (48 + d))"
  by (simp add: is_digit_def of_char_of)

lemma digit_val_char_of: "(d::nat) < 10 \<Longrightarrow> digit_val (char_of (48 + d)) = d"
  by (simp add: digit_val_def of_char_of)

lemma show_nat_not_Nil: "show_nat n \<noteq> []"
  by (subst show_nat.simps) simp

lemma show_nat_digits: "c \<in> set (show_nat n) \<Longrightarrow> is_digit c"
proof (induction n rule: show_nat.induct)
  case (1 n)
  then show ?case
    by (subst (asm) show_nat.simps) (auto simp: is_digit_char_of split: if_splits)
qed

lemma leadingInt_show_nat:
  "n \<le> 2 ^ 63 \<Longrightarrow> leadingInt 0 (show_nat n @ s) = leadingInt n s"
proof (induction n arbitrary: s rule: show_nat.induct)
  case (1 n)
  show ?case
  proof (cases "n < 10")
    case True
    then show ?thesis
      by (subst show_nat.simps) (simp add: is_digit_char_of digit_val_char_of Let_def)
  next
    case False
    have "leadingInt 0 (show_nat n @ s) = leadingInt (n div 10) (char_of (48 + n mod 10) # s)"
      using 1 False by (subst show_nat.simps) simp
    also have "\<dots> = leadingInt n s"
      using "1.prems" is_digit_char_of [of "n mod 10"] digit_val_char_of [of "n mod 10"]
        div_le_mono [OF "1.prems", of 10]
      by (simp add: Let_def linorder_not_less [symmetric])
    finally show ?thesis .
  qed
qed

lemma unitMap_units:
  "map_of unitMap u = Some k \<Longrightarrow> u \<noteq> [] \<and> (\<forall>c \<in> set u. unit_char c) \<and> 0 < k"
  by (auto simp: unitMap_def unit_char_def is_digit_def split: if_splits)

lemma parse_component_whole:
  assumes u: "map_of unitMap u = Some k" and n: "n * k \<le> 2 ^ 63"
  shows "parse_component frac (show_nat n @ u) = Some (n * k, [])"
proof -
  have uc: "u \<noteq> []" "\<forall>c \<in> set u. unit_char c" "0 < k" using unitMap_units [OF u] by auto
  then have n': "n \<le> 2 ^ 63 div k" "n \<le> 2 ^ 63"
    using n order_trans [OF _ n, of n] by (simp_all add: less_eq_div_iff_mult_less_eq)
  obtain c r where cr: "show_nat n = c # r" using show_nat_not_Nil by (cases "show_nat n") auto
  then have c: "is_digit c" using show_nat_digits [of c n] by simp
  obtain d u' where du: "u = d # u'" using uc(1) by (cases u) auto
  then have d: "\<not> is_digit d" "d \<noteq> CHR ''.''" using uc(2) by (auto simp: unit_char_def)
  have "leadingInt 0 (show_nat n @ u) = Some (n, u)"
    using d du by (simp add: leadingInt_show_nat [OF n'(2)])
  moreover have "takeWhile unit_char u' = u'" "dropWhile unit_char u' = []"
    using uc(2) du by simp_all
  note tw = this
  ultimately show ?thesis
    using c cr d du u uc n' by (simp add: parse_component_def Let_def linorder_not_less tw)
qed

end
