(* ===== verification/Rollout_Types.thy ===== *)
theory Rollout_Types
  imports Duration
begin

text \<open>
  The rollout specification of rollout/types/types.go and the result of rendering
  (render/types.go). A pointer field that the code may find nil is an option; an
  \<^verbatim>\<open>interface{}\<close> field is a value, nil included. Elements of slices of pointers are taken to be
  non-nil (the specification has no null entries in its lists).
\<close>

record databaseReportConfig =
  rep_DatabaseName :: string
  rep_Stmt :: string

record reportConfig =
  rep_Database :: "databaseReportConfig option"

record failureDefinition =
  fd_CheckName :: string
  fd_Report :: "reportConfig option"

record fieldComparisonValue =
  fv_Path :: string
  fv_Static :: gov
  fv_StaticInt64 :: "64 word"

record expectedFieldComparisonValue =
  ev_Name :: string
  ev_Path :: string
  ev_Default :: gov
  ev_Value :: "fieldComparisonValue option"

record fieldComparisons =
  fc_ExpectedValues :: "expectedFieldComparisonValue list"
  fc_Timeout :: duration
  fc_ProgressTimeout :: duration
  fc_PollInterval :: duration
  fc_ReportTimeout :: "reportConfig option"
  fc_Failure :: "failureDefinition list"

record successDefinition =
  sd_FieldComparisons :: "fieldComparisons option"
  sd_Failure :: "failureDefinition list"

record step =
  st_Name :: string
  st_Object :: string
  st_Action :: string
  st_Success :: "successDefinition list"
  st_ContinueOnError :: bool

record rolloutGroup =
  gr_Name :: string
  gr_Parallel :: bool
  gr_Steps :: "step list"

record rolloutSpec =
  sp_Parallel :: bool
  sp_Groups :: "rolloutGroup list"

record rollout =
  ro_APIVersion :: string
  ro_Kind :: string
  ro_Metadata :: "string option"
  ro_Spec :: "rolloutSpec option"

text \<open>
  The objects of a result are pointers that the actions change in place; the map is the store
  that the rollout threads through its steps.
\<close>

type_synonym objects = "string \<rightharpoonup> obj"

record render_result =
  rr_Objects :: objects
  rr_Rollout :: "rollout option"

end
