(* ===== verification/Database.thy ===== *)
theory Database
  imports Values
begin

text \<open>
  Database connections: the CockroachDB client (source/crdb/client.go) and the connections read
  from a file (db/config.go). The pgx pool, the transaction runner of \<^verbatim>\<open>crdbpgx\<close> and the Prometheus
  registry are the parameter record \<open>dblib\<close>; the file system is \<open>fslib\<close>, and the YAML decoder an
  argument.
\<close>

section \<open>Libraries\<close>

text \<open>
  A pool is named by the connection string it was made from. \<open>dl_ExecuteTx\<close> runs a closure in a
  transaction (it may run it again when the transaction has to be retried). \<open>dl_Register\<close> registers
  a metric and says whether the name was free; \<open>dl_Observe\<close> records a duration under a label.
\<close>

type_synonym pool = string

record 'w dblib =
  dl_ParseConfig :: "string \<Rightarrow> go_error + unit"
  dl_ConnectConfig :: "string \<Rightarrow> ('w, pool) eff"
  dl_Register :: "string \<Rightarrow> 'w \<Rightarrow> bool \<times> 'w"
  dl_Observe :: "pool \<Rightarrow> string \<Rightarrow> 'w \<Rightarrow> 'w"
  dl_ExecuteTx :: "pool \<Rightarrow> ('w, unit) io \<Rightarrow> ('w, unit) io"
  dl_Exec :: "pool \<Rightarrow> string \<Rightarrow> ('w, unit) eff"
  dl_Close :: "pool \<Rightarrow> 'w \<Rightarrow> 'w"

record 'w fslib =
  fs_ReadFile :: "string \<Rightarrow> ('w, string) eff"

section \<open>The CockroachDB client\<close>

text \<open>
  \<^verbatim>\<open>promauto\<close> panics when the registry already has a metric of that name. The client is its pool;
  its histogram is the one registered here.
\<close>

definition txDurationName :: string where
  "txDurationName = ''database_transaction_duration_seconds''"

definition crdb_NewClient :: "'w dblib \<Rightarrow> string \<Rightarrow> ('w, pool) io" where
  "crdb_NewClient D connString w =
     (case dl_ParseConfig D connString of
        Inl e \<Rightarrow> (Err (ParseDBString e), w)
      | Inr _ \<Rightarrow>
          (case dl_ConnectConfig D connString w of
             (Inl e, w1) \<Rightarrow> (Err (CreateConnectionPool e), w1)
           | (Inr p, w1) \<Rightarrow>
               (let (free, w2) = dl_Register D txDurationName w1 in
                if free then (Ok p, w2) else (Panic DuplicateRegistration, w2))))"

definition crdb_Close :: "'w dblib \<Rightarrow> pool \<Rightarrow> 'w \<Rightarrow> 'w" where
  "crdb_Close D p w = dl_Close D p w"

definition crdb_ExecuteTx :: "'w dblib \<Rightarrow> pool \<Rightarrow> ('w, unit) io \<Rightarrow> ('w, unit) io" where
  "crdb_ExecuteTx D p txFunc w =
     (let (r, w1) = dl_ExecuteTx D p txFunc w in
      case r of
        Ok _ \<Rightarrow> (r, dl_Observe D p ''success'' w1)
      | Err e \<Rightarrow> (r, dl_Observe D p ''error'' w1)
      | _ \<Rightarrow> (r, w1))"

section \<open>Connections\<close>

definition TypeCockroachDB :: string where
  "TypeCockroachDB = ''cockroachdb''"

record connectionConfig =
  cc_Name :: string
  cc_Type :: string
  cc_CockroachDB :: "string option"  \<comment> \<open>the connection string of the nested block, when present\<close>

record connection =
  cn_Type :: string
  cn_CockroachClient :: pool

type_synonym connections = "string \<rightharpoonup> connection"

fun check_names :: "string list \<Rightarrow> connectionConfig list \<Rightarrow> go_error + unit" where
  "check_names names [] = Inr ()"
| "check_names names (c # cs) =
     (if cc_Name c \<in> set names then Inl (DuplicateConnectionName (cc_Name c))
      else check_names (cc_Name c # names) cs)"

text \<open>The connection string: the block's, else the content of the default file when one is given.\<close>

definition resolve_conn_string ::
  "'w fslib \<Rightarrow> string \<Rightarrow> connectionConfig \<Rightarrow> ('w, string) io" where
  "resolve_conn_string F defaultDatabaseUrlFile c w =
     (let connString = (case cc_CockroachDB c of None \<Rightarrow> '''' | Some s \<Rightarrow> s) in
      if connString = '''' \<and> defaultDatabaseUrlFile \<noteq> '''' then
        (case fs_ReadFile F defaultDatabaseUrlFile w of
           (Inl e, w1) \<Rightarrow> (Err (ReadDefaultUrlFile e), w1)
         | (Inr s, w1) \<Rightarrow> (Ok s, w1))
      else (Ok connString, w))"

fun connect_all ::
  "'w dblib \<Rightarrow> 'w fslib \<Rightarrow> string \<Rightarrow> connectionConfig list \<Rightarrow> connections \<Rightarrow> ('w, connections) io" where
  "connect_all D F dflt [] conns w = (Ok conns, w)"
| "connect_all D F dflt (c # cs) conns w =
     (if cc_Type c = TypeCockroachDB then
        andThen (resolve_conn_string F dflt c w) (\<lambda>connString w1.
        andThen (on_err CreateCockroachClient (crdb_NewClient D connString w1)) (\<lambda>p w2.
          connect_all D F dflt cs
            (conns(cc_Name c \<mapsto> \<lparr>cn_Type = cc_Type c, cn_CockroachClient = p\<rparr>)) w2))
      else (Err (UnknownConnectionType (cc_Type c)), w))"

definition FromFile ::
  "'w dblib \<Rightarrow> 'w fslib \<Rightarrow> (string \<Rightarrow> go_error + connectionConfig list) \<Rightarrow>
     string \<Rightarrow> string \<Rightarrow> ('w, connections) io" where
  "FromFile D F decode file defaultDatabaseUrlFile w =
     (case fs_ReadFile F file w of
        (Inl e, w1) \<Rightarrow> (Err (OpenConfigFile e), w1)
      | (Inr content, w1) \<Rightarrow>
          (case decode content of
             Inl e \<Rightarrow> (Err (ParseConfigFile e), w1)
           | Inr config \<Rightarrow>
               (case check_names [] config of
                  Inl e \<Rightarrow> (Err e, w1)
                | Inr _ \<Rightarrow> connect_all D F defaultDatabaseUrlFile config Map.empty w1)))"

section \<open>Properties\<close>

lemma check_names_Inr: "check_names names cs = Inr () \<longleftrightarrow>
    distinct (map cc_Name cs) \<and> set names \<inter> cc_Name ` set cs = {}"
  by (induction names cs rule: check_names.induct) auto

declare connect_all.simps(2) [simp del]

lemma connect_all_ConsE:
  assumes "connect_all D F dflt (c # cs) conns w = (Ok conns', w')"
  obtains s w1 p w2 where "cc_Type c = TypeCockroachDB"
    "resolve_conn_string F dflt c w = (Ok s, w1)" "crdb_NewClient D s w1 = (Ok p, w2)"
    "connect_all D F dflt cs (conns(cc_Name c \<mapsto> \<lparr>cn_Type = cc_Type c, cn_CockroachClient = p\<rparr>)) w2
      = (Ok conns', w')"
  using assms by (auto simp: connect_all.simps(2) andThen_Ok_iff split: if_splits)

lemma connect_all_Ok:
  assumes "connect_all D F dflt cs conns w = (Ok conns', w')"
  shows "dom conns' = dom conns \<union> cc_Name ` set cs \<and>
    (\<forall>c \<in> set cs. cc_Type c = TypeCockroachDB) \<and>
    (\<forall>n cn. conns' n = Some cn \<longrightarrow> conns n = Some cn \<or> cn_Type cn = TypeCockroachDB)"
  using assms
proof (induction cs arbitrary: conns w)
  case (Cons c cs)
  from Cons.prems obtain p w1 where t: "cc_Type c = TypeCockroachDB"
    and r: "connect_all D F dflt cs (conns(cc_Name c \<mapsto> \<lparr>cn_Type = cc_Type c, cn_CockroachClient = p\<rparr>)) w1
      = (Ok conns', w')"
    by (rule connect_all_ConsE)
  note IH = Cons.IH [OF r]
  have "dom conns' = dom conns \<union> cc_Name ` set (c # cs)" using IH by auto
  moreover have "\<forall>c' \<in> set (c # cs). cc_Type c' = TypeCockroachDB" using IH t by simp
  moreover have "conns n = Some cn \<or> cn_Type cn = TypeCockroachDB" if "conns' n = Some cn" for n cn
    using conjunct2 [OF conjunct2 [OF IH], rule_format, OF that] t by (auto split: if_splits)
  ultimately show ?case by blast
qed simp

text \<open>
  What the Prometheus registry promises of the name of the client's histogram: once it has been
  registered, registering it again fails; and the other calls do not free the name.
\<close>

definition registry_ok :: "'w dblib \<Rightarrow> 'w fslib \<Rightarrow> ('w \<Rightarrow> bool) \<Rightarrow> bool" where
  "registry_ok D F taken \<longleftrightarrow>
     (\<forall>w. fst (dl_Register D txDurationName w) = (\<not> taken w) \<and>
          taken (snd (dl_Register D txDurationName w))) \<and>
     (\<forall>s w. taken w \<longrightarrow> taken (snd (dl_ConnectConfig D s w))) \<and>
     (\<forall>f w. taken w \<longrightarrow> taken (snd (fs_ReadFile F f w)))"

lemma NewClient_taken:
  assumes "registry_ok D F taken" "taken w"
  shows "\<not> is_Ok (fst (crdb_NewClient D s w))"
proof -
  obtain r w1 where c: "dl_ConnectConfig D s w = (r, w1)" by fastforce
  have "taken w1" using assms c by (auto simp: registry_ok_def dest!: spec [of _ s] spec [of _ w])
  then have "\<not> fst (dl_Register D txDurationName w1)" using assms(1) by (auto simp: registry_ok_def)
  then show ?thesis
    using c by (auto simp: crdb_NewClient_def split: sum.splits prod.splits)
qed

lemma NewClient_takes:
  assumes "registry_ok D F taken" "crdb_NewClient D s w = (Ok p, w')"
  shows "taken w'"
proof -
  obtain r w1 where c: "dl_ConnectConfig D s w = (r, w1)" by fastforce
  then have "w' = snd (dl_Register D txDurationName w1)"
    using assms(2) by (auto simp: crdb_NewClient_def split: sum.splits prod.splits if_splits)
  then show ?thesis using assms(1) by (simp add: registry_ok_def)
qed

text \<open>
  A concrete library for the witnesses: the world says whether the histogram is registered, every
  connection string works, a transaction runs its closure once, and a file's content is its name.
\<close>

definition sample_dblib :: "bool dblib" where
  "sample_dblib =
     \<lparr>dl_ParseConfig = (\<lambda>s. Inr ()), dl_ConnectConfig = (\<lambda>s w. (Inr s, w)),
      dl_Register = (\<lambda>n w. (\<not> w, True)), dl_Observe = (\<lambda>p l w. w),
      dl_ExecuteTx = (\<lambda>p f w. f w), dl_Exec = (\<lambda>p s w. (Inr (), w)),
      dl_Close = (\<lambda>p w. w)\<rparr>"

definition sample_fslib :: "bool fslib" where
  "sample_fslib = \<lparr>fs_ReadFile = (\<lambda>f w. (Inr f, w))\<rparr>"

lemma sample_registry_ok: "registry_ok sample_dblib sample_fslib (\<lambda>w. w)"
  by (simp add: registry_ok_def sample_dblib_def sample_fslib_def)

definition sample_conn :: "string \<Rightarrow> connectionConfig" where
  "sample_conn n = \<lparr>cc_Name = n, cc_Type = ''cockroachdb'', cc_CockroachDB = None\<rparr>"

text \<open>
  When the connections are read successfully, the names in the file are pairwise distinct, every
  connection is a CockroachDB connection, and the connections are exactly those the file names.
\<close>

theorem from_file_connections:
  assumes "FromFile D F decode file dflt w = (Ok conns, w')"
  shows "\<exists>content w1 config. fs_ReadFile F file w = (Inr content, w1) \<and> decode content = Inr config \<and>
    distinct (map cc_Name config) \<and> dom conns = cc_Name ` set config \<and>
    (\<forall>c \<in> set config. cc_Type c = TypeCockroachDB) \<and>
    (\<forall>n cn. conns n = Some cn \<longrightarrow> cn_Type cn = TypeCockroachDB)"
proof -
  obtain content w1 config where f: "fs_ReadFile F file w = (Inr content, w1)" "decode content = Inr config"
    "check_names [] config = Inr ()" "connect_all D F dflt config Map.empty w1 = (Ok conns, w')"
    using assms by (auto simp: FromFile_def split: prod.splits sum.splits)
  then show ?thesis using connect_all_Ok [OF f(4)] by (auto simp: check_names_Inr)
qed

theorem from_file_connections_witness:
  "\<exists>conns w'. FromFile sample_dblib sample_fslib (\<lambda>s. Inr [sample_conn ''main'']) ''f'' ''url'' False =
     (Ok conns, w') \<and> dom conns = {''main''}"
proof -
  obtain conns w' where r: "FromFile sample_dblib sample_fslib (\<lambda>s. Inr [sample_conn ''main'']) ''f'' ''url'' False
      = (Ok conns, w')"
    by (simp add: FromFile_def sample_dblib_def sample_fslib_def sample_conn_def TypeCockroachDB_def
        connect_all.simps resolve_conn_string_def crdb_NewClient_def)
  show ?thesis using from_file_connections [OF r] r by (auto simp: sample_conn_def)
qed

text \<open>
  Two CockroachDB connections cannot be configured: each new client registers a histogram of
  the same name with the same registry, so reading a file with two or more connections never
  succeeds.
\<close>

theorem two_connections_never_succeed:
  assumes R: "registry_ok D F taken"
    and two: "decode content = Inr (c1 # c2 # cs)" and f: "fs_ReadFile F file w = (Inr content, w1)"
  shows "\<not> is_Ok (fst (FromFile D F decode file dflt w))"
proof
  assume "is_Ok (fst (FromFile D F decode file dflt w))"
  then obtain conns w' where "FromFile D F decode file dflt w = (Ok conns, w')"
    by (metis is_Ok_iff prod.collapse)
  then have "connect_all D F dflt (c1 # c2 # cs) Map.empty w1 = (Ok conns, w')"
    using two f by (simp add: FromFile_def del: connect_all.simps check_names.simps split: sum.splits)
  then obtain s p w2 w3 m where n1: "crdb_NewClient D s w2 = (Ok p, w3)"
    and n2: "connect_all D F dflt (c2 # cs) m w3 = (Ok conns, w')"
    by (rule connect_all_ConsE) blast
  have t3: "taken w3" by (rule NewClient_takes [OF R n1])
  from n2 obtain s2 w4 p2 w5 where r2: "resolve_conn_string F dflt c2 w3 = (Ok s2, w4)"
    and c2: "crdb_NewClient D s2 w4 = (Ok p2, w5)"
    by (rule connect_all_ConsE)
  have "taken w4"
    using r2 t3 R by (auto simp: resolve_conn_string_def registry_ok_def Let_def
        split: if_splits option.splits prod.splits sum.splits) (metis snd_conv)+
  then show False using NewClient_taken [OF R, of w4 s2] c2 by simp
qed

theorem two_connections_never_succeed_witness:
  "\<not> is_Ok (fst (FromFile sample_dblib sample_fslib
     (\<lambda>s. Inr [sample_conn ''a'', sample_conn ''b'']) ''f'' ''url'' False))"
  by (rule two_connections_never_succeed [OF sample_registry_ok, where content = "''f''" and cs = "[]" and ?w1.0 = False])
    (simp_all add: sample_fslib_def)

end
