(* ===== verification/Checks.thy ===== *)
theory Checks
  imports Rollout_Types Client Database
begin

text \<open>
  The success checks of rollout/checks: the check interface and the registry of known checks
  (checks.go), the failure check for jobs killed for lack of memory (job\_oom.go), and the runner
  of one success definition (success\_check.go). JSONPath, polling and the order in which Go ranges
  over a map are parameters.
\<close>

section \<open>Libraries\<close>

text \<open>
  \<open>jp_Parse\<close> says whether a template parses (the parsed path is named by its template);
  \<open>jp_FindResults\<close> gives the results, one list per expression, and the error; \<open>jp_ErrText\<close> is the
  text of an error. \<open>rt_RangeOrder\<close> is the order in which the runtime visits the keys of a map,
  which may differ each time. \<open>rt_Poll\<close> is \<^verbatim>\<open>wait.Poll\<close>: interval, timeout, condition.
\<close>

record jplib =
  jp_Parse :: "string \<Rightarrow> go_error option"
  jp_FindResults :: "string \<Rightarrow> obj \<Rightarrow> gov list list \<times> go_error option"
  jp_ErrText :: "go_error \<Rightarrow> string"

record 'w rt =
  rt_RangeOrder :: "'w \<Rightarrow> string list \<Rightarrow> string list"
  rt_Poll :: "duration \<Rightarrow> duration \<Rightarrow> ('w, bool) io \<Rightarrow> ('w, unit) io"
  rt_ErrWaitTimeout :: go_error

text \<open>
  The documented behaviour of \<^verbatim>\<open>wait.Poll\<close>: the condition is tried at least once, and again until it
  is true or fails; when the time is over after an unsuccessful try, the result is the timeout
  error. \<open>poll_n\<close> is a run of at most that many tries. How many tries the time allows is not
  known, and a poll without timeout can go on for ever. An interval that is not positive panics in
  the ticker.
\<close>

fun poll_n :: "go_error \<Rightarrow> nat \<Rightarrow> ('w, bool) io \<Rightarrow> ('w, unit) io" where
  "poll_n timeout 0 cond w = (Err timeout, w)"
| "poll_n timeout (Suc n) cond w =
     andThen (cond w) (\<lambda>done w1. if done then (Ok (), w1) else poll_n timeout n cond w1)"

definition poll_law :: "'w rt \<Rightarrow> bool" where
  "poll_law R \<longleftrightarrow>
     (\<forall>i t cond w. fst (rt_Poll R i t cond w) = Diverge \<or>
        i \<le> 0 \<and> fst (rt_Poll R i t cond w) = Panic NonPositiveTicker \<or>
        (\<exists>n. rt_Poll R i t cond w = poll_n (rt_ErrWaitTimeout R) (Suc n) cond w))"

definition range_law :: "'w rt \<Rightarrow> bool" where
  "range_law R \<longleftrightarrow> (\<forall>w ks. mset (rt_RangeOrder R w ks) = mset ks)"

section \<open>Known checks\<close>

record 'w check =
  ck_Name :: string
  ck_Execute :: "obj \<Rightarrow> ('w, unit) eff"
  ck_IsFailedError :: "go_error \<Rightarrow> bool"

text \<open>The check of jobs: the first container found terminated for lack of memory fails it.\<close>

fun oom_status :: "containerStatus list \<Rightarrow> bool" where
  "oom_status [] = False"
| "oom_status (c # cs) = (if cs_Terminated c = Some ''OOMKilled'' then True else oom_status cs)"

fun oom_pods :: "pod list \<Rightarrow> go_error + unit" where
  "oom_pods [] = Inr ()"
| "oom_pods (p # ps) =
     (if oom_status (pod_ContainerStatuses p)
      then Inl (PodOOMKilled (pod_Namespace p) (pod_Name p) ErrOOMKilled)
      else oom_pods ps)"

definition JobOOMKilled_Execute :: "ulib \<Rightarrow> 'w kube \<Rightarrow> obj \<Rightarrow> ('w, unit) eff" where
  "JobOOMKilled_Execute U K u w =
     (if getKind U u \<noteq> ''Job'' then (Inl ErrNotAJob, w)
      else (case k_ListPods K (getNamespace U u) (''job-name='' @ getName U u) w of
              (Inl e, w1) \<Rightarrow> (Inl (ListingPods e), w1)
            | (Inr ps, w1) \<Rightarrow> (oom_pods ps, w1)))"

definition JobOOMKilled_IsFailedError :: "go_error \<Rightarrow> bool" where
  "JobOOMKilled_IsFailedError err = errors_Is err ErrOOMKilled"

definition JobOOMKilledCheck :: "ulib \<Rightarrow> 'w kube \<Rightarrow> 'w check" where
  "JobOOMKilledCheck U K =
     \<lparr>ck_Name = ''JobOOMKilled'', ck_Execute = JobOOMKilled_Execute U K,
      ck_IsFailedError = JobOOMKilled_IsFailedError\<rparr>"

definition DefaultChecks :: "ulib \<Rightarrow> 'w kube \<Rightarrow> 'w check list" where
  "DefaultChecks U K = [JobOOMKilledCheck U K]"

text \<open>
  The checks and what they need of the program. The connections are absent (a nil pointer) when no
  connections file was configured.
\<close>

record 'w checks =
  cks_client :: client
  cks_databaseConnections :: "connections option"
  cks_knownChecks :: "string \<rightharpoonup> 'w check"

fun register_checks :: "(string \<rightharpoonup> 'w check) \<Rightarrow> 'w check list \<Rightarrow> go_error + (string \<rightharpoonup> 'w check)" where
  "register_checks known [] = Inr known"
| "register_checks known (c # cs) =
     (case known (ck_Name c) of
        Some _ \<Rightarrow> Inl (DuplicateCheck (ck_Name c))
      | None \<Rightarrow> register_checks (known(ck_Name c \<mapsto> c)) cs)"

definition NewChecks :: "client \<Rightarrow> connections option \<Rightarrow> 'w check list \<Rightarrow> go_error + 'w checks" where
  "NewChecks cl conns cs =
     (case register_checks Map.empty cs of
        Inl e \<Rightarrow> Inl e
      | Inr known \<Rightarrow>
          Inr \<lparr>cks_client = cl, cks_databaseConnections = conns, cks_knownChecks = known\<rparr>)"

section \<open>Paths\<close>

record jsonPath =
  jsonpath :: string
  defaultValue :: gov

type_synonym paths = "(string \<times> jsonPath) list"

definition has_suffix :: "string \<Rightarrow> string \<Rightarrow> bool" where
  "has_suffix s suf \<longleftrightarrow> length suf \<le> length s \<and> drop (length s - length suf) s = suf"

definition findResult :: "jplib \<Rightarrow> jsonPath \<Rightarrow> obj \<Rightarrow> go_error + gov" where
  "findResult J j data =
     (let (jsonPathResult, err) = jp_FindResults J (jsonpath j) data;
          result =
            (if length jsonPathResult = 1 \<and> length (jsonPathResult ! 0) = 1
             then Inr (jsonPathResult ! 0 ! 0)
             else if jsonPathResult = [] \<and> defaultValue j \<noteq> VNil then Inr (defaultValue j)
             else Inl ExpectedOneResult)
      in case err of
           Some e \<Rightarrow> (if \<not> has_suffix (jp_ErrText J e) '' is not found'' then Inl e else result)
         | None \<Rightarrow> result)"

text \<open>
  \<^verbatim>\<open>NewCheckRunner\<close> parses the path of every expected value, and the path of the value it is
  compared with when that is a path. A later entry for the same path replaces an earlier one.
\<close>

fun collect_paths :: "jplib \<Rightarrow> expectedFieldComparisonValue list \<Rightarrow> paths \<Rightarrow> go_error + paths" where
  "collect_paths J [] paths = Inr paths"
| "collect_paths J (ev # evs) paths =
     (case jp_Parse J (ev_Path ev) of
        Some e \<Rightarrow> Inl e
      | None \<Rightarrow>
          (let paths1 = AList.update (ev_Path ev)
             \<lparr>jsonpath = ev_Path ev, defaultValue = ev_Default ev\<rparr> paths in
           case ev_Value ev of
             None \<Rightarrow> collect_paths J evs paths1
           | Some v \<Rightarrow>
               (if fv_Path v \<noteq> '''' then
                  (case jp_Parse J (fv_Path v) of
                     Some e \<Rightarrow> Inl e
                   | None \<Rightarrow> collect_paths J evs
                       (AList.update (fv_Path v) \<lparr>jsonpath = fv_Path v, defaultValue = VNil\<rparr> paths1))
                else collect_paths J evs paths1)))"

record 'w checkRunner =
  cr_client :: client
  cr_def :: successDefinition
  cr_comparisons :: fieldComparisons  \<comment> \<open>\<^verbatim>\<open>def.FieldComparisons\<close>, which is not nil once the runner exists\<close>
  cr_paths :: paths
  cr_databaseConnections :: "connections option"
  cr_knownChecks :: "string \<rightharpoonup> 'w check"

definition NewCheckRunner ::
  "jplib \<Rightarrow> client \<Rightarrow> successDefinition \<Rightarrow> connections option \<Rightarrow> (string \<rightharpoonup> 'w check) \<Rightarrow>
     'w checkRunner outcome" where
  "NewCheckRunner J cl def conns known =
     (case sd_FieldComparisons def of
        None \<Rightarrow> Panic NilDereference
      | Some fc \<Rightarrow>
          (case collect_paths J (fc_ExpectedValues fc) [] of
             Inl e \<Rightarrow> Err e
           | Inr paths \<Rightarrow>
               Ok \<lparr>cr_client = cl, cr_def = def, cr_comparisons = fc, cr_paths = paths,
                   cr_databaseConnections = conns, cr_knownChecks = known\<rparr>))"

section \<open>Comparing fields\<close>

fun find_all :: "jplib \<Rightarrow> paths \<Rightarrow> obj \<Rightarrow> string list \<Rightarrow> (string \<times> gov) list \<Rightarrow> go_error + (string \<times> gov) list" where
  "find_all J paths data [] res = Inr res"
| "find_all J paths data (k # ks) res =
     (case map_of paths k of
        None \<Rightarrow> find_all J paths data ks res
      | Some p \<Rightarrow>
          (case findResult J p data of
             Inl e \<Rightarrow> Inl e
           | Inr v \<Rightarrow> find_all J paths data ks (AList.update k v res)))"

definition currentValues ::
  "'w kube \<Rightarrow> jplib \<Rightarrow> 'w rt \<Rightarrow> 'w checkRunner \<Rightarrow> resourceClient \<Rightarrow> string \<Rightarrow>
     ('w, (string \<times> gov) list) io" where
  "currentValues K J R c rc name w =
     (case k_Get K (rc_target rc) name w of
        (Inl e, w1) \<Rightarrow> (Err e, w1)
      | (Inr u, w1) \<Rightarrow>
          (of_sum (find_all J (cr_paths c) u (rt_RangeOrder R w1 (map fst (cr_paths c))) []), w1))"

text \<open>The value of a key that is absent from a Go map of interfaces is nil.\<close>

definition val_at :: "(string \<times> gov) list \<Rightarrow> string \<Rightarrow> gov" where
  "val_at m k = (case map_of m k of None \<Rightarrow> VNil | Some v \<Rightarrow> v)"

record checkReport =
  cr_CheckName :: string
  cr_Succeeded :: bool  \<comment> \<open>which of the two messages the report carries\<close>

definition checkFieldComparison ::
  "expectedFieldComparisonValue \<Rightarrow> (string \<times> gov) list \<Rightarrow> (bool \<times> checkReport) outcome" where
  "checkFieldComparison expectedValue values =
     (let v = val_at values (ev_Path expectedValue) in
      case ev_Value expectedValue of
        None \<Rightarrow> Panic NilDereference
      | Some ex \<Rightarrow>
          (let expected =
                 (if fv_Path ex \<noteq> '''' then val_at values (fv_Path ex)
                  else if fv_Static ex = VNil then VInt (fv_StaticInt64 ex)
                  else fv_Static ex);
               eq = deep_equal v expected
           in Ok (eq, \<lparr>cr_CheckName = ev_Name expectedValue, cr_Succeeded = eq\<rparr>)))"

fun check_all ::
  "expectedFieldComparisonValue list \<Rightarrow> (string \<times> gov) list \<Rightarrow> bool \<Rightarrow> checkReport list \<Rightarrow>
     (bool \<times> checkReport list) outcome" where
  "check_all [] values success reports = Ok (success, reports)"
| "check_all (ev # evs) values success reports =
     (case checkFieldComparison ev values of
        Ok (succeeded, report) \<Rightarrow>
          check_all evs values (if \<not> succeeded then False else success) (reports @ [report])
      | Err e \<Rightarrow> Err e | Panic p \<Rightarrow> Panic p | Diverge \<Rightarrow> Diverge)"

definition checkComparisons ::
  "'w checkRunner \<Rightarrow> (string \<times> gov) list \<Rightarrow> (bool \<times> checkReport list) outcome" where
  "checkComparisons c values = check_all (fc_ExpectedValues (cr_comparisons c)) values True []"

section \<open>Failure checks and reports\<close>

definition reportDatabase :: "'w dblib \<Rightarrow> 'w checkRunner \<Rightarrow> databaseReportConfig \<Rightarrow> ('w, unit) io" where
  "reportDatabase D c report w =
     (case cr_databaseConnections c of
        None \<Rightarrow> (Panic NilDereference, w)
      | Some conns \<Rightarrow>
          (case conns (rep_DatabaseName report) of
             None \<Rightarrow> (Err (DatabaseConnectionNotFound (rep_DatabaseName report)), w)
           | Some conn \<Rightarrow>
               (if cn_Type conn = TypeCockroachDB then
                  crdb_ExecuteTx D (cn_CockroachClient conn)
                    (\<lambda>w. lib (dl_Exec D (cn_CockroachClient conn) (rep_Stmt report) w)) w
                else (Err (DatabaseTypeNotSupported (cn_Type conn)), w))))"

definition report :: "'w dblib \<Rightarrow> 'w checkRunner \<Rightarrow> reportConfig \<Rightarrow> ('w, unit) io" where
  "report D c r w =
     (case rep_Database r of
        Some d \<Rightarrow> reportDatabase D c d w
      | None \<Rightarrow> (Err NoReportingConfigured, w))"

text \<open>The report of a timeout is called only when one is configured.\<close>

definition reportTimeout :: "'w dblib \<Rightarrow> 'w checkRunner \<Rightarrow> ('w, unit) io" where
  "reportTimeout D c w =
     (case fc_ReportTimeout (cr_comparisons c) of
        None \<Rightarrow> (Panic NilDereference, w)
      | Some r \<Rightarrow> report D c r w)"

fun run_failure_checks ::
  "'w dblib \<Rightarrow> 'w checkRunner \<Rightarrow> failureDefinition list \<Rightarrow> obj \<Rightarrow> ('w, unit) io" where
  "run_failure_checks D c [] u w = (Ok (), w)"
| "run_failure_checks D c (fd # fds) u w =
     (case cr_knownChecks c (fd_CheckName fd) of
        None \<Rightarrow> (Err (UnknownFailureCheck (fd_CheckName fd)), w)
      | Some ck \<Rightarrow>
          (case ck_Execute ck u w of
             (Inr _, w1) \<Rightarrow> run_failure_checks D c fds u w1
           | (Inl err, w1) \<Rightarrow>
               (case fd_Report fd of
                  Some r \<Rightarrow>
                    (if ck_IsFailedError ck err
                     then on_err FailedToReportFailure (report D c r w1)
                     else (Err (RunFailedCheck (fd_CheckName fd) err), w1))
                | None \<Rightarrow> (Err (RunFailedCheck (fd_CheckName fd) err), w1))))"

definition checkFailed :: "'w dblib \<Rightarrow> 'w checkRunner \<Rightarrow> obj \<Rightarrow> ('w, unit) io" where
  "checkFailed D c u w = run_failure_checks D c (sd_Failure (cr_def c)) u w"

section \<open>Running a success definition\<close>

text \<open>
  The condition of the inner poll. The comparisons are made on the values read by the outer
  poll, as in the code; the values read here decide only whether something has changed.
\<close>

definition inner_condition ::
  "'w kube \<Rightarrow> jplib \<Rightarrow> 'w rt \<Rightarrow> 'w dblib \<Rightarrow> 'w checkRunner \<Rightarrow> resourceClient \<Rightarrow> obj \<Rightarrow> string \<Rightarrow>
     (string \<times> gov) list \<Rightarrow> ('w, bool) io" where
  "inner_condition K J R D c rc u name outerValues w =
     andThen (on_err ExtractUpdatedStatus (currentValues K J R c rc name w)) (\<lambda>innerValues w1.
       let hasChanged = (\<not> deep_equal (VObj outerValues) (VObj innerValues)) in
       andThen (checkComparisons c outerValues, w1) (\<lambda>(success, checkReports) w2.
         if success then (Ok True, w2)
         else andThen (on_err CheckIfRolloutFailed (checkFailed D c u w2)) (\<lambda>_ w3.
           (Ok hasChanged, w3))))"

definition outer_condition ::
  "'w kube \<Rightarrow> jplib \<Rightarrow> 'w rt \<Rightarrow> 'w dblib \<Rightarrow> 'w checkRunner \<Rightarrow> resourceClient \<Rightarrow> obj \<Rightarrow> string \<Rightarrow>
     ('w, bool) io" where
  "outer_condition K J R D c rc u name w =
     andThen (on_err ExtractPeriodicStatus (currentValues K J R c rc name w)) (\<lambda>outerValues w1.
       andThen (checkComparisons c outerValues, w1) (\<lambda>(success, checkReports) w2.
         if success then (Ok True, w2)
         else andThen (on_err CheckIfRolloutFailed (checkFailed D c u w2)) (\<lambda>_ w3.
           andThen (rt_Poll R (fc_PollInterval (cr_comparisons c)) (fc_ProgressTimeout (cr_comparisons c))
               (inner_condition K J R D c rc u name outerValues) w3) (\<lambda>_ w4.
             (Ok False, w4)))))"

definition CheckRunner_Execute ::
  "ulib \<Rightarrow> 'w kube \<Rightarrow> jplib \<Rightarrow> 'w rt \<Rightarrow> 'w dblib \<Rightarrow> 'w checkRunner \<Rightarrow> obj \<Rightarrow> ('w, unit) io" where
  "CheckRunner_Execute U K J R D c u w =
     andThen (on_err ClientForUnstructuredFailed (lib (ClientForUnstructured U K (cr_client c) u w))) (\<lambda>rc w1.
       let (r, w2) = rt_Poll R (fc_PollInterval (cr_comparisons c)) (fc_Timeout (cr_comparisons c))
              (outer_condition K J R D c rc u (getName U u)) w1
       in (if r = Err (rt_ErrWaitTimeout R) \<and> fc_ReportTimeout (cr_comparisons c) \<noteq> None
           then reportTimeout D c w2
           else (r, w2)))"

definition runCheck ::
  "ulib \<Rightarrow> 'w kube \<Rightarrow> jplib \<Rightarrow> 'w rt \<Rightarrow> 'w dblib \<Rightarrow> 'w checks \<Rightarrow> successDefinition \<Rightarrow> obj \<Rightarrow>
     ('w, unit) io" where
  "runCheck U K J R D cs def u w =
     andThen (NewCheckRunner J (cks_client cs) def (cks_databaseConnections cs) (cks_knownChecks cs), w)
       (\<lambda>sc w1. CheckRunner_Execute U K J R D sc u w1)"

fun RunChecks ::
  "ulib \<Rightarrow> 'w kube \<Rightarrow> jplib \<Rightarrow> 'w rt \<Rightarrow> 'w dblib \<Rightarrow> 'w checks \<Rightarrow> successDefinition list \<Rightarrow> obj \<Rightarrow>
     ('w, unit) io" where
  "RunChecks U K J R D cs [] u w = (Ok (), w)"
| "RunChecks U K J R D cs (d # ds) u w =
     andThen (runCheck U K J R D cs d u w) (\<lambda>_ w1. RunChecks U K J R D cs ds u w1)"

end
