(* ===== verification/Checks_Props.thy ===== *)
theory Checks_Props
  imports Checks Cluster
begin

text \<open>
  Properties of the success checks: what a comparison decides, what a successful run of a success
  definition means, how failure checks are reported, and that the result does not depend on the
  order in which Go ranges over the map of paths.
\<close>

section \<open>Polling\<close>

lemma poll_n_Ok: "poll_n e n cond w = (Ok (), w') \<Longrightarrow> \<exists>w0. cond w0 = (Ok True, w')"
  by (induction n arbitrary: w) (auto simp: andThen_Ok_iff split: if_splits)

lemma poll_Ok:
  assumes "poll_law R" "rt_Poll R i t cond w = (Ok (), w')"
  shows "\<exists>w0. cond w0 = (Ok True, w')"
proof -
  have "fst (rt_Poll R i t cond w) \<noteq> Diverge" "fst (rt_Poll R i t cond w) \<noteq> Panic NonPositiveTicker"
    using assms(2) by simp_all
  then obtain n where "rt_Poll R i t cond w = poll_n (rt_ErrWaitTimeout R) (Suc n) cond w"
    using assms(1) unfolding poll_law_def by blast
  then show ?thesis using assms(2) poll_n_Ok by metis
qed

section \<open>Comparisons\<close>

text \<open>The value that an expected value is compared with, and whether the two agree.\<close>

definition expected_of :: "fieldComparisonValue \<Rightarrow> (string \<times> gov) list \<Rightarrow> gov" where
  "expected_of ex values =
     (if fv_Path ex \<noteq> '''' then val_at values (fv_Path ex)
      else if fv_Static ex = VNil then VInt (fv_StaticInt64 ex) else fv_Static ex)"

definition agrees :: "(string \<times> gov) list \<Rightarrow> expectedFieldComparisonValue \<Rightarrow> bool" where
  "agrees values ev =
     (case ev_Value ev of None \<Rightarrow> False
      | Some ex \<Rightarrow> deep_equal (val_at values (ev_Path ev)) (expected_of ex values))"

lemma checkFieldComparison_agrees:
  "ev_Value ev = Some ex \<Longrightarrow> checkFieldComparison ev values =
     Ok (agrees values ev, \<lparr>cr_CheckName = ev_Name ev, cr_Succeeded = agrees values ev\<rparr>)"
  by (simp add: checkFieldComparison_def agrees_def expected_of_def Let_def)

lemma check_all_spec:
  "\<forall>ev \<in> set evs. ev_Value ev \<noteq> None \<Longrightarrow> check_all evs values success reports =
     Ok (success \<and> list_all (agrees values) evs,
         reports @ map (\<lambda>ev. \<lparr>cr_CheckName = ev_Name ev, cr_Succeeded = agrees values ev\<rparr>) evs)"
  by (induction evs arbitrary: success reports) (auto simp: checkFieldComparison_agrees)

lemma check_all_Ok: "check_all evs values s rs = Ok x \<Longrightarrow> \<forall>ev \<in> set evs. ev_Value ev \<noteq> None"
  by (induction evs arbitrary: s rs)
    (auto simp: checkFieldComparison_def split: outcome.splits option.splits prod.splits)

lemma check_all_missing:
  "\<exists>ev \<in> set evs. ev_Value ev = None \<Longrightarrow> check_all evs values s rs = Panic NilDereference"
proof (induction evs arbitrary: s rs)
  case (Cons ev evs)
  then show ?case
    by (cases "ev_Value ev") (auto simp: checkFieldComparison_agrees, simp add: checkFieldComparison_def)
qed simp

text \<open>
  C34: The comparison of all expected values succeeds exactly when each observed field is deeply
  equal to what it is compared with, and it reports every expected value in order, also after one
  has failed. An expected value without a value to compare with crashes the comparison.
\<close>

theorem comparisons_all_fields:
  "checkComparisons c values =
     (if \<exists>ev \<in> set (fc_ExpectedValues (cr_comparisons c)). ev_Value ev = None
      then Panic NilDereference
      else Ok (list_all (agrees values) (fc_ExpectedValues (cr_comparisons c)),
               map (\<lambda>ev. \<lparr>cr_CheckName = ev_Name ev, cr_Succeeded = agrees values ev\<rparr>)
                 (fc_ExpectedValues (cr_comparisons c))))"
proof (cases "\<exists>ev \<in> set (fc_ExpectedValues (cr_comparisons c)). ev_Value ev = None")
  case True
  then show ?thesis
    by (simp add: checkComparisons_def check_all_missing)
qed (simp add: checkComparisons_def check_all_spec)

text \<open>
  The path of a comparison has precedence over its static value, and a static value is never
  deeply equal to an observed integer when it was decoded as a float: a static number in the
  specification matches no integer field of an object (which is what \<open>staticInt64\<close> is for).
\<close>

theorem static_number_never_matches_integer:
  assumes "ev_Value ev = Some ex" "fv_Path ex = ''''" "fv_Static ex = VFloat f"
    and "val_at values (ev_Path ev) = VInt i"
  shows "\<exists>r. checkFieldComparison ev values = Ok (False, r)"
  using assms by (simp add: checkFieldComparison_def)

theorem static_number_never_matches_integer_witness:
  "\<exists>r. checkFieldComparison
     \<lparr>ev_Name = ''n'', ev_Path = ''p'', ev_Default = VNil,
      ev_Value = Some \<lparr>fv_Path = [], fv_Static = VFloat 0, fv_StaticInt64 = 0\<rparr>\<rparr>
     [(''p'', VInt 0)] = Ok (False, r)"
  by (rule static_number_never_matches_integer
      [where ex = "\<lparr>fv_Path = [], fv_Static = VFloat 0, fv_StaticInt64 = 0\<rparr>" and f = 0 and i = 0])
    (simp_all add: val_at_def)

section \<open>A run of a success definition\<close>

text \<open>
  The inner poll never ends because the expected values have been reached: once the outer
  comparison has failed, its condition becomes true exactly when the values read have changed,
  since it compares the values of the outer poll again.
\<close>

theorem inner_poll_sees_only_changes:
  assumes "checkComparisons c outerValues = Ok (False, reports)"
    and "inner_condition K J R D c rc u name outerValues w = (Ok b, w')"
  shows "\<exists>innerValues w1. currentValues K J R c rc name w = (Ok innerValues, w1) \<and>
    b = (\<not> deep_equal (VObj outerValues) (VObj innerValues))"
  using assms by (auto simp: inner_condition_def andThen_Ok_iff Let_def split: prod.splits)

text \<open>A runner that compares one field with a static string, for the witnesses.\<close>

definition sample_fc :: "reportConfig option \<Rightarrow> fieldComparisons" where
  "sample_fc rep = \<lparr>fc_ExpectedValues =
       [\<lparr>ev_Name = ''ready'', ev_Path = ''.state'', ev_Default = VNil,
         ev_Value = Some \<lparr>fv_Path = [], fv_Static = VStr ''done'', fv_StaticInt64 = 0\<rparr>\<rparr>],
     fc_Timeout = 0, fc_ProgressTimeout = 0, fc_PollInterval = 0,
     fc_ReportTimeout = rep, fc_Failure = []\<rparr>"

definition sample_runner :: "reportConfig option \<Rightarrow> connections option \<Rightarrow> (string \<rightharpoonup> 'w check) \<Rightarrow>
    failureDefinition list \<Rightarrow> 'w checkRunner" where
  "sample_runner rep conns known fds =
     \<lparr>cr_client = NewClient sample_cfg,
      cr_def = \<lparr>sd_FieldComparisons = Some (sample_fc rep), sd_Failure = fds\<rparr>,
      cr_comparisons = sample_fc rep,
      cr_paths = [(''.state'', \<lparr>jsonpath = ''.state'', defaultValue = VNil\<rparr>)],
      cr_databaseConnections = conns, cr_knownChecks = known\<rparr>"

text \<open>A JSONPath library that knows top-level fields only, and a poll that tries once.\<close>

definition sample_jplib :: jplib where
  "sample_jplib =
     \<lparr>jp_Parse = (\<lambda>t. None),
      jp_FindResults = (\<lambda>t u. case map_of u (tl t) of
         Some v \<Rightarrow> ([[v]], None) | None \<Rightarrow> ([], Some (LibError (tl t @ '' is not found'')))),
      jp_ErrText = (\<lambda>e. case e of LibError t \<Rightarrow> t | _ \<Rightarrow> [])\<rparr>"

definition sample_rt :: "'w rt" where
  "sample_rt =
     \<lparr>rt_RangeOrder = (\<lambda>w ks. ks),
      rt_Poll = (\<lambda>i t cond w. poll_n (LibError ''timed out'') 1 cond w),
      rt_ErrWaitTimeout = LibError ''timed out''\<rparr>"

lemma sample_poll_law: "poll_law sample_rt"
proof -
  have "\<exists>n. poll_n (LibError ''timed out'') 1 cond w =
      poll_n (LibError ''timed out'') (Suc n) cond w" for cond :: "('a, bool) io" and w
    by (rule exI [of _ 0]) simp
  then show ?thesis by (simp add: poll_law_def sample_rt_def)
qed

definition sample_dead_dblib :: "'w dblib" where
  "sample_dead_dblib =
     \<lparr>dl_ParseConfig = (\<lambda>s. Inr ()), dl_ConnectConfig = (\<lambda>s w. (Inr s, w)),
      dl_Register = (\<lambda>n w. (True, w)), dl_Observe = (\<lambda>p l w. w),
      dl_ExecuteTx = (\<lambda>p f w. f w), dl_Exec = (\<lambda>p s w. (Inr (), w)),
      dl_Close = (\<lambda>p w. w)\<rparr>"

definition sample_job :: "string \<Rightarrow> obj" where
  "sample_job state =
     [(''apiVersion'', VStr ''v1''), (''kind'', VStr ''Job''),
      (''metadata'', VObj [(''name'', VStr ''job''), (''namespace'', VStr ''ns'')]),
      (''state'', VStr state)]"

definition job_target :: target where
  "job_target = \<lparr>tg_Config = \<lparr>cfg_Base = ''https'', cfg_GroupVersion = Some ('''', ''v1''), cfg_APIPath = ''/api''\<rparr>,
     tg_Group = [], tg_Version = ''v1'', tg_Resource = ''jobs'', tg_Namespace = ''ns''\<rparr>"

definition job_world :: "string \<Rightarrow> sworld" where
  "job_world state = empty_world\<lparr>sw_objs := [((job_target, ''job''), sample_job state)]\<rparr>"

lemmas check_eval = sample_runner_def sample_fc_def sample_jplib_def sample_rt_def sample_dead_dblib_def
  sample_job_def job_target_def job_world_def sample_kube_def sample_ulib_eval empty_world_def
  sample_cfg_def sw_store_def not_found_def ClientForUnstructured_def ClientFor_def newForConfig_def
  setConfigDefaults_def NewClient_def Let_def

theorem inner_poll_sees_only_changes_witness:
  "\<exists>b w'. inner_condition sample_kube sample_jplib sample_rt sample_dead_dblib
      (sample_runner None None Map.empty []) (\<lparr>rc_target = job_target, rc_updatePreparations = [],
        rc_updateChecks = []\<rparr>) (sample_job ''x'') ''job'' [(''.state'', VStr ''busy'')] (job_world ''busy'') =
      (Ok b, w') \<and> \<not> b"
proof -
  let ?c = "sample_runner None None Map.empty [] :: sworld checkRunner"
  let ?rc = "\<lparr>rc_target = job_target, rc_updatePreparations = [], rc_updateChecks = []\<rparr>"
  have c: "\<exists>reports. checkComparisons ?c [(''.state'', VStr ''busy'')] = Ok (False, reports)"
    by (simp add: checkComparisons_def checkFieldComparison_def val_at_def check_eval)
  have e: "\<exists>b w'. inner_condition sample_kube sample_jplib sample_rt sample_dead_dblib ?c ?rc
      (sample_job ''x'') ''job'' [(''.state'', VStr ''busy'')] (job_world ''busy'') = (Ok b, w')"
    by (simp add: inner_condition_def currentValues_def findResult_def checkComparisons_def
        checkFieldComparison_def checkFailed_def val_at_def check_eval) blast
  from c e obtain reports b w' where r: "checkComparisons ?c [(''.state'', VStr ''busy'')] = Ok (False, reports)"
    and i: "inner_condition sample_kube sample_jplib sample_rt sample_dead_dblib ?c ?rc
      (sample_job ''x'') ''job'' [(''.state'', VStr ''busy'')] (job_world ''busy'') = (Ok b, w')"
    by blast
  have "\<not> b"
    using inner_poll_sees_only_changes [OF r i]
    by (auto simp: currentValues_def findResult_def check_eval)
  then show ?thesis using i by blast
qed

text \<open>
  C8: A success definition that succeeds has either seen, in its last request, values of the object
  that agree with every expected value; or it timed out and the report of the timeout was stored,
  which the code takes for success.
\<close>

theorem success_means_agreement_or_reported_timeout:
  assumes P: "poll_law R"
    and run: "CheckRunner_Execute U K J R D c u w = (Ok (), w')"
  shows "(\<exists>rc w0 values. currentValues K J R c rc (getName U u) w0 = (Ok values, w') \<and>
       list_all (agrees values) (fc_ExpectedValues (cr_comparisons c))) \<or>
    (\<exists>rc w1 w2 r. rt_Poll R (fc_PollInterval (cr_comparisons c)) (fc_Timeout (cr_comparisons c))
         (outer_condition K J R D c rc u (getName U u)) w1 = (Err (rt_ErrWaitTimeout R), w2) \<and>
       fc_ReportTimeout (cr_comparisons c) = Some r \<and> report D c r w2 = (Ok (), w'))"
proof -
  obtain rc w1 where "lib (ClientForUnstructured U K (cr_client c) u w) = (Ok rc, w1)"
    and body: "(let (r, w2) = rt_Poll R (fc_PollInterval (cr_comparisons c)) (fc_Timeout (cr_comparisons c))
              (outer_condition K J R D c rc u (getName U u)) w1
       in (if r = Err (rt_ErrWaitTimeout R) \<and> fc_ReportTimeout (cr_comparisons c) \<noteq> None
           then reportTimeout D c w2 else (r, w2))) = (Ok (), w')"
    using run by (auto simp: CheckRunner_Execute_def andThen_Ok_iff)
  obtain r w2 where p: "rt_Poll R (fc_PollInterval (cr_comparisons c)) (fc_Timeout (cr_comparisons c))
              (outer_condition K J R D c rc u (getName U u)) w1 = (r, w2)" by fastforce
  show ?thesis
  proof (cases "r = Err (rt_ErrWaitTimeout R) \<and> fc_ReportTimeout (cr_comparisons c) \<noteq> None")
    case True
    then show ?thesis using body p by (auto simp: reportTimeout_def)
  next
    case False
    then have "r = Ok ()" "w2 = w'" using body p by auto
    then obtain w0 where "outer_condition K J R D c rc u (getName U u) w0 = (Ok True, w')"
      using poll_Ok [OF P, of _ _ _ w1 w2] p by blast
    then obtain vals reports where cv: "currentValues K J R c rc (getName U u) w0 = (Ok vals, w')"
      and cc: "checkComparisons c vals = Ok (True, reports)"
      by (auto simp: outer_condition_def andThen_Ok_iff split: if_splits)
    have "list_all (agrees vals) (fc_ExpectedValues (cr_comparisons c))"
      using cc check_all_Ok check_all_spec [of "fc_ExpectedValues (cr_comparisons c)" vals True "[]"]
      by (fastforce simp: checkComparisons_def)
    then show ?thesis using cv by blast
  qed
qed

theorem success_means_agreement_or_reported_timeout_witness:
  "\<exists>w'. CheckRunner_Execute sample_ulib sample_kube sample_jplib sample_rt sample_dead_dblib
      (sample_runner None None Map.empty []) (sample_job ''x'') (job_world ''done'') = (Ok (), w') \<and>
    (\<exists>rc w0 values. currentValues sample_kube sample_jplib sample_rt
       (sample_runner None None Map.empty [] :: sworld checkRunner) rc ''job'' w0 = (Ok values, w') \<and>
       list_all (agrees values) (fc_ExpectedValues (sample_fc None)))"
proof -
  obtain w' where r: "CheckRunner_Execute sample_ulib sample_kube sample_jplib sample_rt sample_dead_dblib
      (sample_runner None None Map.empty []) (sample_job ''x'') (job_world ''done'') = (Ok (), w')"
    by (simp add: CheckRunner_Execute_def outer_condition_def currentValues_def findResult_def
        checkComparisons_def checkFieldComparison_def val_at_def check_eval)
  have n: "getName sample_ulib (sample_job ''x'') = ''job''" by (simp add: check_eval)
  show ?thesis
    using success_means_agreement_or_reported_timeout [OF sample_poll_law r] r n
    by (auto simp: sample_runner_def sample_fc_def)
qed

text \<open>
  When the poll of a success definition times out and a report of timeouts is configured, the
  outcome of the report is the outcome of the check: the timeout error itself is lost.
\<close>

theorem timeout_error_replaced_by_report:
  assumes "ClientForUnstructured U K (cr_client c) u w = (Inr rc, w1)"
    and "rt_Poll R (fc_PollInterval (cr_comparisons c)) (fc_Timeout (cr_comparisons c))
      (outer_condition K J R D c rc u (getName U u)) w1 = (Err (rt_ErrWaitTimeout R), w2)"
    and "fc_ReportTimeout (cr_comparisons c) = Some r"
  shows "CheckRunner_Execute U K J R D c u w = report D c r w2"
  using assms by (simp add: CheckRunner_Execute_def reportTimeout_def)

definition sample_report :: reportConfig where
  "sample_report = \<lparr>rep_Database = Some \<lparr>rep_DatabaseName = ''db'', rep_Stmt = ''INSERT''\<rparr>\<rparr>"

definition sample_conns :: connections where
  "sample_conns = [''db'' \<mapsto> \<lparr>cn_Type = ''cockroachdb'', cn_CockroachClient = ''p''\<rparr>]"

theorem timeout_error_replaced_by_report_witness:
  "fst (CheckRunner_Execute sample_ulib sample_kube sample_jplib sample_rt sample_dead_dblib
     (sample_runner (Some sample_report) (Some sample_conns) Map.empty []) (sample_job ''x'')
     (job_world ''busy'')) = Ok ()"
proof -
  let ?c = "sample_runner (Some sample_report) (Some sample_conns) Map.empty [] :: sworld checkRunner"
  obtain rc w1 where c: "ClientForUnstructured sample_ulib sample_kube (cr_client ?c) (sample_job ''x'')
      (job_world ''busy'') = (Inr rc, w1)" by (simp add: check_eval)
  then have rc: "rc_target rc = job_target" "w1 = job_world ''busy''" by (auto simp: check_eval)
  obtain w2 where p: "rt_Poll (sample_rt :: sworld rt) (fc_PollInterval (cr_comparisons ?c)) (fc_Timeout (cr_comparisons ?c))
      (outer_condition sample_kube sample_jplib sample_rt sample_dead_dblib ?c rc (sample_job ''x'')
        (getName sample_ulib (sample_job ''x''))) w1 = (Err (rt_ErrWaitTimeout (sample_rt :: sworld rt)), w2)"
    using rc by (simp add: outer_condition_def inner_condition_def currentValues_def findResult_def
        checkComparisons_def checkFieldComparison_def checkFailed_def val_at_def check_eval)
  have "fst (report sample_dead_dblib ?c sample_report w2) = Ok ()"
    by (simp add: report_def reportDatabase_def sample_report_def sample_conns_def crdb_ExecuteTx_def
        TypeCockroachDB_def check_eval)
  then show ?thesis
    using timeout_error_replaced_by_report [OF c p] by (simp add: sample_runner_def sample_fc_def)
qed

section \<open>Failure checks\<close>

text \<open>The world after a sequence of failure checks all of which pass.\<close>

fun passing :: "'w checkRunner \<Rightarrow> failureDefinition list \<Rightarrow> obj \<Rightarrow> 'w \<Rightarrow> 'w option" where
  "passing c [] u w = Some w"
| "passing c (fd # fds) u w =
     (case cr_knownChecks c (fd_CheckName fd) of
        None \<Rightarrow> None
      | Some ck \<Rightarrow> (case ck_Execute ck u w of (Inr _, w1) \<Rightarrow> passing c fds u w1 | _ \<Rightarrow> None))"

lemma run_failure_checks_passing:
  "passing c pre u w = Some w1 \<Longrightarrow>
   run_failure_checks D c (pre @ fds) u w = run_failure_checks D c fds u w1"
  by (induction pre arbitrary: w) (auto split: option.splits sum.splits prod.splits)

text \<open>
  C36: The first failure check that finds a failure ends the checks. When a report is configured for
  it and the error is of the kind it reports, the outcome is the outcome of the report: a failure
  that was stored is no error, the failure definitions after it are not looked at, and the
  rollout goes on polling. Otherwise the error of the check is returned.
\<close>

theorem first_failure_decides:
  assumes "sd_Failure (cr_def c) = pre @ fd # post" and "passing c pre u w = Some w1"
    and "cr_knownChecks c (fd_CheckName fd) = Some ck" and "ck_Execute ck u w1 = (Inl err, w2)"
  shows "checkFailed D c u w =
    (case fd_Report fd of
       Some r \<Rightarrow> (if ck_IsFailedError ck err then on_err FailedToReportFailure (report D c r w2)
                 else (Err (RunFailedCheck (fd_CheckName fd) err), w2))
     | None \<Rightarrow> (Err (RunFailedCheck (fd_CheckName fd) err), w2))"
  using assms by (simp add: checkFailed_def run_failure_checks_passing)

definition always_fails :: "'w check" where
  "always_fails = \<lparr>ck_Name = ''bad'', ck_Execute = (\<lambda>u w. (Inl ErrOOMKilled, w)),
     ck_IsFailedError = JobOOMKilled_IsFailedError\<rparr>"

theorem first_failure_decides_witness:
  "fst (checkFailed sample_dead_dblib
     (sample_runner None (Some sample_conns) [''bad'' \<mapsto> always_fails]
       [\<lparr>fd_CheckName = ''bad'', fd_Report = Some sample_report\<rparr>,
        \<lparr>fd_CheckName = ''unknown'', fd_Report = None\<rparr>]) (sample_job ''x'') ()) = Ok ()"
proof -
  let ?fds = "[\<lparr>fd_CheckName = ''bad'', fd_Report = Some sample_report\<rparr>,
        \<lparr>fd_CheckName = ''unknown'', fd_Report = None\<rparr>]"
  let ?c = "sample_runner None (Some sample_conns) [''bad'' \<mapsto> always_fails] ?fds :: unit checkRunner"
  have "sd_Failure (cr_def ?c) = [] @ hd ?fds # tl ?fds" by (simp add: sample_runner_def)
  moreover have "cr_knownChecks ?c (fd_CheckName (hd ?fds)) = Some always_fails"
    by (simp add: sample_runner_def)
  moreover have "ck_Execute always_fails (sample_job ''x'') () = (Inl ErrOOMKilled, ())"
    by (simp add: always_fails_def)
  ultimately show ?thesis
    using first_failure_decides [of ?c "[]" "hd ?fds" "tl ?fds" "sample_job ''x''" "()" "()" always_fails
        ErrOOMKilled "()" sample_dead_dblib]
    by (simp add: always_fails_def JobOOMKilled_IsFailedError_def report_def reportDatabase_def
        sample_report_def sample_conns_def crdb_ExecuteTx_def TypeCockroachDB_def check_eval)
qed

section \<open>The order of a map\<close>

lemma find_all_Inr:
  assumes "find_all J paths data ks res = Inr m"
  shows "(\<forall>k \<in> set ks. \<forall>p. map_of paths k = Some p \<longrightarrow> (\<exists>v. findResult J p data = Inr v)) \<and>
    map_of m = (\<lambda>k. if k \<in> set ks \<and> map_of paths k \<noteq> None
      then Some (projr (findResult J (the (map_of paths k)) data)) else map_of res k)"
  using assms
proof (induction ks arbitrary: res)
  case (Cons k ks)
  show ?case
  proof (cases "map_of paths k")
    case None
    with Cons show ?thesis by (auto simp: fun_eq_iff)
  next
    case (Some p)
    then obtain v where v: "findResult J p data = Inr v"
      and r: "find_all J paths data ks (AList.update k v res) = Inr m"
      using Cons.prems by (auto split: sum.splits)
    from Cons.IH [OF r] v Some show ?thesis by (auto simp: fun_eq_iff)
  qed
qed simp

lemma find_all_total:
  assumes "\<forall>k \<in> set ks. \<forall>p. map_of paths k = Some p \<longrightarrow> (\<exists>v. findResult J p data = Inr v)"
  shows "\<exists>m. find_all J paths data ks res = Inr m"
  using assms by (induction ks arbitrary: res) (auto split: option.splits sum.splits)

text \<open>
  C37: The values that a check reads do not depend on the order in which Go visits the map of paths:
  with any other order the same request is made, and the result is the same map, with one value
  for each path; whether some path fails does not depend on it either.
\<close>

theorem values_independent_of_range_order:
  assumes R: "range_law R1" "range_law R2"
    and v: "currentValues K J R1 c rc name w = (Ok m1, w1)"
  shows "\<exists>m2. currentValues K J R2 c rc name w = (Ok m2, w1) \<and> map_of m2 = map_of m1 \<and>
    dom (map_of m2) = fst ` set (cr_paths c)"
proof -
  have s: "set (rt_RangeOrder R w1 (map fst (cr_paths c))) = fst ` set (cr_paths c)"
    if "range_law R" for R
    using that mset_eq_setD unfolding range_law_def by (metis set_map)
  obtain u where g: "k_Get K (rc_target rc) name w = (Inr u, w1)"
    and f: "find_all J (cr_paths c) u (rt_RangeOrder R1 w1 (map fst (cr_paths c))) [] = Inr m1"
    using v by (auto simp: currentValues_def split: prod.splits sum.splits)
  note f1 = find_all_Inr [OF f, unfolded s [OF R(1)]]
  have "\<exists>m. find_all J (cr_paths c) u (rt_RangeOrder R2 w1 (map fst (cr_paths c))) [] = Inr m"
    by (rule find_all_total) (unfold s [OF R(2)], rule conjunct1 [OF f1])
  then obtain m2 where m2: "find_all J (cr_paths c) u (rt_RangeOrder R2 w1 (map fst (cr_paths c))) [] = Inr m2"
    by blast
  have eq: "map_of m2 = map_of m1"
    using conjunct2 [OF find_all_Inr [OF m2, unfolded s [OF R(2)]]] conjunct2 [OF f1] by (simp only:)
  have "k \<in> dom (map_of m1) \<longleftrightarrow> k \<in> fst ` set (cr_paths c)" for k
    unfolding conjunct2 [OF f1] by (simp add: dom_def map_of_eq_None_iff)
  then have "dom (map_of m1) = fst ` set (cr_paths c)" by blast
  with eq g m2 show ?thesis by (simp add: currentValues_def)
qed

theorem values_independent_of_range_order_witness:
  "\<exists>m2. currentValues sample_kube sample_jplib (sample_rt\<lparr>rt_RangeOrder := \<lambda>w. rev\<rparr>)
      (sample_runner None None Map.empty []) \<lparr>rc_target = job_target, rc_updatePreparations = [],
        rc_updateChecks = []\<rparr> ''job'' (job_world ''busy'') = (Ok m2, job_world ''busy'') \<and>
    map_of m2 ''.state'' = Some (VStr ''busy'')"
proof -
  let ?rc = "\<lparr>rc_target = job_target, rc_updatePreparations = [], rc_updateChecks = []\<rparr>"
  let ?R = "sample_rt\<lparr>rt_RangeOrder := \<lambda>w. rev\<rparr> :: sworld rt"
  have l: "range_law (sample_rt :: sworld rt)" "range_law ?R"
    by (simp_all add: range_law_def sample_rt_def)
  have v: "currentValues sample_kube sample_jplib sample_rt (sample_runner None None Map.empty []) ?rc ''job''
      (job_world ''busy'') = (Ok [(''.state'', VStr ''busy'')], job_world ''busy'')"
    by (simp add: currentValues_def findResult_def check_eval)
  obtain m2 where m: "currentValues sample_kube sample_jplib ?R
      (sample_runner None None Map.empty []) ?rc ''job'' (job_world ''busy'') = (Ok m2, job_world ''busy'')"
    "map_of m2 = map_of [(''.state'', VStr ''busy'')]"
    using values_independent_of_range_order [OF l v] by blast
  then have "map_of m2 ''.state'' = Some (VStr ''busy'')" by simp
  with m(1) show ?thesis by blast
qed

section \<open>Known checks and paths\<close>

lemma register_checks_spec:
  "register_checks known cs = Inr known' \<longleftrightarrow>
     distinct (map ck_Name cs) \<and> (\<forall>c \<in> set cs. known (ck_Name c) = None) \<and>
     known' = known ++ map_of (map (\<lambda>c. (ck_Name c, c)) cs)"
proof (induction cs arbitrary: known)
  case (Cons c cs)
  have step: "register_checks known (c # cs) = Inr known' \<longleftrightarrow>
      known (ck_Name c) = None \<and> register_checks (known(ck_Name c \<mapsto> c)) cs = Inr known'"
    by (simp split: option.split)
  let ?M = "map_of (map (\<lambda>c. (ck_Name c, c)) cs)"
  have eq: "known(ck_Name c \<mapsto> c) ++ ?M = known ++ ?M(ck_Name c \<mapsto> c)" if "ck_Name c \<notin> ck_Name ` set cs"
    using that by (simp only: map_add_upd) (rule map_add_upd_left, auto simp: dom_map_of_conv_image_fst)
  have "(\<forall>c' \<in> set cs. (known(ck_Name c \<mapsto> c)) (ck_Name c') = None) \<longleftrightarrow>
      ck_Name c \<notin> ck_Name ` set cs \<and> (\<forall>c' \<in> set cs. known (ck_Name c') = None)"
    by (auto simp: image_iff)
  then show ?case
    unfolding step Cons.IH using eq by (auto simp del: fun_upd_apply)
qed auto

text \<open>
  The checks are created exactly when their names are pairwise different, and then each name
  finds its check.
\<close>

theorem new_checks_distinct_names:
  "NewChecks cl conns cs =
     (if distinct (map ck_Name cs)
      then Inr \<lparr>cks_client = cl, cks_databaseConnections = conns,
                cks_knownChecks = map_of (map (\<lambda>c. (ck_Name c, c)) cs)\<rparr>
      else Inl (projl (register_checks Map.empty cs)))"
proof (cases "distinct (map ck_Name cs)")
  case True
  then have "register_checks Map.empty cs = Inr (map_of (map (\<lambda>c. (ck_Name c, c)) cs))"
    by (simp add: register_checks_spec)
  then show ?thesis using True by (simp add: NewChecks_def)
next
  case False
  then have "register_checks Map.empty cs \<noteq> Inr k" for k by (simp add: register_checks_spec)
  then show ?thesis using False by (cases "register_checks Map.empty cs") (auto simp: NewChecks_def)
qed

lemma collect_paths_append:
  "collect_paths J (pre @ evs) paths =
     (case collect_paths J pre paths of Inl e \<Rightarrow> Inl e | Inr p \<Rightarrow> collect_paths J evs p)"
  by (induction pre arbitrary: paths) (auto simp: Let_def split: option.splits)

lemma collect_paths_keeps_nil:
  assumes "collect_paths J evs paths = Inr paths'" "map_of paths p = Some \<lparr>jsonpath = p, defaultValue = VNil\<rparr>"
    and "\<forall>e \<in> set evs. ev_Path e \<noteq> p"
  shows "map_of paths' p = Some \<lparr>jsonpath = p, defaultValue = VNil\<rparr>"
  using assms
proof (induction evs arbitrary: paths)
  case (Cons ev evs)
  then obtain q where q: "collect_paths J evs q = Inr paths'"
    "map_of q p = Some \<lparr>jsonpath = p, defaultValue = VNil\<rparr>"
    by (auto simp: Let_def split: option.splits if_splits)
  show ?case using Cons.IH [OF q] Cons.prems by simp
qed simp

text \<open>
  A path that an expected value is compared with has no default, even when an earlier expected
  value observes the same path with a default: the entry of the map of paths is replaced.
\<close>

theorem compared_path_loses_default:
  assumes "collect_paths J (pre @ ev # post) [] = Inr paths"
    and "ev_Value ev = Some v" "fv_Path v = p" "p \<noteq> ''''" "\<forall>e \<in> set post. ev_Path e \<noteq> p"
  shows "map_of paths p = Some \<lparr>jsonpath = p, defaultValue = VNil\<rparr>"
proof -
  obtain q where "collect_paths J (ev # post) q = Inr paths"
    using assms(1) by (auto simp: collect_paths_append split: sum.splits)
  then obtain q' where q': "collect_paths J post q' = Inr paths"
    "map_of q' p = Some \<lparr>jsonpath = p, defaultValue = VNil\<rparr>"
    using assms(2-4) by (auto simp: Let_def split: option.splits)
  then show ?thesis using assms(5) by (rule collect_paths_keeps_nil)
qed

theorem compared_path_loses_default_witness:
  "\<exists>paths. collect_paths sample_jplib
     [\<lparr>ev_Name = ''a'', ev_Path = ''.x'', ev_Default = VInt 0, ev_Value = None\<rparr>,
      \<lparr>ev_Name = ''b'', ev_Path = ''.y'', ev_Default = VNil,
       ev_Value = Some \<lparr>fv_Path = ''.x'', fv_Static = VNil, fv_StaticInt64 = 0\<rparr>\<rparr>] [] = Inr paths \<and>
     map_of paths ''.x'' = Some \<lparr>jsonpath = ''.x'', defaultValue = VNil\<rparr>"
proof -
  let ?a = "\<lparr>ev_Name = ''a'', ev_Path = ''.x'', ev_Default = VInt 0, ev_Value = None\<rparr>"
  let ?b = "\<lparr>ev_Name = ''b'', ev_Path = ''.y'', ev_Default = VNil,
       ev_Value = Some \<lparr>fv_Path = ''.x'', fv_Static = VNil, fv_StaticInt64 = 0\<rparr>\<rparr>"
  have r: "\<exists>paths. collect_paths sample_jplib ([?a] @ ?b # []) [] = Inr paths"
    by (simp add: sample_jplib_def Let_def)
  then obtain paths where p: "collect_paths sample_jplib ([?a] @ ?b # []) [] = Inr paths" ..
  show ?thesis
    using compared_path_loses_default [OF p] p by simp
qed

section \<open>Jobs killed for lack of memory\<close>

lemma oom_status_iff: "oom_status cs \<longleftrightarrow> (\<exists>c \<in> set cs. cs_Terminated c = Some ''OOMKilled'')"
  by (induction cs) auto

lemma oom_pods_spec:
  "oom_pods ps = (case find (\<lambda>p. oom_status (pod_ContainerStatuses p)) ps of
     None \<Rightarrow> Inr () | Some p \<Rightarrow> Inl (PodOOMKilled (pod_Namespace p) (pod_Name p) ErrOOMKilled))"
  by (induction ps) auto

text \<open>
  C35: On a Job whose pods can be listed, the failure check fails exactly when some container of some of
  its pods was terminated for lack of memory, and then with an error that it recognises as the failure
  it looks for. On an object that is no Job it fails without asking the server, and when the pods cannot
  be listed it fails with that error; the former is never the failure it looks for, the latter only if
  the server's error is.
\<close>

theorem job_oom_detects_killed_pods:
  "(getKind U u \<noteq> ''Job'' \<longrightarrow> JobOOMKilled_Execute U K u w = (Inl ErrNotAJob, w) \<and>
      \<not> JobOOMKilled_IsFailedError ErrNotAJob) \<and>
   (getKind U u = ''Job'' \<and>
      k_ListPods K (getNamespace U u) (''job-name='' @ getName U u) w = (Inl e, w1) \<longrightarrow>
      JobOOMKilled_Execute U K u w = (Inl (ListingPods e), w1) \<and>
      JobOOMKilled_IsFailedError (ListingPods e) = JobOOMKilled_IsFailedError e) \<and>
   (getKind U u = ''Job'' \<and>
      k_ListPods K (getNamespace U u) (''job-name='' @ getName U u) w = (Inr ps, w1) \<longrightarrow>
      (if \<exists>p \<in> set ps. \<exists>c \<in> set (pod_ContainerStatuses p). cs_Terminated c = Some ''OOMKilled''
       then \<exists>e. JobOOMKilled_Execute U K u w = (Inl e, w1) \<and> JobOOMKilled_IsFailedError e
       else JobOOMKilled_Execute U K u w = (Inr (), w1)))"
proof -
  have wrapped: "JobOOMKilled_IsFailedError (PodOOMKilled ns n ErrOOMKilled)" for ns n
    unfolding JobOOMKilled_IsFailedError_def by (rule errors_Is_unwrap [OF _ errors_Is_refl]) simp
  have other: "\<not> JobOOMKilled_IsFailedError ErrNotAJob"
    unfolding JobOOMKilled_IsFailedError_def by (subst errors_Is.simps) simp
  have f: "(\<exists>p \<in> set ps. \<exists>c \<in> set (pod_ContainerStatuses p). cs_Terminated c = Some ''OOMKilled'') \<longleftrightarrow>
      find (\<lambda>p. oom_status (pod_ContainerStatuses p)) ps \<noteq> None"
    by (auto simp: find_None_iff oom_status_iff)
  have listing: "JobOOMKilled_IsFailedError (ListingPods e) = JobOOMKilled_IsFailedError e"
    unfolding JobOOMKilled_IsFailedError_def by (subst errors_Is.simps) simp
  show ?thesis
    using wrapped other listing unfolding f by (auto simp: JobOOMKilled_Execute_def oom_pods_spec)
qed

definition oom_world :: sworld where
  "oom_world = empty_world\<lparr>sw_pods := [\<lparr>pod_Namespace = ''ns'', pod_Name = ''p'',
     pod_ContainerStatuses = [\<lparr>cs_Terminated = Some ''OOMKilled''\<rparr>]\<rparr>]\<rparr>"

theorem job_oom_detects_killed_pods_witness:
  "\<exists>e. JobOOMKilled_Execute sample_ulib sample_kube (sample_job ''x'') oom_world = (Inl e, oom_world) \<and>
     JobOOMKilled_IsFailedError e"
proof -
  have k: "getKind sample_ulib (sample_job ''x'') = ''Job'' \<and>
     k_ListPods sample_kube (getNamespace sample_ulib (sample_job ''x''))
       (''job-name='' @ getName sample_ulib (sample_job ''x'')) oom_world = (Inr (sw_pods oom_world), oom_world)"
    by (simp add: check_eval oom_world_def)
  have p: "\<exists>p \<in> set (sw_pods oom_world). \<exists>c \<in> set (pod_ContainerStatuses p).
      cs_Terminated c = Some ''OOMKilled''"
    by (simp add: oom_world_def)
  show ?thesis
    using job_oom_detects_killed_pods [where U = sample_ulib and u = "sample_job ''x''" and K = sample_kube
        and w = oom_world and ps = "sw_pods oom_world" and ?w1.0 = oom_world] k p
    by simp
qed

end
