(* ===== verification/Feedback.thy ===== *)
theory Feedback
  imports Cluster Duration "HOL-Library.Monad_Syntax"
begin

text \<open>
  The status that a rollout reports on the object that triggered it (feedback/feedback.go): the
  conditions read from the object, the ones kept for the groups of the rollout, and the status
  requests. \<^verbatim>\<open>time.Parse\<close> with the layout RFC 3339 is modelled as the standard library of the
  repository's Go version has it; the encoding of a time by \<^verbatim>\<open>metav1.Time\<close> is a parameter.
\<close>

section \<open>Times\<close>

text \<open>
  A time in the local zone: seconds since the first instant of year 1 in UTC, nanoseconds, and the
  monotonic clock reading that only \<^verbatim>\<open>time.Now\<close> sets. \<^verbatim>\<open>reflect.DeepEqual\<close> compares all three.
\<close>

record gotime =
  tm_Sec :: int
  tm_Nsec :: nat
  tm_Monotonic :: "int option"

definition zero_time :: gotime where
  "zero_time = \<lparr>tm_Sec = 0, tm_Nsec = 0, tm_Monotonic = None\<rparr>"

definition atoi :: "string \<Rightarrow> int option" where
  "atoi s =
     (let neg = (s \<noteq> [] \<and> hd s = CHR ''-'');
          s' = (if s \<noteq> [] \<and> (hd s = CHR ''-'' \<or> hd s = CHR ''+'') then tl s else s)
      in case leadingInt 0 s' of
           Some (q, []) \<Rightarrow> Some (if neg then - int q else int q)
         | _ \<Rightarrow> None)"

text \<open>\<open>getnum s fixed\<close> reads two digits; one is enough when they are not \<open>fixed\<close>.\<close>

definition getnum :: "string \<Rightarrow> bool \<Rightarrow> (nat \<times> string) option" where
  "getnum s fixed =
     (case s of [] \<Rightarrow> None
      | a # s1 \<Rightarrow>
          if \<not> is_digit a then None
          else (case s1 of
              [] \<Rightarrow> if fixed then None else Some (digit_val a, s1)
            | b # s2 \<Rightarrow>
                if \<not> is_digit b then if fixed then None else Some (digit_val a, s1)
                else Some (digit_val a * 10 + digit_val b, s2)))"

definition skip :: "char \<Rightarrow> string \<Rightarrow> string option" where
  "skip c s = (case s of [] \<Rightarrow> None | d # s' \<Rightarrow> if d = c then Some s' else None)"

definition in_range :: "nat \<Rightarrow> nat \<Rightarrow> unit option" where
  "in_range n limit = (if n < limit then Some () else None)"

text \<open>The fraction that may follow the seconds: nine digits at most count, all are consumed.\<close>

definition parse_fraction :: "string \<Rightarrow> (nat \<times> string) option" where
  "parse_fraction s =
     (case s of
        c # d # _ \<Rightarrow>
          if (c = CHR ''.'' \<or> c = CHR '','') \<and> is_digit d then
            (let ds = take 9 (takeWhile is_digit (tl s)) in
             case atoi ds of
               None \<Rightarrow> None
             | Some ns \<Rightarrow> Some (nat ns * 10 ^ (9 - length ds), dropWhile is_digit (tl s)))
          else Some (0, s)
      | _ \<Rightarrow> Some (0, s))"

text \<open>The zone: \<open>Z\<close>, or a sign, two characters, a colon, two characters; as seconds east of UTC.\<close>

definition parse_zone :: "string \<Rightarrow> (int \<times> string) option" where
  "parse_zone s =
     (if s \<noteq> [] \<and> hd s = CHR ''Z'' then Some (0, tl s)
      else if length s < 6 \<or> s ! 3 \<noteq> CHR '':'' then None
      else do {
        hr \<leftarrow> atoi (take 2 (drop 1 s));
        mm \<leftarrow> atoi (take 2 (drop 4 s));
        (if hd s = CHR ''+'' then Some ((hr * 60 + mm) * 60, drop 6 s)
         else if hd s = CHR ''-'' then Some (- ((hr * 60 + mm) * 60), drop 6 s)
         else None)
      })"

definition leap :: "int \<Rightarrow> bool" where
  "leap y \<longleftrightarrow> y mod 4 = 0 \<and> (y mod 100 \<noteq> 0 \<or> y mod 400 = 0)"

definition month_lengths :: "int \<Rightarrow> nat list" where
  "month_lengths y = [31, if leap y then 29 else 28, 31, 30, 31, 30, 31, 31, 30, 31, 30, 31]"

definition days_before_year :: "int \<Rightarrow> int" where
  "days_before_year y = 365 * (y - 1) + (y - 1) div 4 - (y - 1) div 100 + (y - 1) div 400"

definition unix_days :: "int \<Rightarrow> nat \<Rightarrow> nat \<Rightarrow> int" where
  "unix_days y m d = days_before_year y + int (sum_list (take (m - 1) (month_lengths y)) + (d - 1))"

definition parse_rfc3339 :: "string \<Rightarrow> gotime option" where
  "parse_rfc3339 value =
     (if length value < 4 \<or> \<not> is_digit (hd value) then None
      else do {
        year \<leftarrow> atoi (take 4 value);
        s \<leftarrow> skip (CHR ''-'') (drop 4 value);
        (month, s) \<leftarrow> getnum s True;
        _ \<leftarrow> (if month = 0 then None else in_range month 13);
        s \<leftarrow> skip (CHR ''-'') s;
        (day, s) \<leftarrow> getnum s True;
        s \<leftarrow> skip (CHR ''T'') s;
        (hour, s) \<leftarrow> getnum s False;
        _ \<leftarrow> in_range hour 24;
        s \<leftarrow> skip (CHR '':'') s;
        (min, s) \<leftarrow> getnum s True;
        _ \<leftarrow> in_range min 60;
        s \<leftarrow> skip (CHR '':'') s;
        (sec, s) \<leftarrow> getnum s True;
        _ \<leftarrow> in_range sec 60;
        (nsec, s) \<leftarrow> parse_fraction s;
        (offset, s) \<leftarrow> parse_zone s;
        (if s \<noteq> [] \<or> day = 0 \<or> day > month_lengths year ! (month - 1) then None
         else Some \<lparr>tm_Sec = unix_days year month day * 86400 +
                      int (hour * 3600 + min * 60 + sec) - offset,
                    tm_Nsec = nsec, tm_Monotonic = None\<rparr>)
      })"

section \<open>The status\<close>

text \<open>
  A nil slice and an empty one differ for \<^verbatim>\<open>reflect.DeepEqual\<close>, hence the option. Conditions are
  pointers, but no condition is changed after it was made, so they are values here.
\<close>

record status_condition =
  sc_LastTransitionTime :: gotime
  sc_Name :: string
  sc_CurrentStatus :: string

record status =
  stt_Conditions :: "status_condition list option"

definition StatusConditionNotStarted :: string where
  "StatusConditionNotStarted = ''Not Started''"

definition StatusConditionInProgress :: string where
  "StatusConditionInProgress = ''In Progress''"

definition StatusConditionFinished :: string where
  "StatusConditionFinished = ''Finished''"

definition getNestedString :: "ulib \<Rightarrow> obj \<Rightarrow> string list \<Rightarrow> string" where
  "getNestedString U m path =
     (case nestedString U m path of Inr (Some val) \<Rightarrow> val | _ \<Rightarrow> '''')"

definition extractStatusCondition :: "ulib \<Rightarrow> obj \<Rightarrow> status_condition" where
  "extractStatusCondition U v =
     (let pt = (case parse_rfc3339 (getNestedString U v [''lastTransitionTime'']) of
                  None \<Rightarrow> zero_time | Some t \<Rightarrow> t)
      in \<lparr>sc_LastTransitionTime = pt, sc_Name = getNestedString U v [''name''],
          sc_CurrentStatus = getNestedString U v [''currentStatus'']\<rparr>)"

fun extract_conditions :: "ulib \<Rightarrow> gov list \<Rightarrow> status_condition list option" where
  "extract_conditions U [] = Some []"
| "extract_conditions U (x # xs) =
     (case x of
        VObj m \<Rightarrow> map_option (\<lambda>r. extractStatusCondition U m # r) (extract_conditions U xs)
      | _ \<Rightarrow> None)"

definition extractStatus :: "ulib \<Rightarrow> obj \<Rightarrow> status option" where
  "extractStatus U u =
     (case nestedFieldNoCopy U u [''status'', ''conditions''] of
        Inr (Some (VArr original)) \<Rightarrow>
          map_option (\<lambda>ret. \<lparr>stt_Conditions = Some ret\<rparr>) (extract_conditions U original)
      | _ \<Rightarrow> None)"

section \<open>The feedback\<close>

text \<open>
  The client is never nil; the status pointers and the object may be. \<^verbatim>\<open>metav1.Now\<close> is the parameter
  \<open>now\<close>, which may give a different time at each call, and \<open>time_json\<close> is the JSON of a time.
\<close>

record feedback =
  fb_client :: client
  fb_oldStatus :: "status option"
  fb_currentStatus :: "status option"
  fb_obj :: "obj option"

record 'w clock =
  now :: "'w \<Rightarrow> gotime \<times> 'w"
  time_json :: "gotime \<Rightarrow> gov"

definition clock_law :: "'w clock \<Rightarrow> bool" where
  "clock_law T \<longleftrightarrow> (\<forall>w. tm_Monotonic (fst (now T w)) \<noteq> None)"

definition NewFeedback :: "ulib \<Rightarrow> client \<Rightarrow> obj \<Rightarrow> feedback" where
  "NewFeedback U c u =
     \<lparr>fb_client = c, fb_oldStatus = extractStatus U u, fb_currentStatus = None, fb_obj = Some u\<rparr>"

definition condition_json :: "'w clock \<Rightarrow> status_condition \<Rightarrow> gov" where
  "condition_json T c =
     VObj [(''lastTransitionTime'', time_json T (sc_LastTransitionTime c)),
           (''name'', VStr (sc_Name c)), (''currentStatus'', VStr (sc_CurrentStatus c))]"

definition status_json :: "'w clock \<Rightarrow> status \<Rightarrow> gov" where
  "status_json T s =
     VObj [(''conditions'', (case stt_Conditions s of
        None \<Rightarrow> VNil | Some cs \<Rightarrow> VArr (map (condition_json T) cs)))]"

text \<open>The content of the status request: the address and version of the object, and the status.\<close>

definition status_request :: "ulib \<Rightarrow> 'w clock \<Rightarrow> obj \<Rightarrow> status option \<Rightarrow> obj" where
  "status_request U T u s =
     [(''kind'', VStr (getKind U u)), (''apiVersion'', VStr (getAPIVersion U u)),
      (''metadata'', VObj
         [(''name'', VStr (getName U u)), (''namespace'', VStr (getNamespace U u)),
          (''resourceVersion'', VStr (getResourceVersion U u))]),
      (''status'', (case s of None \<Rightarrow> VNil | Some s \<Rightarrow> status_json T s))]"

text \<open>
  On failure the request returns a nil object, which the code stores all the same.
\<close>

definition updateStatus :: "ulib \<Rightarrow> 'w kube \<Rightarrow> 'w clock \<Rightarrow> (feedback \<times> 'w, unit) io" where
  "updateStatus U K T s =
     (let (f, w) = s in
      if fb_oldStatus f = fb_currentStatus f then (Ok (), f, w)
      else case fb_obj f of
        None \<Rightarrow> (Panic NilDereference, f, w)
      | Some u \<Rightarrow>
          (case ClientForUnstructured U K (fb_client f) u w of
             (Inl e, w1) \<Rightarrow> (Err e, f, w1)
           | (Inr c, w1) \<Rightarrow>
               (case k_UpdateStatus K (rc_target c) (status_request U T u (fb_currentStatus f)) w1 of
                  (Inl e, w2) \<Rightarrow> (Err e, f\<lparr>fb_obj := None\<rparr>, w2)
                | (Inr o', w2) \<Rightarrow> (Ok (), f\<lparr>fb_obj := Some o'\<rparr>, w2))))"

fun fresh_conditions :: "'w clock \<Rightarrow> string list \<Rightarrow> 'w \<Rightarrow> status_condition list \<times> 'w" where
  "fresh_conditions T [] w = ([], w)"
| "fresh_conditions T (g # gs) w =
     (let (t, w1) = now T w;
          c = \<lparr>sc_LastTransitionTime = t, sc_Name = g, sc_CurrentStatus = StatusConditionNotStarted\<rparr>;
          (cs, w2) = fresh_conditions T gs w1
      in (c # cs, w2))"

fun kept_conditions ::
  "'w clock \<Rightarrow> (string \<rightharpoonup> status_condition) \<Rightarrow> string list \<Rightarrow> 'w \<Rightarrow> status_condition list \<times> 'w" where
  "kept_conditions T available [] w = ([], w)"
| "kept_conditions T available (g # gs) w =
     (case available g of
        Some c \<Rightarrow> (let (cs, w1) = kept_conditions T available gs w in (c # cs, w1))
      | None \<Rightarrow>
          (let (t, w1) = now T w;
               c = \<lparr>sc_LastTransitionTime = t, sc_Name = g, sc_CurrentStatus = StatusConditionNotStarted\<rparr>;
               (cs, w2) = kept_conditions T available gs w1
           in (c # cs, w2)))"

definition availableOldConditions :: "status_condition list \<Rightarrow> string \<rightharpoonup> status_condition" where
  "availableOldConditions cs = foldl (\<lambda>m c. m(sc_Name c \<mapsto> c)) Map.empty cs"

text \<open>Appending to the nil slice leaves it nil when there is nothing to append.\<close>

definition slice :: "'a list \<Rightarrow> 'a list option" where
  "slice xs = (if xs = [] then None else Some xs)"

definition old_conditions :: "feedback \<Rightarrow> status_condition list" where
  "old_conditions f =
     (case fb_oldStatus f of None \<Rightarrow> []
      | Some s \<Rightarrow> (case stt_Conditions s of None \<Rightarrow> [] | Some cs \<Rightarrow> cs))"

definition initializeStatus :: "'w clock \<Rightarrow> string list \<Rightarrow> feedback \<times> 'w \<Rightarrow> feedback \<times> 'w" where
  "initializeStatus T groups s =
     (let (f, w) = s;
          (cs, w1) =
            (if fb_oldStatus f = None \<or> old_conditions f = [] then fresh_conditions T groups w
             else kept_conditions T (availableOldConditions (old_conditions f)) groups w)
      in (f\<lparr>fb_currentStatus := Some \<lparr>stt_Conditions = slice cs\<rparr>\<rparr>, w1))"

text \<open>The first statement of both operations logs fields of the object, which must not be nil.\<close>

definition Initialize :: "ulib \<Rightarrow> 'w kube \<Rightarrow> 'w clock \<Rightarrow> string list \<Rightarrow> (feedback \<times> 'w, unit) io" where
  "Initialize U K T groups s =
     (if fb_obj (fst s) = None then (Panic NilDereference, s)
      else updateStatus U K T (initializeStatus T groups s))"

fun set_conditions ::
  "'w clock \<Rightarrow> string \<Rightarrow> string \<Rightarrow> status_condition list \<Rightarrow> 'w \<Rightarrow> status_condition list \<times> 'w" where
  "set_conditions T name new [] w = ([], w)"
| "set_conditions T name new (c # cs) w =
     (let (c', w1) =
            (if sc_Name c = name \<and> sc_CurrentStatus c \<noteq> new
             then (let (t, w1) = now T w
                   in (\<lparr>sc_LastTransitionTime = t, sc_Name = name, sc_CurrentStatus = new\<rparr>, w1))
             else (c, w));
          (cs', w2) = set_conditions T name new cs w1
      in (c' # cs', w2))"

definition SetCondition ::
  "ulib \<Rightarrow> 'w kube \<Rightarrow> 'w clock \<Rightarrow> string \<Rightarrow> string \<Rightarrow> (feedback \<times> 'w, unit) io" where
  "SetCondition U K T name new s =
     (let (f, w) = s in
      case (fb_obj f, fb_currentStatus f) of
        (Some _, Some st) \<Rightarrow>
          (case stt_Conditions st of
             None \<Rightarrow> updateStatus U K T (f, w)
           | Some cs \<Rightarrow>
               (let (cs', w1) = set_conditions T name new cs w
                in updateStatus U K T
                     (f\<lparr>fb_currentStatus := Some \<lparr>stt_Conditions = Some cs'\<rparr>\<rparr>, w1)))
      | _ \<Rightarrow> (Panic NilDereference, f, w))"

end
