(* ===== verification/Feedback_Props.thy ===== *)
theory Feedback_Props
  imports Feedback
begin

text \<open>
  What the feedback promises to a rollout, as a contract that the model's operations meet, and the
  correctness of the status: which conditions are kept, when a request is sent, and that a status
  that was written is read back.
\<close>

section \<open>The contract\<close>

text \<open>
  Seen from a rollout the feedback is a list of named conditions. Initializing makes one for each
  group, in order; setting one changes those of its name and no other. An error of the request
  does not undo either.
\<close>

locale condition_report =
  fixes init :: "string list \<Rightarrow> ('s, unit) io"
    and set_condition :: "string \<Rightarrow> string \<Rightarrow> ('s, unit) io"
    and conds :: "'s \<Rightarrow> (string \<times> string) list"
  assumes init_names: "init gs s = (r, s') \<Longrightarrow> (\<forall>p. r \<noteq> Panic p) \<Longrightarrow> map fst (conds s') = gs"
    and set_effect: "set_condition n v s = (r, s') \<Longrightarrow> (\<forall>p. r \<noteq> Panic p) \<Longrightarrow>
      conds s' = map (\<lambda>(k, c). (k, if k = n then v else c)) (conds s)"
begin

lemma set_names: "set_condition n v s = (r, s') \<Longrightarrow> (\<forall>p. r \<noteq> Panic p) \<Longrightarrow>
    map fst (conds s') = map fst (conds s)"
  by (drule set_effect) (auto simp: case_prod_beta)

lemma set_value: "set_condition n v s = (Ok u, s') \<Longrightarrow> (k, c) \<in> set (conds s') \<Longrightarrow>
    (if k = n then c = v else (k, c) \<in> set (conds s))"
  by (drule set_effect) auto

text \<open>Setting the same value for names that were set before keeps them set.\<close>

lemma set_more:
  assumes "set_condition n v s = (Ok u, s')" "\<forall>(k, c) \<in> set (conds s). k \<in> done \<longrightarrow> c = v"
  shows "\<forall>(k, c) \<in> set (conds s'). k \<in> insert n done \<longrightarrow> c = v"
  using set_value [OF assms(1)] assms(2) by (fastforce split: if_splits)

end

section \<open>The operations meet it\<close>

definition status_view :: "feedback \<times> 'w \<Rightarrow> (string \<times> string) list" where
  "status_view s =
     (case fb_currentStatus (fst s) of None \<Rightarrow> []
      | Some st \<Rightarrow> (case stt_Conditions st of None \<Rightarrow> []
          | Some cs \<Rightarrow> map (\<lambda>c. (sc_Name c, sc_CurrentStatus c)) cs))"

lemma slice_simps [simp]: "slice [] = None" "xs \<noteq> [] \<Longrightarrow> slice xs = Some xs"
  by (simp_all add: slice_def)

lemma slice_list [simp]: "(case slice xs of None \<Rightarrow> [] | Some ys \<Rightarrow> f ys) = (if xs = [] then [] else f xs)"
  by (simp add: slice_def)

lemma fresh_kept: "fresh_conditions T gs w = kept_conditions T Map.empty gs w"
  by (induction gs arbitrary: w) (simp_all add: Let_def)

text \<open>The condition of a group: an available one, or a new one that is not started.\<close>

definition kept_or_fresh :: "(string \<rightharpoonup> status_condition) \<Rightarrow> string \<Rightarrow> status_condition \<Rightarrow> bool" where
  "kept_or_fresh av g c =
     (case av g of Some old \<Rightarrow> c = old
      | None \<Rightarrow> sc_Name c = g \<and> sc_CurrentStatus c = ''Not Started'')"

lemma kept_conditions_spec:
  "kept_conditions T av gs w = (cs, w') \<Longrightarrow> list_all2 (kept_or_fresh av) gs cs"
proof (induction gs arbitrary: w cs w')
  case (Cons g gs)
  obtain c ds w1 w2 where "cs = c # ds" "kept_conditions T av gs w1 = (ds, w2)" "kept_or_fresh av g c"
    using Cons.prems
    by (cases "av g"; cases "now T w")
      (auto simp: kept_or_fresh_def StatusConditionNotStarted_def Let_def split: prod.splits)
  with Cons.IH show ?case by simp
qed simp

lemma kept_conditions_all:
  "\<forall>g \<in> set gs. av g \<noteq> None \<Longrightarrow> kept_conditions T av gs w = (map (the \<circ> av) gs, w)"
  by (induction gs) auto

lemma availableOldConditions_conv:
  "availableOldConditions cs = map_of (rev (map (\<lambda>c. (sc_Name c, c)) cs))"
proof -
  have "foldl (\<lambda>m c. m(sc_Name c \<mapsto> c)) m cs = m ++ map_of (rev (map (\<lambda>c. (sc_Name c, c)) cs))" for m
    by (induction cs arbitrary: m) (simp_all add: map_add_assoc)
  then show ?thesis by (simp add: availableOldConditions_def)
qed

lemma availableOldConditions_name: "availableOldConditions cs g = Some c \<Longrightarrow> sc_Name c = g \<and> c \<in> set cs"
  by (auto simp: availableOldConditions_conv dest!: map_of_SomeD)

lemma kept_conditions_names:
  assumes "kept_conditions T (availableOldConditions old) gs w = (cs, w')"
  shows "map sc_Name cs = gs"
proof -
  have "list_all2 (\<lambda>g c. sc_Name c = g) gs cs"
    using kept_conditions_spec [OF assms]
    by (rule list_all2_mono)
      (auto simp: kept_or_fresh_def split: option.splits dest: availableOldConditions_name)
  then show ?thesis by (induction gs cs rule: list_all2_induct) simp_all
qed

lemma initializeStatus_conv:
  "initializeStatus T groups (f, w) =
     (let (cs, w1) = kept_conditions T (availableOldConditions (old_conditions f)) groups w
      in (f\<lparr>fb_currentStatus := Some \<lparr>stt_Conditions = slice cs\<rparr>\<rparr>, w1))"
  by (simp add: initializeStatus_def fresh_kept old_conditions_def availableOldConditions_def)

lemma updateStatus_status:
  "updateStatus U K T (f, w) = (r, (f', w')) \<Longrightarrow>
   fb_currentStatus f' = fb_currentStatus f \<and> fb_oldStatus f' = fb_oldStatus f \<and> r \<noteq> Diverge"
  by (auto simp: updateStatus_def split: if_splits option.splits prod.splits sum.splits)

lemma set_conditions_view:
  "set_conditions T n v cs w = (cs', w') \<Longrightarrow>
   map (\<lambda>c. (sc_Name c, sc_CurrentStatus c)) cs' =
     map (\<lambda>c. (sc_Name c, if sc_Name c = n then v else sc_CurrentStatus c)) cs"
  by (induction cs arbitrary: w cs' w') (auto simp: Let_def split: prod.splits if_splits)

text \<open>A condition of the name with another status is replaced, with the time read then.\<close>

definition set_to :: "'w clock \<Rightarrow> string \<Rightarrow> string \<Rightarrow> status_condition \<Rightarrow> status_condition \<Rightarrow> bool" where
  "set_to T n v c c' =
     (if sc_Name c = n \<and> sc_CurrentStatus c \<noteq> v
      then sc_Name c' = n \<and> sc_CurrentStatus c' = v \<and> (\<exists>u. sc_LastTransitionTime c' = fst (now T u))
      else c' = c)"

lemma set_conditions_frame:
  "set_conditions T n v cs w = (cs', w') \<Longrightarrow> list_all2 (set_to T n v) cs cs'"
proof (induction cs arbitrary: w cs' w')
  case (Cons c cs)
  obtain c1 w1 where h: "(if sc_Name c = n \<and> sc_CurrentStatus c \<noteq> v
      then (let (t, w1) = now T w
        in (\<lparr>sc_LastTransitionTime = t, sc_Name = n, sc_CurrentStatus = v\<rparr>, w1)) else (c, w)) = (c1, w1)"
    by fastforce
  then have "set_to T n v c c1"
    by (cases "now T w") (auto simp: set_to_def split: if_splits intro!: exI [of _ w])
  moreover obtain ds where "cs' = c1 # ds" "list_all2 (set_to T n v) cs ds"
    using Cons.prems Cons.IH by (simp only: set_conditions.simps h) (auto split: prod.splits)
  ultimately show ?case by simp
qed simp

lemma Initialize_current:
  assumes "Initialize U K T gs (f, w) = (r, (f', w'))" "\<forall>p. r \<noteq> Panic p"
  shows "\<exists>cs w1. kept_conditions T (availableOldConditions (old_conditions f)) gs w = (cs, w1) \<and>
    fb_currentStatus f' = Some \<lparr>stt_Conditions = slice cs\<rparr> \<and> fb_oldStatus f' = fb_oldStatus f"
proof -
  obtain cs w1 where k: "kept_conditions T (availableOldConditions (old_conditions f)) gs w = (cs, w1)"
    by fastforce
  then show ?thesis
    using assms updateStatus_status [of U K T _ _ r f' w']
    by (auto simp: Initialize_def initializeStatus_conv split: if_splits)
qed

lemma SetCondition_current:
  assumes c: "SetCondition U K T n v (f, w) = (r, (f', w'))" and p: "\<forall>p. r \<noteq> Panic p"
  obtains (no_conditions) "fb_currentStatus f = Some \<lparr>stt_Conditions = None\<rparr>"
      "fb_currentStatus f' = Some \<lparr>stt_Conditions = None\<rparr>"
  | (conditions) cs cs' w1 where "fb_currentStatus f = Some \<lparr>stt_Conditions = Some cs\<rparr>"
      "set_conditions T n v cs w = (cs', w1)" "fb_currentStatus f' = Some \<lparr>stt_Conditions = Some cs'\<rparr>"
      "updateStatus U K T (f\<lparr>fb_currentStatus := Some \<lparr>stt_Conditions = Some cs'\<rparr>\<rparr>, w1) = (r, (f', w'))"
proof -
  obtain u st where u: "fb_obj f = Some u" and st: "fb_currentStatus f = Some st"
    using c p by (auto simp: SetCondition_def split: option.splits)
  show thesis
  proof (cases "stt_Conditions st")
    case None
    then have s: "st = \<lparr>stt_Conditions = None\<rparr>" by simp
    have "updateStatus U K T (f, w) = (r, (f', w'))" using c by (simp add: SetCondition_def u st None)
    from updateStatus_status [OF this] show thesis using no_conditions st s by simp
  next
    case (Some cs)
    then have s: "st = \<lparr>stt_Conditions = Some cs\<rparr>" by simp
    obtain cs' w1 where cs': "set_conditions T n v cs w = (cs', w1)" by fastforce
    have up: "updateStatus U K T (f\<lparr>fb_currentStatus := Some \<lparr>stt_Conditions = Some cs'\<rparr>\<rparr>, w1) = (r, (f', w'))"
      using c by (simp add: SetCondition_def u st Some cs')
    from updateStatus_status [OF this] show thesis using conditions cs' up st s by simp
  qed
qed

interpretation status_report: condition_report "Initialize U K T" "SetCondition U K T" status_view
  for U K T
proof unfold_locales
  fix gs and s s' :: "feedback \<times> 'a" and r
  assume i: "Initialize U K T gs s = (r, s')" and p: "\<forall>p. r \<noteq> Panic p"
  obtain f w f' w' where s: "s = (f, w)" "s' = (f', w')" by fastforce
  obtain cs w1 where k: "kept_conditions T (availableOldConditions (old_conditions f)) gs w = (cs, w1)"
    and f': "fb_currentStatus f' = Some \<lparr>stt_Conditions = slice cs\<rparr>"
    using Initialize_current [of U K T gs f w r f' w'] i p s by auto
  have "map sc_Name cs = gs" by (rule kept_conditions_names [OF k])
  then show "map fst (status_view s') = gs" by (auto simp: s f' status_view_def)
next
  fix n v and s s' :: "feedback \<times> 'a" and r
  assume c: "SetCondition U K T n v s = (r, s')" and p: "\<forall>p. r \<noteq> Panic p"
  obtain f w f' w' where s: "s = (f, w)" "s' = (f', w')" by fastforce
  have "SetCondition U K T n v (f, w) = (r, (f', w'))" using c s by simp
  then show "status_view s' = map (\<lambda>(k, c). (k, if k = n then v else c)) (status_view s)"
    using p by (cases rule: SetCondition_current) (simp_all add: s status_view_def set_conditions_view)
qed

section \<open>Correctness of the status\<close>

text \<open>
  C32: Initializing makes one condition for each group, in order: the condition that the object
  already had under the name (the last one, should there be several), with its status and time,
  or else a new one that is not started. This holds whether or not the request succeeds.
\<close>

theorem initialize_keeps_old_conditions:
  assumes "Initialize U K T groups (f, w) = (r, (f', w'))" "\<forall>p. r \<noteq> Panic p"
  shows "\<exists>cs. fb_currentStatus f' = Some \<lparr>stt_Conditions = slice cs\<rparr> \<and>
    list_all2 (\<lambda>g c. case find (\<lambda>c. sc_Name c = g) (rev (old_conditions f)) of
        Some old \<Rightarrow> c = old
      | None \<Rightarrow> sc_Name c = g \<and> sc_CurrentStatus c = ''Not Started'') groups cs"
proof -
  obtain cs w1 where k: "kept_conditions T (availableOldConditions (old_conditions f)) groups w = (cs, w1)"
    and f': "fb_currentStatus f' = Some \<lparr>stt_Conditions = slice cs\<rparr>"
    using Initialize_current [OF assms] by blast
  have find: "availableOldConditions xs g = find (\<lambda>c. sc_Name c = g) (rev xs)" for xs g
  proof -
    have "map_of (map (\<lambda>c. (sc_Name c, c)) ys) g = find (\<lambda>c. sc_Name c = g) ys" for ys
      by (induction ys) auto
    then show ?thesis by (simp add: availableOldConditions_conv rev_map)
  qed
  show ?thesis
    using kept_conditions_spec [OF k] f' by (auto simp: kept_or_fresh_def [abs_def] find)
qed

text \<open>A status object with one condition, and a clock, for the witnesses.\<close>

definition sample_clock :: "sworld clock" where
  "sample_clock =
     \<lparr>now = (\<lambda>w. (\<lparr>tm_Sec = 62135596800, tm_Nsec = 7, tm_Monotonic = Some 42\<rparr>, w)),
      time_json = (\<lambda>t. VStr ''1970-01-01T00:00:00Z'')\<rparr>"

definition sample_condition :: "string \<Rightarrow> string \<Rightarrow> gov" where
  "sample_condition n s =
     VObj [(''lastTransitionTime'', VStr ''1970-01-01T00:00:00Z''), (''name'', VStr n),
           (''currentStatus'', VStr s)]"

definition sample_status_obj :: "gov list \<Rightarrow> obj" where
  "sample_status_obj cs =
     [(''apiVersion'', VStr ''v1''), (''kind'', VStr ''Service''),
      (''metadata'', VObj [(''name'', VStr ''db''), (''namespace'', VStr ''ns'')]),
      (''status'', VObj [(''conditions'', VArr cs)])]"

definition epoch :: gotime where
  "epoch = \<lparr>tm_Sec = 62135596800, tm_Nsec = 0, tm_Monotonic = None\<rparr>"

lemma parse_epoch [simp]: "parse_rfc3339 ''1970-01-01T00:00:00Z'' = Some epoch"
  by (simp add: parse_rfc3339_def atoi_def getnum_def skip_def in_range_def parse_fraction_def
      parse_zone_def unix_days_def days_before_year_def month_lengths_def is_digit_def digit_val_def
      leap_def epoch_def Let_def)

lemma sample_feedback:
  "NewFeedback sample_ulib (NewClient sample_cfg) (sample_status_obj [sample_condition ''a'' s]) =
     \<lparr>fb_client = NewClient sample_cfg,
      fb_oldStatus = Some \<lparr>stt_Conditions =
        Some [\<lparr>sc_LastTransitionTime = epoch, sc_Name = ''a'', sc_CurrentStatus = s\<rparr>]\<rparr>,
      fb_currentStatus = None, fb_obj = Some (sample_status_obj [sample_condition ''a'' s])\<rparr>"
  by (simp add: NewFeedback_def extractStatus_def extractStatusCondition_def getNestedString_def
      sample_status_obj_def sample_condition_def sample_ulib_eval)

lemmas feedback_eval = Initialize_def initializeStatus_def old_conditions_def
  availableOldConditions_def updateStatus_def SetCondition_def sample_clock_def
  StatusConditionNotStarted_def ClientForUnstructured_def ClientFor_def newForConfig_def
  setConfigDefaults_def status_request_def

theorem initialize_keeps_old_conditions_witness:
  "\<exists>f' w' cs. Initialize sample_ulib sample_kube sample_clock [''a'', ''b'']
      (NewFeedback sample_ulib (NewClient sample_cfg) (sample_status_obj [sample_condition ''a'' ''Finished'']),
       empty_world) = (Ok (), (f', w')) \<and>
    fb_currentStatus f' = Some \<lparr>stt_Conditions = slice cs\<rparr> \<and>
    map sc_CurrentStatus cs = [''Finished'', ''Not Started'']"
proof -
  let ?f = "NewFeedback sample_ulib (NewClient sample_cfg) (sample_status_obj [sample_condition ''a'' ''Finished''])"
  obtain f' w' where i: "Initialize sample_ulib sample_kube sample_clock [''a'', ''b''] (?f, empty_world) =
      (Ok (), (f', w'))"
    unfolding sample_feedback
    by (simp add: feedback_eval sample_kube_def sample_status_obj_def sample_ulib_eval)
  show ?thesis
    using initialize_keeps_old_conditions [OF i] i
    by (auto simp: sample_feedback old_conditions_def list_all2_Cons1)
qed

text \<open>
  An object whose conditions are already those of the groups is left alone: initializing
  neither sends a request nor reads the clock, and the status is the one that was there.
\<close>

theorem unchanged_status_not_written:
  assumes old: "fb_oldStatus f = Some \<lparr>stt_Conditions = Some cs\<rparr>"
    and cs: "distinct (map sc_Name cs)" "cs \<noteq> []" and obj: "fb_obj f \<noteq> None"
  shows "Initialize U K T (map sc_Name cs) (f, w) = (Ok (), (f\<lparr>fb_currentStatus := fb_oldStatus f\<rparr>, w))"
proof -
  let ?av = "availableOldConditions cs"
  have av: "?av (sc_Name c) = Some c" if "c \<in> set cs" for c
    using that cs(1) unfolding availableOldConditions_conv
    by (intro map_of_is_SomeI) (auto simp: rev_map [symmetric] comp_def)
  have "kept_conditions T ?av (map sc_Name cs) w = (map (the \<circ> ?av) (map sc_Name cs), w)"
    by (rule kept_conditions_all) (simp add: av)
  also have "map (the \<circ> ?av) (map sc_Name cs) = cs"
    using av by (simp add: map_idI)
  finally show ?thesis
    using old cs(2) obj
    by (simp add: Initialize_def initializeStatus_conv old_conditions_def updateStatus_def)
qed

theorem unchanged_status_not_written_witness:
  "\<exists>f'. Initialize sample_ulib sample_kube sample_clock [''a'']
      (NewFeedback sample_ulib (NewClient sample_cfg) (sample_status_obj [sample_condition ''a'' ''Finished'']),
       empty_world) = (Ok (), (f', empty_world))"
proof -
  let ?f = "NewFeedback sample_ulib (NewClient sample_cfg) (sample_status_obj [sample_condition ''a'' ''Finished''])"
  have f: "fb_oldStatus ?f = Some \<lparr>stt_Conditions = Some
      [\<lparr>sc_LastTransitionTime = epoch, sc_Name = ''a'', sc_CurrentStatus = ''Finished''\<rparr>]\<rparr>" "fb_obj ?f \<noteq> None"
    by (simp_all add: sample_feedback)
  from unchanged_status_not_written [OF f(1) _ _ f(2), of sample_ulib sample_kube sample_clock empty_world]
  show ?thesis by simp
qed

text \<open>
  C33: Setting a condition to a status that it does not have always sends a request with the new
  conditions, also when the status was the one at the server, because the new condition has a
  time with a monotonic reading, which no time read from the object has.
\<close>

theorem changed_condition_is_written:
  assumes clk: "clock_law T"
    and old: "\<forall>c \<in> set (old_conditions f). tm_Monotonic (sc_LastTransitionTime c) = None"
    and cur: "fb_currentStatus f = Some \<lparr>stt_Conditions = Some cs\<rparr>"
    and ch: "\<exists>c \<in> set cs. sc_Name c = n \<and> sc_CurrentStatus c \<noteq> v"
    and run: "SetCondition U K T n v (f, w) = (Ok (), (f', w'))"
  shows "\<exists>cs' u c w1 w2 o'. list_all2 (set_to T n v) cs cs' \<and>
    fb_currentStatus f' = Some \<lparr>stt_Conditions = Some cs'\<rparr> \<and> fb_obj f = Some u \<and>
    ClientForUnstructured U K (fb_client f) u w1 = (Inr c, w2) \<and>
    k_UpdateStatus K (rc_target c)
      (status_request U T u (Some \<lparr>stt_Conditions = Some cs'\<rparr>)) w2 = (Inr o', w')"
proof -
  obtain cs' w1 where set: "set_conditions T n v cs w = (cs', w1)"
    and f': "fb_currentStatus f' = Some \<lparr>stt_Conditions = Some cs'\<rparr>"
    and up: "updateStatus U K T (f\<lparr>fb_currentStatus := Some \<lparr>stt_Conditions = Some cs'\<rparr>\<rparr>, w1) =
      (Ok (), (f', w'))"
    by (rule SetCondition_current [OF run]) (use cur in auto)
  have fr: "list_all2 (set_to T n v) cs cs'" by (rule set_conditions_frame [OF set])
  obtain i where i: "i < length cs" "sc_Name (cs ! i) = n" "sc_CurrentStatus (cs ! i) \<noteq> v"
    using ch by (auto simp: in_set_conv_nth)
  with fr have "cs' ! i \<in> set cs'" "set_to T n v (cs ! i) (cs' ! i)"
    by (simp_all add: list_all2_conv_all_nth)
  moreover from this(2) have "tm_Monotonic (sc_LastTransitionTime (cs' ! i)) \<noteq> None"
    using i clk by (auto simp: clock_law_def set_to_def)
  ultimately have "fb_oldStatus f \<noteq> Some \<lparr>stt_Conditions = Some cs'\<rparr>"
    using old by (auto simp: old_conditions_def)
  then show ?thesis
    using up fr f' by (auto simp: updateStatus_def split: option.splits prod.splits sum.splits)
qed

theorem changed_condition_is_written_witness:
  "\<exists>f' w'. SetCondition sample_ulib sample_kube sample_clock ''a'' ''Finished''
      (NewFeedback sample_ulib (NewClient sample_cfg) (sample_status_obj [sample_condition ''a'' ''Not Started''])
         \<lparr>fb_currentStatus := Some \<lparr>stt_Conditions =
            Some [\<lparr>sc_LastTransitionTime = epoch, sc_Name = ''a'', sc_CurrentStatus = ''Not Started''\<rparr>]\<rparr>\<rparr>,
       empty_world) = (Ok (), (f', w')) \<and> w' = sw_logged ''update status'' empty_world"
proof -
  let ?cs = "[\<lparr>sc_LastTransitionTime = epoch, sc_Name = ''a'', sc_CurrentStatus = ''Not Started''\<rparr>]"
  let ?f = "NewFeedback sample_ulib (NewClient sample_cfg) (sample_status_obj [sample_condition ''a'' ''Not Started''])
     \<lparr>fb_currentStatus := Some \<lparr>stt_Conditions = Some ?cs\<rparr>\<rparr>"
  obtain f' w' where run: "SetCondition sample_ulib sample_kube sample_clock ''a'' ''Finished'' (?f, empty_world) =
      (Ok (), (f', w'))"
    unfolding sample_feedback
    by (simp add: feedback_eval sample_kube_def sample_status_obj_def sample_ulib_eval epoch_def)
  have clk: "clock_law sample_clock" by (simp add: clock_law_def sample_clock_def)
  have old: "\<forall>c \<in> set (old_conditions ?f). tm_Monotonic (sc_LastTransitionTime c) = None"
    by (simp add: sample_feedback old_conditions_def epoch_def)
  have "\<exists>u c w1 w2 o'. ClientForUnstructured sample_ulib sample_kube (fb_client ?f) u w1 = (Inr c, w2) \<and>
      k_UpdateStatus sample_kube (rc_target c) o' w2 = (Inr o', w')"
    using changed_condition_is_written [OF clk old _ _ run, of ?cs] by (auto simp: sample_kube_def)
  moreover have "w' = sw_logged ''update status'' empty_world"
    using run unfolding sample_feedback
    by (simp add: feedback_eval sample_kube_def sample_status_obj_def sample_ulib_eval epoch_def)
  ultimately show ?thesis using run by blast
qed

definition nested_law :: "ulib \<Rightarrow> bool" where
  "nested_law U \<longleftrightarrow>
     (\<forall>u k m k' v. map_of u k = Some (VObj m) \<and> map_of m k' = Some v \<longrightarrow>
        nestedFieldNoCopy U u [k, k'] = Inr (Some v)) \<and>
     (\<forall>m k s. map_of m k = Some (VStr s) \<longrightarrow> nestedString U m [k] = Inr (Some s))"

definition whole_second :: "gotime \<Rightarrow> gotime" where
  "whole_second t = \<lparr>tm_Sec = tm_Sec t, tm_Nsec = 0, tm_Monotonic = None\<rparr>"

lemma extract_conditions_map:
  assumes N: "nested_law U"
    and t: "\<forall>c \<in> set cs. \<exists>s. time_json T (sc_LastTransitionTime c) = VStr s \<and>
      parse_rfc3339 s = Some (whole_second (sc_LastTransitionTime c))"
  shows "extract_conditions U (map (condition_json T) cs) =
    Some (map (\<lambda>c. c\<lparr>sc_LastTransitionTime := whole_second (sc_LastTransitionTime c)\<rparr>) cs)"
  using t
proof (induction cs)
  case (Cons c cs)
  obtain s where s: "time_json T (sc_LastTransitionTime c) = VStr s"
    "parse_rfc3339 s = Some (whole_second (sc_LastTransitionTime c))"
    using Cons.prems by auto
  have str: "map_of m k = Some (VStr x) \<Longrightarrow> nestedString U m [k] = Inr (Some x)" for m k x
    using N by (simp add: nested_law_def)
  show ?case
    using Cons s by (simp add: condition_json_def extractStatusCondition_def getNestedString_def str)
qed simp

text \<open>
  C31: A status that was written is read back: the conditions that \<^verbatim>\<open>extractStatus\<close> finds in the
  object of a status request are those of the status, in order, with names and statuses; of the
  times the seconds remain. Hypotheses: the nested getters find what is there, and the encoding of
  each time is parsed to the same second.
\<close>

theorem written_status_is_read_back:
  assumes N: "nested_law U"
    and t: "\<forall>c \<in> set cs. \<exists>s. time_json T (sc_LastTransitionTime c) = VStr s \<and>
      parse_rfc3339 s = Some (whole_second (sc_LastTransitionTime c))"
  shows "extractStatus U (status_request U T u (Some \<lparr>stt_Conditions = Some cs\<rparr>)) =
    Some \<lparr>stt_Conditions =
      Some (map (\<lambda>c. c\<lparr>sc_LastTransitionTime := whole_second (sc_LastTransitionTime c)\<rparr>) cs)\<rparr>"
proof -
  have field: "nestedFieldNoCopy U x [k, k'] = Inr (Some v)"
    if "map_of x k = Some (VObj m)" "map_of m k' = Some v" for x k m k' v
    using N that by (simp add: nested_law_def)
  have "nestedFieldNoCopy U (status_request U T u (Some \<lparr>stt_Conditions = Some cs\<rparr>))
      [''status'', ''conditions''] = Inr (Some (VArr (map (condition_json T) cs)))"
    by (rule field, simp add: status_request_def status_json_def, simp)
  then show ?thesis using extract_conditions_map [OF assms] by (simp add: extractStatus_def)
qed

lemma sample_nested_law: "nested_law sample_ulib"
  by (simp add: nested_law_def sample_ulib_eval)

theorem written_status_is_read_back_witness:
  "extractStatus sample_ulib (status_request sample_ulib sample_clock (sample_status_obj [])
     (Some \<lparr>stt_Conditions = Some
       [\<lparr>sc_LastTransitionTime = epoch\<lparr>tm_Nsec := 9, tm_Monotonic := Some 1\<rparr>, sc_Name = ''a'',
         sc_CurrentStatus = ''Finished''\<rparr>]\<rparr>)) =
   Some \<lparr>stt_Conditions = Some
     [\<lparr>sc_LastTransitionTime = epoch, sc_Name = ''a'', sc_CurrentStatus = ''Finished''\<rparr>]\<rparr>"
  by (subst written_status_is_read_back [OF sample_nested_law])
    (simp_all add: sample_clock_def whole_second_def epoch_def)

end
