(* ===== verification/Deepcopy.thy ===== *)
theory Deepcopy
  imports Feedback
begin

text \<open>
  The generated deep copies of feedback/deepcopy\_generated.go, on a store of status conditions: an
  address is an index, \<^verbatim>\<open>new\<close> appends, and nil is \<open>None\<close>. Everywhere else conditions are values, because
  no condition is changed after it was made.
\<close>

type_synonym condition_store = "status_condition list"

text \<open>
  \<^verbatim>\<open>*out = *in\<close> copies the struct, and the method of \<^verbatim>\<open>metav1.Time\<close> then assigns the time once more.
\<close>

definition DeepCopyInto :: "nat option \<Rightarrow> nat option \<Rightarrow> (condition_store, unit) io" where
  "DeepCopyInto from to H =
     (case (from, to) of
        (Some p, Some q) \<Rightarrow>
          if p < length H \<and> q < length H
          then (let H1 = H[q := H ! p];
                    H2 = H1[q := (H1 ! q)\<lparr>sc_LastTransitionTime := sc_LastTransitionTime (H1 ! p)\<rparr>]
                in (Ok (), H2))
          else (Panic NilDereference, H)
      | _ \<Rightarrow> (Panic NilDereference, H))"

definition new_condition :: "condition_store \<Rightarrow> nat \<times> condition_store" where
  "new_condition H =
     (length H, H @ [\<lparr>sc_LastTransitionTime = zero_time, sc_Name = '''', sc_CurrentStatus = ''''\<rparr>])"

definition DeepCopy :: "nat option \<Rightarrow> (condition_store, nat option) io" where
  "DeepCopy from H =
     (case from of
        None \<Rightarrow> (Ok None, H)
      | Some p \<Rightarrow>
          (let (out, H1) = new_condition H in
           andThen (DeepCopyInto (Some p) (Some out) H1) (\<lambda>_ H2. (Ok (Some out), H2))))"

text \<open>
  The copy of a condition is equal to it and lives at an address of its own: what was there stays as it
  was, and a later write through the copy does not reach the original.
\<close>

theorem deep_copy_is_separate:
  assumes "p < length H"
  shows "\<exists>q H'. DeepCopy (Some p) H = (Ok (Some q), H') \<and> q \<ge> length H \<and> H' ! q = H ! p \<and>
    (\<forall>i < length H. H' ! i = H ! i) \<and> (\<forall>c. H'[q := c] ! p = H ! p)"
  using assms
  by (auto simp: DeepCopy_def DeepCopyInto_def new_condition_def nth_append Let_def list_update_append)

theorem deep_copy_is_separate_witness:
  "\<exists>q H'. DeepCopy (Some 0) [\<lparr>sc_LastTransitionTime = zero_time, sc_Name = ''g'', sc_CurrentStatus = ''Finished''\<rparr>] =
     (Ok (Some q), H') \<and> sc_Name (H' ! q) = ''g''"
  using deep_copy_is_separate
    [of 0 "[\<lparr>sc_LastTransitionTime = zero_time, sc_Name = ''g'', sc_CurrentStatus = ''Finished''\<rparr>]"]
  by fastforce

end
