(* ===== verification/Rollout.thy ===== *)
theory Rollout
  imports Actions Checks Feedback
begin

text \<open>
  The rollout runner of rollout/rollout.go: rendering, the groups in order, the steps of a group
  one after the other or in parallel, the action and the checks of a step, the feedback, and the
  metrics. The steps of a parallel group are run one at a time here, in an order chosen by the
  scheduler. The theory WaitGroup has the interleaving of their goroutines, and Interference what may
  happen between the requests of an action.
\<close>

section \<open>Environment and runner\<close>

text \<open>
  Everything outside the repository that a rollout uses. \<open>e_Schedule w n\<close> is the order in which \<open>n\<close>
  goroutines started together run; \<open>e_Encode\<close> writes a result to standard output as JSON.
\<close>

record 'w env =
  e_U :: ulib
  e_K :: "'w kube"
  e_J :: jplib
  e_R :: "'w rt"
  e_D :: "'w dblib"
  e_T :: "'w clock"
  e_Schedule :: "'w \<Rightarrow> nat \<Rightarrow> nat list"
  e_Encode :: "render_result \<Rightarrow> ('w, unit) eff"

definition schedule_law :: "'w env \<Rightarrow> bool" where
  "schedule_law E \<longleftrightarrow> (\<forall>w n. mset (e_Schedule E w n) = mset [0..<n])"

text \<open>
  The configuration that a trigger passes to an execution: the raw bytes, and the feedback when
  the status is to be written. The configuration is a pointer; what an execution changes of it is
  seen by the caller.
\<close>

record config =
  cf_RawConfig :: string
  cf_Feedback :: "feedback option"

record metrics =
  mt_executionDuration :: nat  \<comment> \<open>the number of observations\<close>
  mt_executions :: nat
  mt_executionsFailed :: nat

record 'w runner =
  rn_client :: client
  rn_actions :: "string \<rightharpoonup> 'w objectAction"
  rn_checks :: "'w checks"
  rn_provider :: "string \<Rightarrow> ('w, render_result) io"
  rn_renderOnly :: bool

fun must_register :: "'w dblib \<Rightarrow> string list \<Rightarrow> ('w, unit) io" where
  "must_register D [] w = (Ok (), w)"
| "must_register D (n # ns) w =
     (let (free, w1) = dl_Register D n w in
      if free then must_register D ns w1 else (Panic DuplicateRegistration, w1))"

definition NewRunner ::
  "'w dblib \<Rightarrow> client \<Rightarrow> (string \<Rightarrow> ('w, render_result) io) \<Rightarrow> 'w checks \<Rightarrow> bool \<Rightarrow> ('w, 'w runner) io" where
  "NewRunner D cl renderer cs renderOnly w =
     andThen (must_register D [''rollout_execution_duration_seconds'', ''rollout_executions_total'',
         ''rollout_executions_failed_total''] w)
       (\<lambda>_ w1. (Ok \<lparr>rn_client = cl, rn_actions = Map.empty, rn_checks = cs, rn_provider = renderer,
          rn_renderOnly = renderOnly\<rparr>, w1))"

definition SetObjectActions :: "'w runner \<Rightarrow> 'w objectAction list \<Rightarrow> 'w runner" where
  "SetObjectActions r actions =
     r\<lparr>rn_actions := foldl (\<lambda>m a. m(oa_Name a \<mapsto> a)) (rn_actions r) actions\<rparr>"

section \<open>Actions\<close>

text \<open>A call that may change the object it is given, and the world.\<close>

type_synonym 'w on_obj = "obj \<Rightarrow> 'w \<Rightarrow> unit outcome \<times> obj \<times> 'w"

definition executeSingleAction :: "'w env \<Rightarrow> 'w runner \<Rightarrow> string \<Rightarrow> 'w on_obj" where
  "executeSingleAction E r actionName u w =
     (case rn_actions r actionName of
        None \<Rightarrow> (Err (UnknownAction actionName), u, w)
      | Some action \<Rightarrow>
          (case ClientForUnstructured (e_U E) (e_K E) (rn_client r) u w of
             (Inl e, w1) \<Rightarrow> (Err e, u, w1)
           | (Inr rc, w1) \<Rightarrow>
               (let (x, u', w2) = oa_Execute action (e_U E) (e_K E) rc u w1 in (of_sum x, u', w2))))"

text \<open>
  \<^verbatim>\<open>EachListItem\<close>: the function is called on each item in order, until it fails. The items share
  storage with the list.
\<close>

fun each_item :: "go_error \<Rightarrow> 'w on_obj \<Rightarrow> gov list \<Rightarrow> 'w \<Rightarrow> unit outcome \<times> gov list \<times> 'w" where
  "each_item notObject f [] w = (Ok (), [], w)"
| "each_item notObject f (x # xs) w =
     (case x of
        VObj m \<Rightarrow>
          (let (r, m', w1) = f m w in
           if r = Ok () then
             (let (r', xs', w2) = each_item notObject f xs w1 in (r', VObj m' # xs', w2))
           else (r, VObj m' # xs, w1))
      | _ \<Rightarrow> (Err notObject, x # xs, w))"

text \<open>
  The recursion over nested lists. The first argument bounds its depth; \<open>executeAction\<close> gives the
  size of the object, which is enough because an item is smaller than the list that holds it.
\<close>

fun executeAction_rec :: "nat \<Rightarrow> 'w env \<Rightarrow> 'w runner \<Rightarrow> string \<Rightarrow> 'w on_obj" where
  "executeAction_rec 0 E r actionName u w = (Diverge, u, w)"
| "executeAction_rec (Suc n) E r actionName u w =
     (if isList (e_U E) u then
        (let (x, items, w1) =
               each_item (itemNotObject (e_U E)) (executeAction_rec n E r actionName)
                 (listItems (e_U E) u) w
         in (x, setListItems (e_U E) u items, w1))
      else executeSingleAction E r actionName u w)"

definition executeAction :: "'w env \<Rightarrow> 'w runner \<Rightarrow> string \<Rightarrow> 'w on_obj" where
  "executeAction E r actionName u w = executeAction_rec (size (VObj u)) E r actionName u w"

section \<open>Steps and groups\<close>

definition runStep :: "'w env \<Rightarrow> 'w runner \<Rightarrow> step \<Rightarrow> (objects \<times> 'w, unit) io" where
  "runStep E r s st =
     (let (objs, w) = st in
      case objs (st_Object s) of
        None \<Rightarrow> (Err (ObjectNotFound (st_Object s)), objs, w)
      | Some u \<Rightarrow>
          (let (x, u', w1) = executeAction E r (st_Action s) u w;
               objs' = objs(st_Object s \<mapsto> u')
           in andThen (on_err (ActionFailed (st_Action s)) (x, (objs', w1))) (\<lambda>_ _.
                let (y, w2) = RunChecks (e_U E) (e_K E) (e_J E) (e_R E) (e_D E) (rn_checks r)
                      (st_Success s) u' w1
                in (y, objs', w2))))"

fun run_sequential :: "'w env \<Rightarrow> 'w runner \<Rightarrow> step list \<Rightarrow> (objects \<times> 'w, unit) io" where
  "run_sequential E r [] st = (Ok (), st)"
| "run_sequential E r (s # ss) st =
     (case runStep E r s st of
        (Err e, st1) \<Rightarrow>
          (if st_ContinueOnError s then run_sequential E r ss st1 else (Err (RunStepFailed e), st1))
      | (Ok _, st1) \<Rightarrow> run_sequential E r ss st1
      | (x, st1) \<Rightarrow> (x, st1))"

text \<open>
  The goroutines of a parallel group, in the order in which they run. Each appends its error; a
  panic in one ends the process, and one that does not return keeps \<^verbatim>\<open>wg.Wait\<close> from returning.
\<close>

fun run_parallel ::
  "'w env \<Rightarrow> 'w runner \<Rightarrow> step list \<Rightarrow> go_error list \<Rightarrow> (objects \<times> 'w, go_error list) io" where
  "run_parallel E r [] errs st = (Ok errs, st)"
| "run_parallel E r (s # ss) errs st =
     (case runStep E r s st of
        (Err e, st1) \<Rightarrow> run_parallel E r ss (errs @ [e]) st1
      | (Ok _, st1) \<Rightarrow> run_parallel E r ss errs st1
      | (Panic p, st1) \<Rightarrow> (Panic p, st1)
      | (Diverge, st1) \<Rightarrow> (Diverge, st1))"

definition run_group :: "'w env \<Rightarrow> 'w runner \<Rightarrow> rolloutGroup \<Rightarrow> (objects \<times> 'w, unit) io" where
  "run_group E r g st =
     (if gr_Parallel g then
        andThen (run_parallel E r
            (map (\<lambda>i. gr_Steps g ! i) (e_Schedule E (snd st) (length (gr_Steps g)))) [] st)
          (\<lambda>errs st1. if errs \<noteq> [] then (Err (FailedToRunStep errs), st1) else (Ok (), st1))
      else run_sequential E r (gr_Steps g) st)"

section \<open>Executing a rollout\<close>

text \<open>The feedback, when there is one, is told about each group that is finished.\<close>

definition report_finished ::
  "'w env \<Rightarrow> rolloutGroup \<Rightarrow> (feedback option \<times> 'w, unit) io" where
  "report_finished E g st =
     (case st of
        (None, w) \<Rightarrow> (Ok (), None, w)
      | (Some f, w) \<Rightarrow>
          (let (x, f', w') = SetCondition (e_U E) (e_K E) (e_T E) (gr_Name g) StatusConditionFinished (f, w)
           in (x, Some f', w')))"

fun run_groups ::
  "'w env \<Rightarrow> 'w runner \<Rightarrow> rolloutGroup list \<Rightarrow> (objects \<times> feedback option \<times> 'w, unit) io" where
  "run_groups E r [] st = (Ok (), st)"
| "run_groups E r (g # gs) (objs, fb, w) =
     (let (x, objs1, w1) = run_group E r g (objs, w) in
      andThen (x, (objs1, fb, w1)) (\<lambda>_ _.
        let (y, fb2, w2) = report_finished E g (fb, w1) in
        andThen (y, (objs1, fb2, w2)) (\<lambda>_ st. run_groups E r gs st)))"

definition initialize_feedback ::
  "'w env \<Rightarrow> string list \<Rightarrow> (feedback option \<times> 'w, unit) io" where
  "initialize_feedback E groups st =
     (case st of
        (None, w) \<Rightarrow> (Ok (), None, w)
      | (Some f, w) \<Rightarrow>
          (let (x, f', w') = Initialize (e_U E) (e_K E) (e_T E) groups (f, w)
           in on_err InitializeFeedback (x, (Some f', w'))))"

text \<open>
  The groups of a result are \<^verbatim>\<open>res.Rollout.Spec.Groups\<close>; either pointer may be nil.
\<close>

definition result_groups :: "render_result \<Rightarrow> rolloutGroup list option" where
  "result_groups res =
     (case rr_Rollout res of None \<Rightarrow> None
      | Some ro \<Rightarrow> map_option sp_Groups (ro_Spec ro))"

definition roll_out ::
  "'w env \<Rightarrow> 'w runner \<Rightarrow> render_result \<Rightarrow> (feedback option \<times> 'w, unit) io" where
  "roll_out E r res st =
     (case result_groups res of
        None \<Rightarrow> (Panic NilDereference, st)
      | Some groups \<Rightarrow>
          andThen (initialize_feedback E (map gr_Name groups) st) (\<lambda>_ (fb, w).
            let (x, objs, st1) = run_groups E r groups (rr_Objects res, fb, w) in (x, st1)))"

definition execute_body ::
  "'w env \<Rightarrow> 'w runner \<Rightarrow> string \<Rightarrow> (feedback option \<times> 'w, unit) io" where
  "execute_body E r rawConfig st =
     (let (fb, w) = st; (x, w1) = rn_provider r rawConfig w in
      andThen (on_err RenderFailed (x, (fb, w1))) (\<lambda>res st1.
        if rn_renderOnly r then (let (y, w2) = e_Encode E res w1 in (of_sum y, fb, w2))
        else roll_out E r res st1))"

text \<open>
  The state of the process: the world and the metrics. The deferred function counts the execution
  when the body returns or panics; the named result is nil during a panic.
\<close>

record 'w proc =
  pr_world :: 'w
  pr_metrics :: metrics

definition count_execution :: "unit outcome \<Rightarrow> metrics \<Rightarrow> metrics" where
  "count_execution x m =
     (if x = Diverge then m
      else m\<lparr>mt_executionDuration := mt_executionDuration m + 1, mt_executions := mt_executions m + 1,
             mt_executionsFailed := mt_executionsFailed m + (if is_Err x then 1 else 0)\<rparr>)"

type_synonym 's execution = "config option \<Rightarrow> 's \<Rightarrow> unit outcome \<times> config option \<times> 's"

definition Execute :: "'w env \<Rightarrow> 'w runner \<Rightarrow> 'w proc execution" where
  "Execute E r rolloutConfig p =
     (let rawConfig = (case rolloutConfig of None \<Rightarrow> '''' | Some c \<Rightarrow> cf_RawConfig c);
          fb = (case rolloutConfig of None \<Rightarrow> None | Some c \<Rightarrow> cf_Feedback c);
          (x, fb', w') = execute_body E r rawConfig (fb, pr_world p)
      in (x, map_option (\<lambda>c. c\<lparr>cf_Feedback := fb'\<rparr>) rolloutConfig,
          \<lparr>pr_world = w', pr_metrics = count_execution x (pr_metrics p)\<rparr>))"

end
