(* ===== verification/Rollout_Actions.thy ===== *)
theory Rollout_Actions
  imports Rollout Checks_Props Feedback_Props
begin

text \<open>
  The actions of a rollout on single objects and on nested lists: the recursion ends, visits the
  leaves in order, keeps the address of the objects, and changes nothing else at the server.
\<close>

section \<open>Leaves of an object\<close>

text \<open>
  The objects that a nested list consists of, from left to right; an element that is no object is
  \<open>None\<close>. \<open>run_leaves\<close> is the reference: the single action on one leaf after the other, until one
  fails.
\<close>

fun leaves_rec :: "nat \<Rightarrow> ulib \<Rightarrow> obj \<Rightarrow> obj option list" where
  "leaves_rec 0 U u = []"
| "leaves_rec (Suc n) U u =
     (if isList U u
      then concat (map (\<lambda>x. case x of VObj m \<Rightarrow> leaves_rec n U m | _ \<Rightarrow> [None]) (listItems U u))
      else [Some u])"

definition leaves :: "ulib \<Rightarrow> obj \<Rightarrow> obj option list" where
  "leaves U u = leaves_rec (size (VObj u)) U u"

fun run_leaves :: "go_error \<Rightarrow> 'w on_obj \<Rightarrow> obj option list \<Rightarrow> 'w \<Rightarrow> unit outcome \<times> 'w" where
  "run_leaves notObject f [] w = (Ok (), w)"
| "run_leaves notObject f (None # ls) w = (Err notObject, w)"
| "run_leaves notObject f (Some u # ls) w =
     (let (x, u', w1) = f u w in if x = Ok () then run_leaves notObject f ls w1 else (x, w1))"

lemma run_leaves_append:
  "run_leaves e f (ls @ ms) w =
     (let (x, w1) = run_leaves e f ls w in if x = Ok () then run_leaves e f ms w1 else (x, w1))"
  by (induction e f ls w rule: run_leaves.induct) (auto split: prod.splits)

lemma each_item_leaves:
  assumes "\<And>m w. VObj m \<in> set xs \<Longrightarrow>
      (let (x, m', w') = f m w in (x, w')) = run_leaves e g (h m) w"
  shows "(let (x, ys, w') = each_item e f xs w in (x, w')) =
    run_leaves e g (concat (map (\<lambda>x. case x of VObj m \<Rightarrow> h m | _ \<Rightarrow> [None]) xs)) w"
  using assms
proof (induction xs arbitrary: w)
  case (Cons x xs)
  have IH: "(let (x, ys, w') = each_item e f xs w in (x, w')) =
      run_leaves e g (concat (map (\<lambda>x. case x of VObj m \<Rightarrow> h m | _ \<Rightarrow> [None]) xs)) w" for w
    using Cons.IH Cons.prems by simp
  show ?case
  proof (cases x)
    case (VObj m)
    obtain a m' w1 where f: "f m w = (a, m', w1)" by (rule prod_cases3)
    then have h: "run_leaves e g (h m) w = (a, w1)" using Cons.prems [of m w] VObj by simp
    show ?thesis
      using IH [of w1] by (simp add: VObj f h run_leaves_append split: prod.splits)
  qed (simp_all)
qed simp

lemma executeAction_rec_leaves:
  assumes U: "ulib_ok (e_U E)" and n: "size (VObj u) \<le> n"
  shows "(let (x, u', w') = executeAction_rec n E r a u w in (x, w')) =
    run_leaves (itemNotObject (e_U E)) (executeSingleAction E r a) (leaves_rec n (e_U E) u) w"
  using n
proof (induction n arbitrary: u w)
  case (Suc n)
  show ?case
  proof (cases "isList (e_U E) u")
    case True
    have small: "size (VObj m) \<le> n" if "VObj m \<in> set (listItems (e_U E) u)" for m
      using ulib_okD(9) [OF U that] Suc.prems by simp
    have "(let (x, ys, w') = each_item (itemNotObject (e_U E)) (executeAction_rec n E r a)
          (listItems (e_U E) u) w in (x, w')) =
        run_leaves (itemNotObject (e_U E)) (executeSingleAction E r a) (leaves_rec (Suc n) (e_U E) u) w"
      using each_item_leaves [of "listItems (e_U E) u" "executeAction_rec n E r a"
          "itemNotObject (e_U E)" "executeSingleAction E r a" "leaves_rec n (e_U E)" w]
        Suc.IH small True by simp
    then show ?thesis using True by (simp split: prod.splits)
  qed (simp split: prod.splits)
qed simp

text \<open>
  C19: An action on an object is the single action on its leaves, in order, until the first failure:
  the same result, and the same requests. An element of a list that is no object is an error.
\<close>

theorem action_runs_leaves_in_order:
  assumes "ulib_ok (e_U E)"
  shows "(let (x, u', w') = executeAction E r a u w in (x, w')) =
    run_leaves (itemNotObject (e_U E)) (executeSingleAction E r a) (leaves (e_U E) u) w"
  using executeAction_rec_leaves [OF assms order_refl] by (simp add: executeAction_def leaves_def)

lemma executeSingleAction_result:
  "executeSingleAction E r a u w = (x, u', w') \<Longrightarrow> x = Ok () \<or> (\<exists>e. x = Err e)"
  by (auto simp: executeSingleAction_def split: option.splits prod.splits sum.splits)
    (metis of_sum.elims old.unit.exhaust)

lemma run_leaves_result:
  assumes "\<And>u w x u' w'. f u w = (x, u', w') \<Longrightarrow> x = Ok () \<or> (\<exists>e. x = Err e)"
  shows "fst (run_leaves e f ls w) = Ok () \<or> (\<exists>e'. fst (run_leaves e f ls w) = Err e')"
  using assms
proof (induction ls arbitrary: w)
  case (Cons l ls)
  show ?case
  proof (cases l)
    case (Some u)
    obtain x u' w1 where f: "f u w = (x, u', w1)" by (rule prod_cases3)
    show ?thesis
    proof (cases "x = Ok ()")
      case True
      then show ?thesis using Cons.IH [of w1] Cons.prems by (simp add: Some f)
    qed (use Cons.prems [OF f] in \<open>simp add: Some f\<close>)
  qed simp
qed simp

text \<open>
  C20: The recursion over nested lists ends: an action on any object returns, with success or an
  error, and never panics.
\<close>

theorem action_returns:
  assumes "ulib_ok (e_U E)"
  shows "fst (executeAction E r a u w) = Ok () \<or> (\<exists>e. fst (executeAction E r a u w) = Err e)"
proof -
  obtain x u' w' where x: "executeAction E r a u w = (x, u', w')" by (rule prod_cases3)
  have "(x, w') = run_leaves (itemNotObject (e_U E)) (executeSingleAction E r a) (leaves (e_U E) u) w"
    using executeAction_rec_leaves [OF assms order_refl, of u r a w] x
    by (simp add: executeAction_def leaves_def)
  then have "x = fst (run_leaves (itemNotObject (e_U E)) (executeSingleAction E r a) (leaves (e_U E) u) w)"
    by (simp add: prod_eq_iff)
  then show ?thesis
    using run_leaves_result [OF executeSingleAction_result] by (simp add: x)
qed

section \<open>What an action changes\<close>

text \<open>The runner as the program sets it up: the default actions, a client with the default preparations.\<close>

definition wired :: "'w runner \<Rightarrow> bool" where
  "wired r \<longleftrightarrow> (\<forall>n a. rn_actions r n = Some a \<longrightarrow> a \<in> set DefaultObjectActions) \<and>
     cl_updatePreparations (rn_client r) = DefaultUpdatePreparations"

lemma SetObjectActions_range:
  "rn_actions (SetObjectActions r as) n = Some a \<Longrightarrow> a \<in> set as \<or> rn_actions r n = Some a"
proof -
  have "foldl (\<lambda>m a. m(oa_Name a \<mapsto> a)) m as n = Some a \<Longrightarrow> a \<in> set as \<or> m n = Some a" for m
    by (induction as arbitrary: m) (fastforce split: if_splits)+
  then show "rn_actions (SetObjectActions r as) n = Some a \<Longrightarrow> a \<in> set as \<or> rn_actions r n = Some a"
    by (simp add: SetObjectActions_def)
qed

lemma wired_default:
  "rn_actions r = Map.empty \<Longrightarrow> cl_updatePreparations (rn_client r) = DefaultUpdatePreparations \<Longrightarrow>
   wired (SetObjectActions r DefaultObjectActions)"
  using SetObjectActions_range [of r DefaultObjectActions]
  by (auto simp: wired_def) (simp add: SetObjectActions_def)

text \<open>Discovery is a read.\<close>

definition discovery_law :: "'w kube \<Rightarrow> 'w view \<Rightarrow> bool" where
  "discovery_law K store \<longleftrightarrow> (\<forall>v w. store (snd (k_ServerResources K v w)) = store w)"

lemma ClientFor_store:
  "discovery_law K store \<Longrightarrow> ClientForUnstructured U K c u w = (x, w') \<Longrightarrow> store w' = store w"
  unfolding discovery_law_def ClientForUnstructured_def ClientFor_def
  by (auto split: prod.splits sum.splits) (metis snd_conv)+

lemma executeSingleAction_keeps:
  assumes U: "ulib_ok (e_U E)" and r: "wired r"
  shows "keeps (e_U E) u (fst (snd (executeSingleAction E r a u w)))"
proof -
  have "keeps (e_U E) u (fst (snd (oa_Execute act (e_U E) (e_K E) rc u w1)))"
    if "rn_actions r a = Some act" "ClientForUnstructured (e_U E) (e_K E) (rn_client r) u w = (Inr rc, w1)"
    for act rc w1
  proof (rule default_actions.acts_keep [OF _ U])
    show "act \<in> set DefaultObjectActions" using that(1) r by (simp add: wired_def)
    show "rc_updatePreparations rc = DefaultUpdatePreparations"
      using ClientFor_Inr(1) [OF that(2) [unfolded ClientForUnstructured_def]] r by (simp add: wired_def)
  qed
  then show ?thesis
    by (auto simp: executeSingleAction_def split: option.splits prod.splits sum.splits)
      (metis fst_conv snd_conv)
qed

lemma executeSingleAction_changes:
  assumes U: "ulib_ok (e_U E)" and K: "kube_ok (e_U E) (e_K E) store"
    and disc: "discovery_law (e_K E) store" and r: "wired r"
    and run: "executeSingleAction E r a u w = (x, u', w')" and ch: "store w' t n \<noteq> store w t n"
  shows "n = getName (e_U E) u \<and> tg_Namespace t = getNamespace (e_U E) u"
proof -
  obtain act where act: "rn_actions r a = Some act"
    using run ch by (auto simp: executeSingleAction_def split: option.splits)
  obtain rc w1 where c: "ClientForUnstructured (e_U E) (e_K E) (rn_client r) u w = (Inr rc, w1)"
    using run ch ClientFor_store [OF disc]
    by (auto simp: executeSingleAction_def act split: prod.splits sum.splits)
  note rc = ClientFor_Inr [OF c [unfolded ClientForUnstructured_def]]
  have w': "w' = snd (snd (oa_Execute act (e_U E) (e_K E) rc u w1))"
    using run by (auto simp: executeSingleAction_def act c split: prod.splits)
  have "act \<in> set DefaultObjectActions" and prep: "rc_updatePreparations rc = DefaultUpdatePreparations"
    using r act rc(1) by (auto simp: wired_def)
  then have "only_changes store (rc_target rc) (getName (e_U E) u) w1 w'"
    unfolding w' by (intro object_action.exec_local [OF default_actions.acts_contract] U K)
  moreover have "store w1 t n \<noteq> store w' t n" using ch ClientFor_store [OF disc c] by simp
  ultimately have "t = rc_target rc \<and> n = getName (e_U E) u"
    unfolding only_changes_def by (metis Pair_inject)
  then show ?thesis using rc(3) by simp
qed

lemma run_leaves_changes:
  assumes "\<And>u w x u' w'. f u w = (x, u', w') \<Longrightarrow> g w' \<noteq> g w \<Longrightarrow> Q u"
    and "run_leaves e f ls w = (x, w')" "g w' \<noteq> g w"
  shows "\<exists>u. Some u \<in> set ls \<and> Q u"
  using assms(2,3)
proof (induction ls arbitrary: w)
  case (Cons l ls)
  show ?case
  proof (cases l)
    case (Some u)
    obtain y u' w1 where f: "f u w = (y, u', w1)" by (rule prod_cases3)
    show ?thesis
    proof (cases "g w1 = g w")
      case True
      then have "run_leaves e f ls w1 = (x, w')" "g w' \<noteq> g w1"
        using Cons.prems by (auto simp: Some f split: if_splits)
      from Cons.IH [OF this] show ?thesis by (auto simp: Some)
    next
      case False
      then show ?thesis using assms(1) [OF f] by (auto simp: Some)
    qed
  qed (use Cons.prems in simp)
qed simp

text \<open>
  An action changes at the server only objects with the name and the namespace of a leaf of
  the object it is run on.
\<close>

lemma executeAction_changes:
  assumes U: "ulib_ok (e_U E)" and K: "kube_ok (e_U E) (e_K E) store"
    and disc: "discovery_law (e_K E) store" and r: "wired r"
    and run: "executeAction E r a u w = (x, u', w')" and ch: "store w' t n \<noteq> store w t n"
  shows "\<exists>v. Some v \<in> set (leaves (e_U E) u) \<and> n = getName (e_U E) v \<and>
    tg_Namespace t = getNamespace (e_U E) v"
proof -
  have "run_leaves (itemNotObject (e_U E)) (executeSingleAction E r a) (leaves (e_U E) u) w = (x, w')"
    using executeAction_rec_leaves [OF U order_refl, of u r a w] run
    by (simp add: executeAction_def leaves_def)
  from run_leaves_changes [of _ "\<lambda>w. store w t n", OF executeSingleAction_changes [OF U K disc r] this ch]
  show ?thesis .
qed

lemma executeAction_rec_keeps:
  "ulib_ok (e_U E) \<Longrightarrow> wired r \<Longrightarrow> keeps (e_U E) u (fst (snd (executeAction_rec n E r a u w)))"
  using executeSingleAction_keeps ulib_okD(10) by (cases n) (auto split: prod.splits)

text \<open>
  An action leaves the object in the rollout with the address that it was rendered with, so
  that the checks after it, and later steps for the same object, look at the object acted on.
\<close>

theorem action_keeps_address:
  assumes "ulib_ok (e_U E)" "wired r" "executeAction E r a u w = (x, u', w')"
  shows "ident (e_U E) u' = ident (e_U E) u"
  using executeAction_rec_keeps [OF assms(1,2), of u "size (VObj u)" a w] assms(3)
  by (simp add: executeAction_def keeps_def)

section \<open>A concrete environment\<close>

definition sample_env :: "sworld env" where
  "sample_env =
     \<lparr>e_U = sample_ulib, e_K = sample_kube, e_J = sample_jplib, e_R = sample_rt,
      e_D = sample_dead_dblib, e_T = sample_clock, e_Schedule = (\<lambda>w n. rev [0..<n]),
      e_Encode = (\<lambda>res w. (Inr (), sw_logged ''stdout'' w))\<rparr>"

definition sample_rollout_runner :: "render_result \<Rightarrow> sworld runner" where
  "sample_rollout_runner res =
     SetObjectActions
       \<lparr>rn_client = SetUpdatePreparations (NewClient sample_cfg) DefaultUpdatePreparations,
        rn_actions = Map.empty,
        rn_checks = \<lparr>cks_client = NewClient sample_cfg, cks_databaseConnections = None,
          cks_knownChecks = Map.empty\<rparr>,
        rn_provider = (\<lambda>c w. (Ok res, w)), rn_renderOnly = False\<rparr> DefaultObjectActions"

definition no_result :: render_result where
  "no_result = \<lparr>rr_Objects = Map.empty, rr_Rollout = None\<rparr>"

definition sample_list :: obj where
  "sample_list = [(''kind'', VStr ''List''), (''items'', VArr [VObj sample_service, VNil])]"

lemma sample_env_simps [simp]:
  "e_U sample_env = sample_ulib" "e_K sample_env = sample_kube" "e_T sample_env = sample_clock"
  "e_J sample_env = sample_jplib" "e_R sample_env = sample_rt" "e_D sample_env = sample_dead_dblib"
  by (simp_all add: sample_env_def)

lemma wired_sample: "wired (sample_rollout_runner res)"
  unfolding sample_rollout_runner_def by (rule wired_default) (simp_all add: SetUpdatePreparations_def)

lemma sample_discovery_law: "discovery_law sample_kube sw_store"
  by (simp add: discovery_law_def sample_kube_def)

lemma sample_leaves: "leaves sample_ulib sample_list = [Some sample_service, None]"
  by (simp add: leaves_def sample_list_def sample_service_def sample_ulib_def)

lemma sample_actions:
  "rn_actions (sample_rollout_runner res) ''CreateOrUpdate'' = Some CreateOrUpdateObjectAction"
  by (simp add: sample_rollout_runner_def SetObjectActions_def DefaultObjectActions_def
      CreateOrUpdateObjectAction_def CreateIfNotExistObjectAction_def DeleteIfExistsObjectAction_def)

lemma sample_notObject [simp]: "itemNotObject sample_ulib = LibError ''items member is not an object''"
  by (simp add: sample_ulib_def)

lemma executeAction_single:
  "\<not> isList (e_U E) u \<Longrightarrow> executeAction E r a u w = executeSingleAction E r a u w"
  by (simp add: executeAction_def)

lemma executeAction_sample_service:
  "executeAction sample_env r a sample_service w = executeSingleAction sample_env r a sample_service w"
  by (rule executeAction_single) (simp add: sample_ulib_def sample_service_def)

lemmas rollout_eval = executeSingleAction_def sample_actions ClientForUnstructured_def ClientFor_def
  newForConfig_def setConfigDefaults_def CreateOrUpdateObjectAction_def CreateOrUpdate_Execute_def

text \<open>Creating the sample service in an empty cluster.\<close>

lemma sample_create:
  "\<exists>t u' w'. executeSingleAction sample_env (sample_rollout_runner res) ''CreateOrUpdate'' sample_service
     empty_world = (Ok (), u', w') \<and> sw_store w' t ''web'' \<noteq> sw_store empty_world t ''web''"
  by (rule exI
      [of _ "\<lparr>tg_Config = \<lparr>cfg_Base = ''https'', cfg_GroupVersion = Some ([], ''v1''), cfg_APIPath = ''/api''\<rparr>,
        tg_Group = [], tg_Version = ''v1'', tg_Resource = ''services'', tg_Namespace = ''ns''\<rparr>"])
    (simp add: rollout_eval sample_eval sample_rollout_runner_def SetObjectActions_def
      SetUpdatePreparations_def NewClient_def DefaultObjectActions_def CreateIfNotExistObjectAction_def
      DeleteIfExistsObjectAction_def)

theorem action_runs_leaves_in_order_witness:
  "fst (executeAction sample_env (sample_rollout_runner no_result) ''CreateOrUpdate'' sample_list empty_world) =
     Err (LibError ''items member is not an object'')"
proof -
  let ?r = "sample_rollout_runner no_result"
  obtain x u' w' where x: "executeAction sample_env ?r ''CreateOrUpdate'' sample_list empty_world = (x, u', w')"
    by (rule prod_cases3)
  have U: "ulib_ok (e_U sample_env)" by (simp add: sample_ulib_ok)
  obtain v w1 where s: "executeSingleAction sample_env ?r ''CreateOrUpdate'' sample_service empty_world =
      (Ok (), v, w1)"
    using sample_create by blast
  have "(x, w') = run_leaves (LibError ''items member is not an object'')
      (executeSingleAction sample_env ?r ''CreateOrUpdate'') [Some sample_service, None] empty_world"
    using action_runs_leaves_in_order [OF U, of ?r "''CreateOrUpdate''" sample_list empty_world] x
    by (simp only: sample_leaves sample_env_simps sample_notObject) simp
  then show ?thesis using s x by simp
qed

theorem action_returns_witness:
  "fst (executeAction sample_env (sample_rollout_runner no_result) ''Unknown'' sample_list empty_world) \<noteq> Diverge"
  using action_returns [of sample_env "sample_rollout_runner no_result" "''Unknown''" sample_list empty_world]
  by (auto simp: sample_ulib_ok)

theorem action_keeps_address_witness:
  "\<exists>u' w'. executeAction sample_env (sample_rollout_runner no_result) ''CreateOrUpdate'' sample_service
      empty_world = (Ok (), u', w') \<and> ident sample_ulib u' = (''v1'', ''Service'', ''ns'', ''web'')"
proof -
  obtain u' w' where x: "executeAction sample_env (sample_rollout_runner no_result) ''CreateOrUpdate''
      sample_service empty_world = (Ok (), u', w')"
    using sample_create unfolding executeAction_sample_service by blast
  have "ident sample_ulib sample_service = (''v1'', ''Service'', ''ns'', ''web'')"
    by (simp add: ident_def sample_eval)
  then show ?thesis
    using action_keeps_address [of sample_env, OF _ wired_sample x] x by (auto simp: sample_ulib_ok)
qed

end
