(* ===== verification/Rollout_Props.thy ===== *)
theory Rollout_Props
  imports Rollout_Actions
begin

text \<open>
  The groups of a rollout: which steps run and what decides the result of a group, sequential or
  parallel, and what the status says about the groups in the end.
\<close>

section \<open>Steps that ran\<close>

text \<open>
  \<open>ran E r ss st xs st'\<close>: the steps ran one after the other from \<open>st\<close> to \<open>st'\<close>, whatever their
  results \<open>xs\<close>; each returned with success or an error.
\<close>

inductive ran :: "'w env \<Rightarrow> 'w runner \<Rightarrow> step list \<Rightarrow> objects \<times> 'w \<Rightarrow> unit outcome list \<Rightarrow>
    objects \<times> 'w \<Rightarrow> bool" for E r where
  ran_Nil: "ran E r [] st [] st"
| ran_Cons: "runStep E r s st = (x, st1) \<Longrightarrow> x = Ok () \<or> (\<exists>e. x = Err e) \<Longrightarrow> ran E r ss st1 xs st' \<Longrightarrow>
    ran E r (s # ss) st (x # xs) st'"

inductive_cases ran_NilE: "ran E r [] st xs st'"
inductive_cases ran_ConsE: "ran E r (s # ss) st xs st'"
inductive_simps ran_Nil_iff [simp]: "ran E r [] st xs st'"

lemma ex_ran_Cons:
  assumes "runStep E r s st = (x, st1)"
  shows "(\<exists>zs. ran E r (s # ss) st zs st' \<and> P zs) \<longleftrightarrow>
    (x = Ok () \<or> (\<exists>e. x = Err e)) \<and> (\<exists>xs. ran E r ss st1 xs st' \<and> P (x # xs))"
proof
  assume "\<exists>zs. ran E r (s # ss) st zs st' \<and> P zs"
  then show "(x = Ok () \<or> (\<exists>e. x = Err e)) \<and> (\<exists>xs. ran E r ss st1 xs st' \<and> P (x # xs))"
    using assms by (fastforce elim: ran_ConsE)
next
  assume "(x = Ok () \<or> (\<exists>e. x = Err e)) \<and> (\<exists>xs. ran E r ss st1 xs st' \<and> P (x # xs))"
  then show "\<exists>zs. ran E r (s # ss) st zs st' \<and> P zs" using ran_Cons [OF assms] by blast
qed

lemma ran_length: "ran E r ss st xs st' \<Longrightarrow> length xs = length ss"
  by (induction rule: ran.induct) simp_all

lemma ran_results: "ran E r ss st xs st' \<Longrightarrow> x \<in> set xs \<Longrightarrow> x = Ok () \<or> (\<exists>e. x = Err e)"
  by (induction rule: ran.induct) auto

text \<open>A step that may fail: it says so itself.\<close>

definition tolerated :: "step \<Rightarrow> unit outcome \<Rightarrow> bool" where
  "tolerated s x \<longleftrightarrow> x = Ok () \<or> st_ContinueOnError s"

lemma tolerated_simps [simp]:
  "tolerated s (Ok ())" "tolerated s (Err e) = st_ContinueOnError s"
  by (simp_all add: tolerated_def)

lemma run_sequential_step:
  "run_sequential E r (s # ss) st =
     (let (x, st1) = runStep E r s st in
      if (x = Ok () \<or> (\<exists>e. x = Err e)) \<and> tolerated s x then run_sequential E r ss st1
      else (map_err RunStepFailed x, st1))"
  by (cases "runStep E r s st"; cases "fst (runStep E r s st)") (auto simp: tolerated_def)

declare run_sequential.simps(2) [simp del]

lemma run_sequential_Ok:
  "run_sequential E r ss st = (Ok (), st') \<longleftrightarrow>
     (\<exists>xs. ran E r ss st xs st' \<and> list_all2 tolerated ss xs)"
proof (induction ss arbitrary: st)
  case (Cons s ss)
  obtain x st1 where x: "runStep E r s st = (x, st1)" by (rule prod.exhaust)
  show ?case
    by (cases x) (simp_all add: run_sequential_step x ex_ran_Cons [OF x] Cons.IH tolerated_def)
qed auto

lemma run_sequential_Err:
  "run_sequential E r ss st = (Err e, st') \<longleftrightarrow>
     (\<exists>before s after st1 xs e'. ss = before @ s # after \<and> ran E r before st xs st1 \<and>
        list_all2 tolerated before xs \<and> runStep E r s st1 = (Err e', st') \<and>
        \<not> st_ContinueOnError s \<and> e = RunStepFailed e')" (is "_ \<longleftrightarrow> ?P ss st")
proof (induction ss arbitrary: st)
  case (Cons s ss)
  obtain x st1 where x: "runStep E r s st = (x, st1)" by (rule prod.exhaust)
  have P: "?P (s # ss) st \<longleftrightarrow>
      (\<exists>e'. x = Err e' \<and> st1 = st' \<and> \<not> st_ContinueOnError s \<and> e = RunStepFailed e') \<or>
      (x = Ok () \<or> (\<exists>e. x = Err e)) \<and> tolerated s x \<and> ?P ss st1" (is "_ \<longleftrightarrow> ?A \<or> ?B")
  proof
    assume "?P (s # ss) st"
    then obtain before s0 after st2 xs e' where h: "s # ss = before @ s0 # after"
      "ran E r before st xs st2" "list_all2 tolerated before xs" "runStep E r s0 st2 = (Err e', st')"
      "\<not> st_ContinueOnError s0" "e = RunStepFailed e'" by blast
    show "?A \<or> ?B"
    proof (cases before)
      case Nil
      with h x show ?thesis by auto
    next
      case (Cons b bs)
      with h(1) have eq: "b = s" "ss = bs @ s0 # after" by simp_all
      from h(2) [unfolded Cons eq] x obtain ys where ys: "xs = x # ys" "ran E r bs st1 ys st2"
        "x = Ok () \<or> (\<exists>e. x = Err e)"
        using ex_ran_Cons [OF x, of bs st2 "\<lambda>zs. zs = xs"] by blast
      with h(3) have "tolerated s x" "list_all2 tolerated bs ys" by (simp_all add: Cons eq)
      with ys eq(2) h(4-6) show ?thesis by blast
    qed
  next
    assume "?A \<or> ?B"
    then show "?P (s # ss) st"
    proof
      assume ?A
      with x show ?thesis by (intro exI [of _ "[]"]) auto
    next
      assume B: ?B
      then obtain before s0 after st2 xs e' where h: "ss = before @ s0 # after"
        "ran E r before st1 xs st2" "list_all2 tolerated before xs" "runStep E r s0 st2 = (Err e', st')"
        "\<not> st_ContinueOnError s0" "e = RunStepFailed e'" by blast
      then have "ran E r (s # before) st (x # xs) st2" using x B by (auto intro: ran_Cons)
      moreover have "s # ss = (s # before) @ s0 # after" "list_all2 tolerated (s # before) (x # xs)"
        using h B by simp_all
      ultimately show ?thesis using h(4-6) by blast
    qed
  qed
  show ?case
    unfolding P Cons.IH [symmetric] by (cases x) (simp_all add: run_sequential_step x, blast+)
qed auto

text \<open>
  C17: A sequential group succeeds exactly when all its steps ran in order and each succeeded or was
  allowed to fail; it fails exactly when some step that is not allowed to fail failed, the steps
  before it having run and those after it not, with that step's error.
\<close>

theorem sequential_group_result:
  "\<not> gr_Parallel g \<Longrightarrow>
   (run_group E r g st = (Ok (), st') \<longleftrightarrow>
      (\<exists>xs. ran E r (gr_Steps g) st xs st' \<and> list_all2 tolerated (gr_Steps g) xs)) \<and>
   (run_group E r g st = (Err e, st') \<longleftrightarrow>
      (\<exists>before s after st1 xs e'. gr_Steps g = before @ s # after \<and> ran E r before st xs st1 \<and>
         list_all2 tolerated before xs \<and> runStep E r s st1 = (Err e', st') \<and>
         \<not> st_ContinueOnError s \<and> e = RunStepFailed e'))"
  by (simp add: run_group_def run_sequential_Ok run_sequential_Err)

definition missing_step :: "bool \<Rightarrow> step" where
  "missing_step c = \<lparr>st_Name = ''s'', st_Object = ''nowhere'', st_Action = ''CreateOrUpdate'',
     st_Success = [], st_ContinueOnError = c\<rparr>"

definition sample_group :: "bool \<Rightarrow> bool list \<Rightarrow> rolloutGroup" where
  "sample_group par cs = \<lparr>gr_Name = ''a'', gr_Parallel = par, gr_Steps = map missing_step cs\<rparr>"

lemma missing_step_fails:
  "runStep E r (missing_step c) (Map.empty, w) = (Err (ObjectNotFound ''nowhere''), (Map.empty, w))"
  by (simp add: runStep_def missing_step_def)

theorem sequential_group_result_witness:
  "run_group sample_env (sample_rollout_runner no_result) (sample_group False [True, False])
     (Map.empty, empty_world) = (Err (RunStepFailed (ObjectNotFound ''nowhere'')), (Map.empty, empty_world))"
proof -
  let ?g = "sample_group False [True, False]" and ?r = "sample_rollout_runner no_result"
  let ?st = "(Map.empty, empty_world) :: objects \<times> sworld"
  have p: "\<not> gr_Parallel ?g" by (simp add: sample_group_def)
  have st: "gr_Steps ?g = [missing_step True] @ missing_step False # []"
    by (simp add: sample_group_def)
  have ran: "ran sample_env ?r [missing_step True] ?st [Err (ObjectNotFound ''nowhere'')] ?st"
    by (rule ran_Cons [OF missing_step_fails]) simp_all
  have tol: "list_all2 tolerated [missing_step True] [Err (ObjectNotFound ''nowhere'')]"
    by (simp add: missing_step_def)
  have last: "\<not> st_ContinueOnError (missing_step False)" by (simp add: missing_step_def)
  show ?thesis
    by (rule iffD2 [OF conjunct2 [OF sequential_group_result [OF p]]])
      (intro exI conjI, rule st, rule ran, rule tol, rule missing_step_fails, rule last, rule refl)
qed

section \<open>Parallel groups\<close>

fun errors_of :: "unit outcome list \<Rightarrow> go_error list" where
  "errors_of [] = []"
| "errors_of (x # xs) = (case x of Err e \<Rightarrow> e # errors_of xs | _ \<Rightarrow> errors_of xs)"

lemma run_parallel_Ok:
  "run_parallel E r ss errs st = (Ok errs', st') \<longleftrightarrow>
     (\<exists>xs. ran E r ss st xs st' \<and> errs' = errs @ errors_of xs)"
proof (induction ss arbitrary: errs st)
  case (Cons s ss)
  obtain x st1 where x: "runStep E r s st = (x, st1)" by (rule prod.exhaust)
  show ?case by (cases x) (simp_all add: x ex_ran_Cons [OF x] Cons.IH)
qed auto

lemma run_parallel_not_Err: "run_parallel E r ss errs st \<noteq> (Err e, st')"
proof (induction ss arbitrary: errs st)
  case (Cons s ss)
  obtain x st1 where x: "runStep E r s st = (x, st1)" by (rule prod.exhaust)
  show ?case by (cases x) (auto simp: x Cons.IH)
qed simp

lemma scheduled_steps:
  assumes "schedule_law E"
  shows "mset (map (\<lambda>i. ss ! i) (e_Schedule E w (length ss))) = mset ss"
proof -
  have "mset (map ((!) ss) (e_Schedule E w (length ss))) = image_mset ((!) ss) (mset [0..<length ss])"
    using assms unfolding schedule_law_def by (metis mset_map)
  also have "\<dots> = mset (map ((!) ss) [0..<length ss])" by simp
  finally show ?thesis by (simp add: map_nth)
qed

text \<open>
  In a parallel group every step runs exactly once, in the scheduler's order, even when others
  fail; the group succeeds when all of them did and otherwise fails with all the errors. The
  field \<^verbatim>\<open>ContinueOnError\<close> plays no part.
\<close>

theorem parallel_group_result:
  assumes S: "schedule_law E" and p: "gr_Parallel g"
    and run: "run_group E r g st = (x, st')" and ret: "x = Ok () \<or> (\<exists>e. x = Err e)"
  shows "\<exists>order xs. mset order = mset (gr_Steps g) \<and> ran E r order st xs st' \<and>
    (if errors_of xs = [] then x = Ok () else x = Err (FailedToRunStep (errors_of xs)))"
proof -
  let ?order = "map (\<lambda>i. gr_Steps g ! i) (e_Schedule E (snd st) (length (gr_Steps g)))"
  obtain y st1 where y: "run_parallel E r ?order [] st = (y, st1)" by (rule prod.exhaust)
  then obtain errs where errs: "y = Ok errs"
    using run ret p run_parallel_not_Err [of E r ?order "[]" st]
    by (cases y) (auto simp: run_group_def)
  from y errs obtain xs where "ran E r ?order st xs st1" "errs = errors_of xs"
    by (auto simp: run_parallel_Ok)
  then show ?thesis
    using run p y errs scheduled_steps [OF S, of "gr_Steps g" "snd st"]
    by (intro exI [of _ ?order] exI [of _ xs]) (auto simp: run_group_def split: if_splits)
qed

theorem parallel_group_result_witness:
  "\<exists>xs. fst (run_group sample_env (sample_rollout_runner no_result) (sample_group True [True, True])
     (Map.empty, empty_world)) = Err (FailedToRunStep (errors_of xs)) \<and> length xs = 2"
proof -
  let ?g = "sample_group True [True, True]" and ?r = "sample_rollout_runner no_result"
  let ?st = "(Map.empty, empty_world) :: objects \<times> sworld"
  have S: "schedule_law sample_env" by (simp add: schedule_law_def sample_env_def)
  have p: "gr_Parallel ?g" by (simp add: sample_group_def)
  have steps: "gr_Steps ?g = [missing_step True, missing_step True]" by (simp add: sample_group_def)
  have run: "run_group sample_env ?r ?g ?st =
      (Err (FailedToRunStep [ObjectNotFound ''nowhere'', ObjectNotFound ''nowhere'']), ?st)"
    by (simp add: run_group_def p steps sample_env_def missing_step_fails numeral_2_eq_2)
  obtain order xs where o: "mset order = mset (gr_Steps ?g)" "ran sample_env ?r order ?st xs ?st"
    and x: "if errors_of xs = [] then Err (FailedToRunStep [ObjectNotFound ''nowhere'', ObjectNotFound ''nowhere'']) = Ok ()
      else Err (FailedToRunStep [ObjectNotFound ''nowhere'', ObjectNotFound ''nowhere'']) =
        (Err (FailedToRunStep (errors_of xs)) :: unit outcome)"
    using parallel_group_result [OF S p run] by blast
  have "length order = 2" using arg_cong [OF o(1), of size] by (simp add: steps)
  then have "length xs = 2" using ran_length [OF o(2)] by simp
  then show ?thesis using run x by (intro exI [of _ xs]) (simp split: if_splits)
qed

section \<open>The status of a rollout\<close>

text \<open>The status view does not look at the world.\<close>

lemma status_view_world: "status_view (f, w) = status_view (f, w')"
  by (simp add: status_view_def)

definition finish :: "string set \<Rightarrow> (string \<times> string) list \<Rightarrow> (string \<times> string) list" where
  "finish ns view = map (\<lambda>(k, v). (k, if k \<in> ns then ''Finished'' else v)) view"

lemma finish_empty [simp]: "finish {} view = view"
  by (simp add: finish_def)

lemma finish_finish: "finish ns (finish ms view) = finish (ns \<union> ms) view"
  by (simp add: finish_def comp_def case_prod_beta)

lemma finish_all: "finish (set (map fst view)) view = map (\<lambda>k. (k, ''Finished'')) (map fst view)"
  by (simp add: finish_def case_prod_beta)

lemma report_finished_view:
  assumes "report_finished E g (Some f, w) = (x, (fb', w'))" "\<forall>p. x \<noteq> Panic p"
  shows "\<exists>f'. fb' = Some f' \<and> status_view (f', w') = finish {gr_Name g} (status_view (f, w))"
proof -
  obtain f' where c: "SetCondition (e_U E) (e_K E) (e_T E) (gr_Name g) StatusConditionFinished (f, w) = (x, f', w')"
    and f': "fb' = Some f'"
    using assms(1) by (auto simp: report_finished_def split: prod.splits)
  from status_report.set_effect [OF c assms(2)] f' show ?thesis
    by (simp add: finish_def StatusConditionFinished_def case_prod_beta)
qed

lemma run_groups_Cons:
  assumes "run_group E r g (objs, w) = (x, (objs1, w1))" "report_finished E g (fb, w1) = (y, (fb2, w2))"
  shows "run_groups E r (g # gs) (objs, fb, w) =
    (if x \<noteq> Ok () then (x, (objs1, fb, w1))
     else if y \<noteq> Ok () then (y, (objs1, fb2, w2))
     else run_groups E r gs (objs1, fb2, w2))"
  using assms by (cases x; cases y) simp_all

declare run_groups.simps(2) [simp del]

text \<open>
  What holds across every step, from its start to its end, holds across a group and across all
  groups, when it is reflexive and transitive.
\<close>

lemma run_sequential_closed:
  assumes refl: "\<And>st. R st st" and trans: "\<And>a b c. R a b \<Longrightarrow> R b c \<Longrightarrow> R a c"
    and step: "\<And>s st x st'. runStep E r s st = (x, st') \<Longrightarrow> R st st'"
  shows "run_sequential E r ss st = (x, st') \<Longrightarrow> R st st'"
proof (induction ss arbitrary: st)
  case (Cons s ss)
  obtain y st1 where s: "runStep E r s st = (y, st1)" by (rule prod.exhaust)
  note k = step [OF s]
  show ?case
  proof (cases "run_sequential E r (s # ss) st = run_sequential E r ss st1")
    case True
    then show ?thesis using Cons k trans by metis
  next
    case False
    then have "st' = st1" using Cons.prems s by (cases y) (auto simp: run_sequential.simps split: if_splits)
    then show ?thesis using k by simp
  qed
qed (simp add: run_sequential.simps refl)

lemma run_parallel_closed:
  assumes refl: "\<And>st. R st st" and trans: "\<And>a b c. R a b \<Longrightarrow> R b c \<Longrightarrow> R a c"
    and step: "\<And>s st x st'. runStep E r s st = (x, st') \<Longrightarrow> R st st'"
  shows "run_parallel E r ss errs st = (x, st') \<Longrightarrow> R st st'"
proof (induction ss arbitrary: st errs)
  case (Cons s ss)
  obtain y st1 where s: "runStep E r s st = (y, st1)" by (rule prod.exhaust)
  note k = step [OF s]
  show ?case
  proof (cases y)
    case (Ok v)
    then show ?thesis using Cons.IH [of errs st1] Cons.prems s trans [OF k] by simp
  next
    case (Err e)
    then show ?thesis using Cons.IH [of "errs @ [e]" st1] Cons.prems s trans [OF k] by simp
  qed (use Cons.prems s k in auto)
qed (simp add: refl)

lemma run_group_closed:
  assumes "\<And>st. R st st" and "\<And>a b c. R a b \<Longrightarrow> R b c \<Longrightarrow> R a c"
    and "\<And>s st x st'. runStep E r s st = (x, st') \<Longrightarrow> R st st'" and "run_group E r g st = (x, st')"
  shows "R st st'"
proof (cases "gr_Parallel g")
  case True
  let ?order = "map (\<lambda>i. gr_Steps g ! i) (e_Schedule E (snd st) (length (gr_Steps g)))"
  obtain y st1 where p: "run_parallel E r ?order [] st = (y, st1)" by (rule prod.exhaust)
  have "st' = st1" using assms(4) True p by (cases y) (auto simp: run_group_def split: if_splits)
  then show ?thesis using run_parallel_closed [of R, OF assms(1-3) p] by simp
next
  case False
  then show ?thesis using run_sequential_closed [of R, OF assms(1-3)] assms(4) by (simp add: run_group_def)
qed

lemma run_groups_closed:
  assumes refl: "\<And>st. R st st" and trans: "\<And>a b c. R a b \<Longrightarrow> R b c \<Longrightarrow> R a c"
    and step: "\<And>s objs w x objs' w' fb. runStep E r s (objs, w) = (x, (objs', w')) \<Longrightarrow> R (objs, fb, w) (objs', fb, w')"
    and told: "\<And>g fb w x fb' w' objs. report_finished E g (fb, w) = (x, (fb', w')) \<Longrightarrow> R (objs, fb, w) (objs, fb', w')"
  shows "run_groups E r gs st = (x, st') \<Longrightarrow> R st st'"
proof (induction gs arbitrary: st)
  case (Cons g gs)
  obtain objs fb w where st: "st = (objs, fb, w)" by (rule prod_cases3)
  obtain y objs1 w1 where g: "run_group E r g (objs, w) = (y, (objs1, w1))" by (rule prod_cases3)
  obtain z fb2 w2 where rf: "report_finished E g (fb, w1) = (z, (fb2, w2))" by (rule prod_cases3)
  have "(\<lambda>a b. R (fst a, fb, snd a) (fst b, fb, snd b)) (objs, w) (objs1, w1)"
  proof (rule run_group_closed [OF _ _ _ g])
    fix s st x st' assume "runStep E r s st = (x, st')"
    then show "R (fst st, fb, snd st) (fst st', fb, snd st')" using step by (cases st; cases st') simp
  qed (use refl trans in blast)+
  then have "R st (objs1, fb, w1)" by (simp add: st)
  moreover from this told [OF rf] have "R st (objs1, fb2, w2)" by (rule trans)
  ultimately show ?case
    using Cons.prems Cons.IH [of "(objs1, fb2, w2)"] trans
    unfolding st run_groups_Cons [OF g rf] by (auto split: if_splits)
qed (simp add: refl)

lemma run_groups_Ok_view:
  assumes "run_groups E r gs (objs, Some f, w) = (Ok (), (objs', fb', w'))"
  shows "\<exists>f'. fb' = Some f' \<and> status_view (f', w') = finish (gr_Name ` set gs) (status_view (f, w))"
  using assms
proof (induction gs arbitrary: objs f w)
  case (Cons g gs)
  obtain x objs1 w1 where g: "run_group E r g (objs, w) = (x, (objs1, w1))" by (rule prod_cases3)
  obtain y fb2 w2 where rf: "report_finished E g (Some f, w1) = (y, (fb2, w2))" by (rule prod_cases3)
  from Cons.prems have ok: "x = Ok ()" "y = Ok ()"
    and rest: "run_groups E r gs (objs1, fb2, w2) = (Ok (), (objs', fb', w'))"
    unfolding run_groups_Cons [OF g rf] by (auto split: if_splits)
  obtain f2 where f2: "fb2 = Some f2" "status_view (f2, w2) = finish {gr_Name g} (status_view (f, w1))"
    using report_finished_view [OF rf] ok by auto
  obtain f' where f': "fb' = Some f'" "status_view (f', w') = finish (gr_Name ` set gs) (status_view (f2, w2))"
    using Cons.IH [OF rest [unfolded f2(1)]] by blast
  have "gr_Name ` set gs \<union> {gr_Name g} = gr_Name ` set (g # gs)" by auto
  with f' show ?case by (simp only: f2(2) finish_finish status_view_world [of f w1 w]) simp
qed fastforce

text \<open>
  \<open>group_succeeds E r g st st'\<close>: the group leads from \<open>st\<close> to \<open>st'\<close> by running every one of its steps. The
  steps of a sequential group run in their order and succeed, unless they may fail; those of a
  parallel group run in some order and succeed. \<open>groups_succeed\<close>: the groups do so one after the other,
  and each is reported as finished before the next one starts.
\<close>

definition group_succeeds ::
  "'w env \<Rightarrow> 'w runner \<Rightarrow> rolloutGroup \<Rightarrow> objects \<times> 'w \<Rightarrow> objects \<times> 'w \<Rightarrow> bool" where
  "group_succeeds E r g st st' \<longleftrightarrow>
     (if gr_Parallel g
      then \<exists>order. mset order = mset (gr_Steps g) \<and> ran E r order st (map (\<lambda>_. Ok ()) order) st'
      else \<exists>xs. ran E r (gr_Steps g) st xs st' \<and>
        list_all2 (\<lambda>s x. x = Ok () \<or> st_ContinueOnError s) (gr_Steps g) xs)"

inductive groups_succeed ::
  "'w env \<Rightarrow> 'w runner \<Rightarrow> rolloutGroup list \<Rightarrow> objects \<times> feedback option \<times> 'w \<Rightarrow>
     objects \<times> feedback option \<times> 'w \<Rightarrow> bool" for E r where
  groups_Nil: "groups_succeed E r [] st st"
| groups_Cons: "group_succeeds E r g (objs, w) (objs1, w1) \<Longrightarrow>
    report_finished E g (fb, w1) = (Ok (), fb2, w2) \<Longrightarrow> groups_succeed E r gs (objs1, fb2, w2) st' \<Longrightarrow>
    groups_succeed E r (g # gs) (objs, fb, w) st'"

lemma ran_no_errors: "ran E r ss st xs st' \<Longrightarrow> errors_of xs = [] \<Longrightarrow> xs = map (\<lambda>_. Ok ()) ss"
  by (induction rule: ran.induct) auto

lemma run_sequential_succeeds:
  "run_sequential E r ss st = (Ok (), st') \<Longrightarrow>
   \<exists>xs. ran E r ss st xs st' \<and> list_all2 (\<lambda>s x. x = Ok () \<or> st_ContinueOnError s) ss xs"
proof (induction ss arbitrary: st)
  case (Cons s ss)
  obtain x st1 where x: "runStep E r s st = (x, st1)" by (rule prod.exhaust)
  have "(x = Ok () \<or> (\<exists>e. x = Err e) \<and> st_ContinueOnError s) \<and> run_sequential E r ss st1 = (Ok (), st')"
    using Cons.prems x by (cases x) (auto simp: run_sequential.simps split: if_splits)
  moreover from this obtain xs where "ran E r ss st1 xs st'"
    "list_all2 (\<lambda>s x. x = Ok () \<or> st_ContinueOnError s) ss xs" using Cons.IH by blast
  moreover from calculation have "ran E r (s # ss) st (x # xs) st'" by (intro ran_Cons [OF x]) auto
  ultimately show ?case by (intro exI [of _ "x # xs"]) auto
qed (simp add: run_sequential.simps)

lemma run_group_succeeds:
  assumes S: "schedule_law E" and run: "run_group E r g st = (Ok (), st')"
  shows "group_succeeds E r g st st'"
proof (cases "gr_Parallel g")
  case True
  let ?order = "map (\<lambda>i. gr_Steps g ! i) (e_Schedule E (snd st) (length (gr_Steps g)))"
  obtain y st1 where y: "run_parallel E r ?order [] st = (y, st1)" by (rule prod.exhaust)
  then have "y = Ok []" "st1 = st'" using run True by (cases y; auto simp: run_group_def split: if_splits)+
  then obtain xs where "ran E r ?order st xs st'" "errors_of xs = []" using y by (auto simp: run_parallel_Ok)
  then have "ran E r ?order st (map (\<lambda>_. Ok ()) ?order) st'" using ran_no_errors by metis
  moreover have "mset ?order = mset (gr_Steps g)" by (rule scheduled_steps [OF S])
  ultimately have "\<exists>order. mset order = mset (gr_Steps g) \<and> ran E r order st (map (\<lambda>_. Ok ()) order) st'" by blast
  then show ?thesis using True by (simp add: group_succeeds_def)
next
  case False
  then show ?thesis using run run_sequential_succeeds by (simp add: run_group_def group_succeeds_def)
qed

lemma run_groups_succeed:
  assumes S: "schedule_law E"
  shows "run_groups E r gs st = (Ok (), st') \<Longrightarrow> groups_succeed E r gs st st'"
proof (induction gs arbitrary: st)
  case (Cons g gs)
  obtain objs fb w where st: "st = (objs, fb, w)" by (rule prod_cases3)
  obtain x objs1 w1 where g: "run_group E r g (objs, w) = (x, (objs1, w1))" by (rule prod_cases3)
  obtain y fb2 w2 where rf: "report_finished E g (fb, w1) = (y, (fb2, w2))" by (rule prod_cases3)
  have ok: "x = Ok ()" "y = Ok ()" and rest: "run_groups E r gs (objs1, fb2, w2) = (Ok (), st')"
    using Cons.prems unfolding st run_groups_Cons [OF g rf] by (auto split: if_splits)
  show ?case
    unfolding st
    by (rule groups_Cons [OF run_group_succeeds [OF S g [unfolded ok]] rf [unfolded ok] Cons.IH [OF rest]])
qed (simp add: groups_Nil)

text \<open>
  C6: When a rollout with feedback succeeds, every step of every group has run: the groups one after the
  other, each reported as finished before the next one started, the steps of a sequential group in
  their order and those of a parallel group in some order, all of them with success but for the steps of
  sequential groups that may fail. And the status has at the end exactly one condition for each group,
  in the order of the groups, and each is finished.
\<close>

theorem successful_rollout_finishes_all_groups:
  assumes S: "schedule_law E" and run: "Execute E r (Some c) p = (Ok (), c', p')"
    and f: "cf_Feedback c = Some f" and ro: "\<not> rn_renderOnly r"
  shows "\<exists>res w1 gs f1 w2 objs' f'. rn_provider r (cf_RawConfig c) (pr_world p) = (Ok res, w1) \<and>
    result_groups res = Some gs \<and>
    initialize_feedback E (map gr_Name gs) (Some f, w1) = (Ok (), Some f1, w2) \<and>
    groups_succeed E r gs (rr_Objects res, Some f1, w2) (objs', Some f', pr_world p') \<and>
    c' = Some (c\<lparr>cf_Feedback := Some f'\<rparr>) \<and>
    status_view (f', pr_world p') = map (\<lambda>g. (gr_Name g, ''Finished'')) gs"
proof -
  obtain fb' w' where body: "execute_body E r (cf_RawConfig c) (Some f, pr_world p) = (Ok (), (fb', w'))"
    and c': "c' = Some (c\<lparr>cf_Feedback := fb'\<rparr>)" and p': "pr_world p' = w'"
    using run f by (auto simp: Execute_def split: prod.splits)
  obtain res w1 where pr: "rn_provider r (cf_RawConfig c) (pr_world p) = (Ok res, w1)"
    and out: "roll_out E r res (Some f, w1) = (Ok (), (fb', w'))"
    using body ro by (auto simp: execute_body_def andThen_Ok_iff split: prod.splits)
  obtain gs where gs: "result_groups res = Some gs"
    using out by (auto simp: roll_out_def split: option.splits)
  obtain fb1 w2 objs' where ini: "initialize_feedback E (map gr_Name gs) (Some f, w1) = (Ok (), (fb1, w2))"
    and gr: "run_groups E r gs (rr_Objects res, fb1, w2) = (Ok (), (objs', fb', w'))"
  proof -
    obtain x fb1 w2 where i: "initialize_feedback E (map gr_Name gs) (Some f, w1) = (x, (fb1, w2))"
      by (rule prod_cases3)
    obtain y objs' st where g: "run_groups E r gs (rr_Objects res, fb1, w2) = (y, (objs', st))"
      by (rule prod_cases3)
    show thesis using out i g that by (cases x) (simp_all add: roll_out_def gs)
  qed
  obtain f1 where i: "Initialize (e_U E) (e_K E) (e_T E) (map gr_Name gs) (f, w1) = (Ok (), (f1, w2))"
    and f1: "fb1 = Some f1"
    using ini by (auto simp: initialize_feedback_def split: prod.splits)
  have names: "map fst (status_view (f1, w2)) = map gr_Name gs"
    by (rule status_report.init_names [OF i]) simp
  obtain f' where f': "fb' = Some f'"
    and view: "status_view (f', w') = finish (gr_Name ` set gs) (status_view (f1, w2))"
    using run_groups_Ok_view [OF gr [unfolded f1]] by blast
  have "gr_Name ` set gs = set (map fst (status_view (f1, w2)))" unfolding names by simp
  then have "status_view (f', w') = map (\<lambda>k. (k, ''Finished'')) (map fst (status_view (f1, w2)))"
    unfolding view by (subst finish_all [symmetric]) simp
  then have v: "status_view (f', w') = map (\<lambda>g. (gr_Name g, ''Finished'')) gs"
    unfolding names by simp
  have steps: "groups_succeed E r gs (rr_Objects res, Some f1, w2) (objs', Some f', w')"
    using run_groups_succeed [OF S gr] by (simp add: f1 f')
  show ?thesis
    unfolding p' by (intro exI conjI) (rule pr, rule gs, simp add: ini f1, rule steps, simp add: c' f', rule v)
qed

definition one_group_result :: "bool list \<Rightarrow> render_result" where
  "one_group_result cs =
     \<lparr>rr_Objects = Map.empty,
      rr_Rollout = Some \<lparr>ro_APIVersion = [], ro_Kind = [], ro_Metadata = None,
        ro_Spec = Some \<lparr>sp_Parallel = False, sp_Groups = [sample_group False cs]\<rparr>\<rparr>\<rparr>"

definition sample_feedback_config :: config where
  "sample_feedback_config =
     \<lparr>cf_RawConfig = [],
      cf_Feedback = Some (NewFeedback sample_ulib (NewClient sample_cfg)
        (sample_status_obj [sample_condition ''a'' ''Finished'']))\<rparr>"

definition sample_proc :: "sworld proc" where
  "sample_proc = \<lparr>pr_world = empty_world,
     pr_metrics = \<lparr>mt_executionDuration = 0, mt_executions = 0, mt_executionsFailed = 0\<rparr>\<rparr>"

lemma sample_runner_provider [simp]:
  "rn_provider (sample_rollout_runner res) = (\<lambda>c w. (Ok res, w))"
  "\<not> rn_renderOnly (sample_rollout_runner res)"
  by (simp_all add: sample_rollout_runner_def SetObjectActions_def)

lemmas execute_eval = Execute_def execute_body_def roll_out_def result_groups_def initialize_feedback_def
  report_finished_def run_groups.simps
  one_group_result_def sample_feedback_config_def sample_proc_def StatusConditionFinished_def

lemma sample_group_name [simp]: "gr_Name (sample_group par cs) = ''a''"
  by (simp add: sample_group_def)

lemma tolerant_group:
  "run_group E r (sample_group False [True]) (Map.empty, w) = (Ok (), (Map.empty, w))"
  by (simp add: run_group_def sample_group_def run_sequential.simps missing_step_fails)
    (simp add: missing_step_def)

lemma sample_schedule_law: "schedule_law sample_env"
  by (simp add: schedule_law_def sample_env_def)

theorem successful_rollout_finishes_all_groups_witness:
  "\<exists>c' p' f1 w2 objs' f'. Execute sample_env (sample_rollout_runner (one_group_result [True]))
      (Some sample_feedback_config) sample_proc = (Ok (), Some c', p') \<and> cf_Feedback c' = Some f' \<and>
    groups_succeed sample_env (sample_rollout_runner (one_group_result [True])) [sample_group False [True]]
      (Map.empty, Some f1, w2) (objs', Some f', pr_world p') \<and>
    status_view (f', pr_world p') = [(''a'', ''Finished'')]"
proof -
  let ?r = "sample_rollout_runner (one_group_result [True])"
  obtain c' p' where x: "Execute sample_env ?r (Some sample_feedback_config) sample_proc = (Ok (), c', p')"
    unfolding execute_eval sample_feedback
    by (simp add: tolerant_group feedback_eval execute_eval)
  have f: "cf_Feedback sample_feedback_config = Some (NewFeedback sample_ulib (NewClient sample_cfg)
      (sample_status_obj [sample_condition ''a'' ''Finished'']))"
    by (simp add: sample_feedback_config_def)
  have ro: "\<not> rn_renderOnly ?r" by (simp add: sample_rollout_runner_def SetObjectActions_def)
  have pr: "rn_provider ?r raw w = (Ok (one_group_result [True]), w)" for raw w
    by (simp add: sample_rollout_runner_def SetObjectActions_def)
  have gs: "result_groups (one_group_result [True]) = Some [sample_group False [True]]"
    "rr_Objects (one_group_result [True]) = Map.empty"
    by (simp_all add: one_group_result_def result_groups_def)
  obtain f1 w2 objs' f' where "groups_succeed sample_env ?r [sample_group False [True]]
      (Map.empty, Some f1, w2) (objs', Some f', pr_world p')"
    "c' = Some (sample_feedback_config\<lparr>cf_Feedback := Some f'\<rparr>)"
    "status_view (f', pr_world p') = [(''a'', ''Finished'')]"
    using successful_rollout_finishes_all_groups [OF sample_schedule_law x f ro]
    unfolding pr by (auto simp: gs)
  with x show ?thesis by auto
qed

text \<open>
  C18: When a group fails, the groups before it have run, those after it have not, and the status
  says so: the conditions of the groups before it are finished and the others are as they were.
  Only a failing status request can make the run end otherwise in an error.
\<close>

theorem failed_rollout_status:
  assumes run: "run_groups E r gs (objs, Some f, w) = (Err e, (objs', fb', w'))"
  shows "\<exists>before g after objs1 f1 w1. gs = before @ g # after \<and>
    run_groups E r before (objs, Some f, w) = (Ok (), (objs1, Some f1, w1)) \<and>
    status_view (f1, w1) = finish (gr_Name ` set before) (status_view (f, w)) \<and>
    (run_group E r g (objs1, w1) = (Err e, (objs', w')) \<and> fb' = Some f1 \<or>
     (\<exists>w2. run_group E r g (objs1, w1) = (Ok (), (objs', w2)) \<and>
        report_finished E g (Some f1, w2) = (Err e, (fb', w'))))"
  using run
proof (induction gs arbitrary: objs f w)
  case (Cons g gs)
  obtain x objs1 w1 where g: "run_group E r g (objs, w) = (x, (objs1, w1))" by (rule prod_cases3)
  obtain y fb2 w2 where rf: "report_finished E g (Some f, w1) = (y, (fb2, w2))" by (rule prod_cases3)
  note step = run_groups_Cons [OF g rf]
  show ?case
  proof (cases "x = Ok () \<and> y = Ok ()")
    case False
    then have "run_group E r g (objs, w) = (Err e, (objs', w')) \<and> fb' = Some f \<or>
        (\<exists>w2. run_group E r g (objs, w) = (Ok (), (objs', w2)) \<and>
          report_finished E g (Some f, w2) = (Err e, (fb', w')))"
      using Cons.prems g rf by (auto simp: step split: if_splits)
    then show ?thesis
      by (intro exI [of _ "[]"] exI [of _ g] exI [of _ gs] exI [of _ objs] exI [of _ f] exI [of _ w]) simp
  next
    case True
    then obtain f2 where f2: "fb2 = Some f2" "status_view (f2, w2) = finish {gr_Name g} (status_view (f, w1))"
      using report_finished_view [OF rf] by auto
    have rest: "run_groups E r gs (objs1, Some f2, w2) = (Err e, (objs', fb', w'))"
      using Cons.prems True by (simp add: step f2(1))
    obtain before g' after objs2 f3 w3 where h: "gs = before @ g' # after"
      "run_groups E r before (objs1, Some f2, w2) = (Ok (), (objs2, Some f3, w3))"
      "run_group E r g' (objs2, w3) = (Err e, (objs', w')) \<and> fb' = Some f3 \<or>
       (\<exists>w2. run_group E r g' (objs2, w3) = (Ok (), (objs', w2)) \<and>
          report_finished E g' (Some f3, w2) = (Err e, (fb', w')))"
      using Cons.IH [OF rest] by blast
    have b: "run_groups E r (g # before) (objs, Some f, w) = (Ok (), (objs2, Some f3, w3))"
      using h(2) True by (simp add: run_groups_Cons [OF g rf] f2(1))
    have v: "status_view (f3, w3) = finish (gr_Name ` set (g # before)) (status_view (f, w))"
      using run_groups_Ok_view [OF b] by simp
    have "g # gs = (g # before) @ g' # after" using h(1) by simp
    with b v h(3) show ?thesis by blast
  qed
qed simp

theorem failed_rollout_status_witness:
  "\<exists>objs' f' w'. run_groups sample_env (sample_rollout_runner no_result)
      [sample_group False [False]] (Map.empty,
        Some (NewFeedback sample_ulib (NewClient sample_cfg) (sample_status_obj [])), empty_world) =
      (Err (RunStepFailed (ObjectNotFound ''nowhere'')), (objs', Some f', w')) \<and>
    status_view (f', w') = []"
proof -
  let ?f = "NewFeedback sample_ulib (NewClient sample_cfg) (sample_status_obj [])"
  have run: "run_groups sample_env (sample_rollout_runner no_result) [sample_group False [False]]
      (Map.empty, Some ?f, empty_world) =
      (Err (RunStepFailed (ObjectNotFound ''nowhere'')), (Map.empty, Some ?f, empty_world))"
    by (simp add: run_groups.simps run_group_def sample_group_def run_sequential.simps missing_step_fails)
      (simp add: missing_step_def)
  have "status_view (?f, empty_world) = []" by (simp add: status_view_def NewFeedback_def)
  then show ?thesis using failed_rollout_status [OF run] run by blast
qed

text \<open>
  With \<^verbatim>\<open>renderOnly\<close> an execution renders and prints, and does nothing else: no action, no check,
  no status request; the configuration and its feedback stay as they are. A result that has no
  rollout or no specification is printed here, while a real run panics on it.
\<close>

theorem render_only_only_prints:
  assumes "rn_renderOnly r" "rn_provider r (case c of None \<Rightarrow> '''' | Some c \<Rightarrow> cf_RawConfig c) (pr_world p) = (Ok res, w1)"
  shows "\<exists>m. Execute E r c p =
    (of_sum (fst (e_Encode E res w1)), c, \<lparr>pr_world = snd (e_Encode E res w1), pr_metrics = m\<rparr>) \<and>
    mt_executions m = mt_executions (pr_metrics p) + 1"
proof -
  have "of_sum (fst (e_Encode E res w1)) \<noteq> Diverge" by simp
  then show ?thesis
    using assms by (cases c) (auto simp: Execute_def execute_body_def count_execution_def split: prod.splits)
qed

theorem render_only_only_prints_witness:
  "\<exists>p'. Execute sample_env (sample_rollout_runner no_result\<lparr>rn_renderOnly := True\<rparr>) None sample_proc =
     (Ok (), None, p') \<and> sw_log (pr_world p') = [''stdout'']"
  using render_only_only_prints [of "sample_rollout_runner no_result\<lparr>rn_renderOnly := True\<rparr>" None sample_proc
      no_result empty_world sample_env]
  by (auto simp: sample_proc_def sample_env_def sw_logged_def empty_world_def)

end
