(* ===== verification/WaitGroup.thy ===== *)
theory WaitGroup
  imports Rollout_Props
begin

text \<open>
  The goroutines of a parallel group (rollout.go, the loop of \<^verbatim>\<open>Execute\<close>) as a state machine: the
  counter of the wait group, the lock of the error list, and one program counter for each
  goroutine and for the loop. The steps interleave freely. What \<^verbatim>\<open>runStep\<close> does is left open here:
  a goroutine that runs it ends with some result.
\<close>

section \<open>States and steps\<close>

text \<open>
  A goroutine that failed takes the lock, reads the list, writes it back with its error, and
  releases the lock; \<^verbatim>\<open>wg.Done\<close> is deferred, so it comes last. The result is kept for the
  statements.
\<close>

datatype goroutine =
    NotStarted
  | Running                               \<comment> \<open>in \<^verbatim>\<open>runStep\<close>\<close>
  | Locking go_error                      \<comment> \<open>at \<^verbatim>\<open>errsLock.Lock()\<close>\<close>
  | Locked go_error                       \<comment> \<open>at \<^verbatim>\<open>multierror.Append\<close>, before it reads \<^verbatim>\<open>errs\<close>\<close>
  | Appending go_error "go_error list"    \<comment> \<open>the list as it was read\<close>
  | Unlocking go_error                    \<comment> \<open>at \<^verbatim>\<open>errsLock.Unlock()\<close>\<close>
  | Returning "go_error option"           \<comment> \<open>at the deferred \<^verbatim>\<open>wg.Done()\<close>\<close>
  | Returned "go_error option"

text \<open>The loop adds to the counter before it starts the goroutine.\<close>

datatype loop = Adding nat | Starting nat | Waiting | Passed

record group_state =
  gs_loop :: loop
  gs_counter :: int
  gs_lock :: "nat option"
  gs_errs :: "go_error list"
  gs_gos :: "goroutine list"

definition group_start :: "nat \<Rightarrow> group_state" where
  "group_start n =
     \<lparr>gs_loop = Adding 0, gs_counter = 0, gs_lock = None, gs_errs = [], gs_gos = replicate n NotStarted\<rparr>"

definition go_at :: "group_state \<Rightarrow> nat \<Rightarrow> goroutine \<Rightarrow> bool" where
  "go_at s i g \<longleftrightarrow> i < length (gs_gos s) \<and> gs_gos s ! i = g"

definition go_to :: "nat \<Rightarrow> goroutine \<Rightarrow> group_state \<Rightarrow> group_state" where
  "go_to i g s = s\<lparr>gs_gos := (gs_gos s)[i := g]\<rparr>"

inductive gstep :: "group_state \<Rightarrow> group_state \<Rightarrow> bool" where
  Add: "gs_loop s = Adding i \<Longrightarrow> i < length (gs_gos s) \<Longrightarrow>
    gstep s (s\<lparr>gs_counter := gs_counter s + 1, gs_loop := Starting i\<rparr>)"
| Go: "gs_loop s = Starting i \<Longrightarrow> gstep s (go_to i Running (s\<lparr>gs_loop := Adding (Suc i)\<rparr>))"
| LoopEnds: "gs_loop s = Adding i \<Longrightarrow> i = length (gs_gos s) \<Longrightarrow> gstep s (s\<lparr>gs_loop := Waiting\<rparr>)"
| Wait: "gs_loop s = Waiting \<Longrightarrow> gs_counter s = 0 \<Longrightarrow> gstep s (s\<lparr>gs_loop := Passed\<rparr>)"
| Succeeds: "go_at s i Running \<Longrightarrow> gstep s (go_to i (Returning None) s)"
| Fails: "go_at s i Running \<Longrightarrow> gstep s (go_to i (Locking e) s)"
| Lock: "go_at s i (Locking e) \<Longrightarrow> gs_lock s = None \<Longrightarrow>
    gstep s (go_to i (Locked e) (s\<lparr>gs_lock := Some i\<rparr>))"
| Read: "go_at s i (Locked e) \<Longrightarrow> gstep s (go_to i (Appending e (gs_errs s)) s)"
| Write: "go_at s i (Appending e es) \<Longrightarrow>
    gstep s (go_to i (Unlocking e) (s\<lparr>gs_errs := es @ [e]\<rparr>))"
| Unlock: "go_at s i (Unlocking e) \<Longrightarrow>
    gstep s (go_to i (Returning (Some e)) (s\<lparr>gs_lock := None\<rparr>))"
| Done: "go_at s i (Returning r) \<Longrightarrow>
    gstep s (go_to i (Returned r) (s\<lparr>gs_counter := gs_counter s - 1\<rparr>))"

inductive_cases gstepE: "gstep s s'"

inductive greach :: "nat \<Rightarrow> group_state \<Rightarrow> bool" for n where
  greach_start: "greach n (group_start n)"
| greach_step: "greach n s \<Longrightarrow> gstep s s' \<Longrightarrow> greach n s'"

section \<open>The invariant\<close>

fun started :: "loop \<Rightarrow> nat \<Rightarrow> nat" where
  "started (Adding i) n = i"
| "started (Starting i) n = i"
| "started Waiting n = n"
| "started Passed n = n"

fun active :: "goroutine \<Rightarrow> int" where
  "active NotStarted = 0"
| "active (Returned r) = 0"
| "active _ = 1"

fun pending :: "loop \<Rightarrow> int" where
  "pending (Starting i) = 1"
| "pending _ = 0"

fun holds_lock :: "goroutine \<Rightarrow> bool" where
  "holds_lock (Locked e) = True"
| "holds_lock (Appending e es) = True"
| "holds_lock (Unlocking e) = True"
| "holds_lock _ = False"

fun recorded :: "goroutine \<Rightarrow> go_error multiset" where
  "recorded (Unlocking e) = {#e#}"
| "recorded (Returning (Some e)) = {#e#}"
| "recorded (Returned (Some e)) = {#e#}"
| "recorded _ = {#}"

definition loop_inv :: "group_state \<Rightarrow> bool" where
  "loop_inv s \<longleftrightarrow> started (gs_loop s) (length (gs_gos s)) \<le> length (gs_gos s) \<and>
     (\<forall>i. gs_loop s = Starting i \<longrightarrow> i < length (gs_gos s)) \<and>
     (\<forall>i < length (gs_gos s). gs_gos s ! i = NotStarted \<longleftrightarrow> started (gs_loop s) (length (gs_gos s)) \<le> i)"

definition counter_inv :: "group_state \<Rightarrow> bool" where
  "counter_inv s \<longleftrightarrow> gs_counter s = sum_list (map active (gs_gos s)) + pending (gs_loop s)"

definition lock_inv :: "group_state \<Rightarrow> bool" where
  "lock_inv s \<longleftrightarrow> (\<forall>i < length (gs_gos s). holds_lock (gs_gos s ! i) \<longleftrightarrow> gs_lock s = Some i) \<and>
     (\<forall>i. gs_lock s = Some i \<longrightarrow> i < length (gs_gos s)) \<and>
     (\<forall>i e es. go_at s i (Appending e es) \<longrightarrow> es = gs_errs s)"

definition errs_inv :: "group_state \<Rightarrow> bool" where
  "errs_inv s \<longleftrightarrow> mset (gs_errs s) = sum_list (map recorded (gs_gos s))"

definition wait_inv :: "group_state \<Rightarrow> bool" where
  "wait_inv s \<longleftrightarrow> (gs_loop s = Passed \<longrightarrow> (\<forall>g \<in> set (gs_gos s). \<exists>r. g = Returned r))"

definition group_inv :: "group_state \<Rightarrow> bool" where
  "group_inv s \<longleftrightarrow> loop_inv s \<and> counter_inv s \<and> lock_inv s \<and> errs_inv s \<and> wait_inv s"

lemma sum_list_list_update:
  fixes f :: "'a \<Rightarrow> 'b::comm_monoid_add"
  shows "i < length xs \<Longrightarrow> sum_list (map f (xs[i := y])) + f (xs ! i) = sum_list (map f xs) + f y"
proof (induction xs arbitrary: i)
  case (Cons x xs)
  show ?case
  proof (cases i)
    case (Suc j)
    have "sum_list (map f (xs[j := y])) + f (xs ! j) = sum_list (map f xs) + f y"
      using Cons Suc by simp
    then show ?thesis by (simp add: Suc add.assoc)
  qed (simp add: ac_simps)
qed simp

lemma go_to_simps [simp]:
  "gs_loop (go_to i g s) = gs_loop s" "gs_counter (go_to i g s) = gs_counter s"
  "gs_lock (go_to i g s) = gs_lock s" "gs_errs (go_to i g s) = gs_errs s"
  "gs_gos (go_to i g s) = (gs_gos s)[i := g]"
  by (simp_all add: go_to_def)

lemma gstep_length: "gstep s s' \<Longrightarrow> length (gs_gos s') = length (gs_gos s)"
  by (induction rule: gstep.induct) simp_all

lemma gstep_loop_inv: "gstep s s' \<Longrightarrow> loop_inv s \<Longrightarrow> loop_inv s'"
  by (induction rule: gstep.induct) (auto simp: loop_inv_def go_at_def nth_list_update less_Suc_eq_le)

text \<open>The counter and the recorded errors under a move of one goroutine.\<close>

lemma active_move:
  "go_at s i g \<Longrightarrow> sum_list (map active ((gs_gos s)[i := h])) = sum_list (map active (gs_gos s)) + active h - active g"
  using sum_list_list_update [of i "gs_gos s" active h] by (simp add: go_at_def)

lemma recorded_move:
  "go_at s i g \<Longrightarrow>
   sum_list (map recorded ((gs_gos s)[i := h])) + recorded g = sum_list (map recorded (gs_gos s)) + recorded h"
  using sum_list_list_update [of i "gs_gos s" recorded h] by (simp add: go_at_def)

lemma gstep_counter_inv:
  assumes "gstep s s'" "loop_inv s" "counter_inv s"
  shows "counter_inv s'"
  using assms
proof (induction rule: gstep.induct)
  case (Go s i)
  then have "go_at s i NotStarted" by (auto simp: loop_inv_def go_at_def)
  from active_move [OF this, of Running] Go show ?case by (simp add: counter_inv_def)
qed (auto simp: counter_inv_def active_move)

lemma gstep_errs_inv:
  assumes "gstep s s'" "loop_inv s" "lock_inv s" "errs_inv s"
  shows "errs_inv s'"
  using assms
proof (induction rule: gstep.induct)
  case (Go s i)
  then have "go_at s i NotStarted" by (auto simp: loop_inv_def go_at_def)
  from recorded_move [OF this, of Running] Go show ?case by (simp add: errs_inv_def)
next
  case (Write s i e es)
  then have "es = gs_errs s" by (simp add: lock_inv_def)
  with recorded_move [OF Write(1), of "Unlocking e"] Write show ?case by (simp add: errs_inv_def)
next
  case (Succeeds s i)
  with recorded_move [OF Succeeds(1), of "Returning None"] show ?case by (simp add: errs_inv_def)
next
  case (Fails s i e)
  with recorded_move [OF Fails(1), of "Locking e"] show ?case by (simp add: errs_inv_def)
next
  case (Lock s i e)
  with recorded_move [OF Lock(1), of "Locked e"] show ?case by (simp add: errs_inv_def)
next
  case (Read s i e)
  with recorded_move [OF Read(1), of "Appending e (gs_errs s)"] show ?case by (simp add: errs_inv_def)
next
  case (Unlock s i e)
  with recorded_move [OF Unlock(1), of "Returning (Some e)"] show ?case by (simp add: errs_inv_def)
next
  case (Done s i r)
  with recorded_move [OF Done(1), of "Returned r"] show ?case by (cases r) (simp_all add: errs_inv_def)
qed (simp_all add: errs_inv_def)

lemma gstep_lock_inv:
  assumes "gstep s s'" "loop_inv s" "lock_inv s"
  shows "lock_inv s'"
  using assms
proof (induction rule: gstep.induct)
  case (Go s i)
  then have "gs_gos s ! i = NotStarted" "i < length (gs_gos s)" by (auto simp: loop_inv_def)
  with Go show ?case by (auto simp: lock_inv_def go_at_def nth_list_update split: if_splits)
next
  case (Write s i e es)
  have held: "gs_lock s = Some j" if "go_at s j (Appending e' es')" for j e' es'
    using that Write(3) by (auto simp: lock_inv_def go_at_def)
  have "j = i" if "go_at s j (Appending e' es')" for j e' es'
    using held [OF that] held [OF Write(1)] by simp
  then have "\<not> go_at (go_to i (Unlocking e) (s\<lparr>gs_errs := es @ [e]\<rparr>)) j (Appending e' es')" for j e' es'
    unfolding go_at_def by (cases "j = i") auto
  moreover have "holds_lock ((gs_gos s)[i := Unlocking e] ! j) \<longleftrightarrow> gs_lock s = Some j"
    if "j < length (gs_gos s)" for j
    using that Write(3) held [OF Write(1)] by (cases "j = i") (simp_all add: lock_inv_def)
  ultimately show ?case using Write(3) by (simp add: lock_inv_def)
qed (auto simp: lock_inv_def go_at_def nth_list_update split: if_splits)

lemma active_nonneg: "0 \<le> active g"
  by (cases g) simp_all

lemma active_zero: "active g = 0 \<longleftrightarrow> g = NotStarted \<or> (\<exists>r. g = Returned r)"
  by (cases g) simp_all

lemma all_inactive: "sum_list (map active gs) = 0 \<longleftrightarrow> (\<forall>g \<in> set gs. active g = 0)"
  by (subst sum_list_nonneg_eq_0_iff) (auto simp: active_nonneg)

lemma gstep_wait_inv:
  assumes "gstep s s'" "loop_inv s" "counter_inv s" "wait_inv s"
  shows "wait_inv s'"
  using assms
proof (induction rule: gstep.induct)
  case (Wait s)
  then have "\<forall>g \<in> set (gs_gos s). active g = 0"
    using all_inactive [of "gs_gos s"] by (simp add: counter_inv_def)
  moreover have "\<forall>g \<in> set (gs_gos s). g \<noteq> NotStarted"
    using Wait by (auto simp: loop_inv_def in_set_conv_nth)
  ultimately show ?case by (auto simp: wait_inv_def active_zero)
qed (auto simp: wait_inv_def go_at_def dest!: nth_mem)

lemma group_inv_start: "group_inv (group_start n)"
proof -
  have "sum_list (replicate n {#}) = ({#} :: go_error multiset)" "sum_list (replicate n (0 :: int)) = 0"
    by (induction n) simp_all
  then show ?thesis
    by (auto simp: group_inv_def loop_inv_def counter_inv_def lock_inv_def errs_inv_def wait_inv_def
        go_at_def group_start_def)
qed

lemma greach_inv: "greach n s \<Longrightarrow> group_inv s \<and> length (gs_gos s) = n"
proof (induction rule: greach.induct)
  case greach_start
  then show ?case using group_inv_start by (simp add: group_start_def)
next
  case (greach_step s s')
  then show ?case
    using gstep_loop_inv gstep_counter_inv gstep_lock_inv gstep_errs_inv gstep_wait_inv gstep_length
    by (simp add: group_inv_def)
qed

section \<open>Properties\<close>

fun go_result :: "goroutine \<Rightarrow> go_error option" where
  "go_result (Returned r) = r"
| "go_result _ = None"

lemma recorded_results:
  "\<forall>g \<in> set gs. \<exists>r. g = Returned r \<Longrightarrow> sum_list (map recorded gs) = mset (List.map_filter go_result gs)"
proof (induction gs)
  case (Cons g gs)
  then obtain r where "g = Returned r" by auto
  with Cons show ?case by (cases r) (simp_all add: map_filter_simps)
qed (simp add: map_filter_simps)

lemma passed_results:
  assumes "greach n s" "gs_loop s = Passed"
  shows "length (gs_gos s) = n \<and> (\<forall>g \<in> set (gs_gos s). \<exists>r. g = Returned r) \<and>
    mset (gs_errs s) = mset (List.map_filter go_result (gs_gos s))"
proof -
  have "\<forall>g \<in> set (gs_gos s). \<exists>r. g = Returned r"
    using greach_inv [OF assms(1)] assms(2) by (simp add: group_inv_def wait_inv_def)
  then show ?thesis
    using greach_inv [OF assms(1)] recorded_results [of "gs_gos s"]
    by (simp add: group_inv_def errs_inv_def)
qed

text \<open>
  C1: However the goroutines of a parallel group interleave, when \<^verbatim>\<open>wg.Wait\<close> has returned every one of
  them has returned, and the error list holds the error of each that failed, no more and no less.
\<close>

theorem wait_returns_after_all_with_all_errors:
  assumes "greach n s" "gs_loop s = Passed"
  shows "length (gs_gos s) = n \<and> (\<forall>g \<in> set (gs_gos s). \<exists>r. g = Returned r) \<and>
    mset (gs_errs s) = mset (List.map_filter go_result (gs_gos s))"
  using passed_results [OF assms] .

text \<open>
  C12: At most one goroutine is between taking and releasing the lock, and the list that it has read
  is still the list when it writes: no error is overwritten.
\<close>

theorem error_list_is_exclusive:
  assumes "greach n s" "i < n" "holds_lock (gs_gos s ! i)"
  shows "(\<forall>j < n. holds_lock (gs_gos s ! j) \<longrightarrow> j = i) \<and>
    (\<forall>e es. gs_gos s ! i = Appending e es \<longrightarrow> es = gs_errs s)"
  using greach_inv [OF assms(1)] assms(2,3) by (auto simp: group_inv_def lock_inv_def go_at_def)

lemma active_steps:
  assumes "lock_inv s" "i < length (gs_gos s)" "active (gs_gos s ! i) \<noteq> 0"
  shows "\<exists>s'. gstep s s'"
proof -
  have at: "go_at s i (gs_gos s ! i)" using assms(2) by (simp add: go_at_def)
  have free: "\<exists>s'. gstep s s'" if "holds_lock (gs_gos s ! j)" "j < length (gs_gos s)" for j
  proof -
    have "go_at s j (gs_gos s ! j)" using that(2) by (simp add: go_at_def)
    then show ?thesis using that(1) by (cases "gs_gos s ! j") (auto intro: gstep.intros)
  qed
  show ?thesis
  proof (cases "gs_gos s ! i")
    case (Locking e)
    show ?thesis
    proof (cases "gs_lock s")
      case None
      then show ?thesis using at Locking by (auto intro: gstep.Lock)
    next
      case (Some j)
      then show ?thesis using assms(1) free by (auto simp: lock_inv_def)
    qed
  qed (use assms at free in \<open>auto intro: gstep.intros\<close>)
qed

lemma group_moves:
  assumes "greach n s" "gs_loop s \<noteq> Passed"
  shows "\<exists>s'. gstep s s'"
proof -
  have inv: "loop_inv s" "counter_inv s" "lock_inv s"
    using greach_inv [OF assms(1)] by (simp_all add: group_inv_def)
  show ?thesis
  proof (cases "gs_loop s")
    case (Adding i)
    then have "i < length (gs_gos s) \<or> i = length (gs_gos s)" using inv(1) by (auto simp: loop_inv_def)
    then show ?thesis using Adding by (auto intro: gstep.Add gstep.LoopEnds)
  next
    case (Starting i)
    then show ?thesis by (auto intro: gstep.Go)
  next
    case Waiting
    show ?thesis
    proof (cases "gs_counter s = 0")
      case False
      then have "sum_list (map active (gs_gos s)) \<noteq> 0" using inv(2) Waiting by (simp add: counter_inv_def)
      then obtain i where "i < length (gs_gos s)" "active (gs_gos s ! i) \<noteq> 0"
        unfolding all_inactive by (auto simp: in_set_conv_nth)
      then show ?thesis by (rule active_steps [OF inv(3)])
    qed (use Waiting in \<open>auto intro: gstep.Wait\<close>)
  qed (use assms(2) in simp)
qed


text \<open>Once \<^verbatim>\<open>wg.Wait\<close> has returned, no goroutine is left that could move.\<close>

lemma passed_is_final:
  assumes "greach n s" "gs_loop s = Passed"
  shows "\<not> gstep s s'"
proof
  assume "gstep s s'"
  moreover have r: "\<forall>g \<in> set (gs_gos s). \<exists>q. g = Returned q" using passed_results [OF assms] by simp
  have "\<exists>q. g = Returned q" if "go_at s i g" for i g
    using that r by (auto simp: go_at_def)
  ultimately show False using assms(2) by cases fastforce+
qed

fun go_rank :: "goroutine \<Rightarrow> nat" where
  "go_rank NotStarted = 7"
| "go_rank Running = 6"
| "go_rank (Locking e) = 5"
| "go_rank (Locked e) = 4"
| "go_rank (Appending e es) = 3"
| "go_rank (Unlocking e) = 2"
| "go_rank (Returning r) = 1"
| "go_rank (Returned r) = 0"

fun loop_rank :: "nat \<Rightarrow> loop \<Rightarrow> nat" where
  "loop_rank n (Adding i) = 2 * (n - i) + 2"
| "loop_rank n (Starting i) = 2 * (n - i) + 1"
| "loop_rank n Waiting = 1"
| "loop_rank n Passed = 0"

definition group_rank :: "group_state \<Rightarrow> nat" where
  "group_rank s = loop_rank (length (gs_gos s)) (gs_loop s) + sum_list (map go_rank (gs_gos s))"

lemma go_rank_move:
  "go_at s i g \<Longrightarrow>
   sum_list (map go_rank ((gs_gos s)[i := h])) + go_rank g = sum_list (map go_rank (gs_gos s)) + go_rank h"
  using sum_list_list_update [of i "gs_gos s" go_rank h] by (simp add: go_at_def)

lemma gstep_rank: "gstep s s' \<Longrightarrow> loop_inv s \<Longrightarrow> group_rank s' < group_rank s"
proof (induction rule: gstep.induct)
  case (Go s i)
  then have "go_at s i NotStarted" by (auto simp: loop_inv_def go_at_def)
  from go_rank_move [OF this, of Running] Go show ?case by (auto simp: group_rank_def loop_inv_def)
next
  case (Succeeds s i)
  with go_rank_move [OF Succeeds(1), of "Returning None"] show ?case by (simp add: group_rank_def)
next
  case (Fails s i e)
  with go_rank_move [OF Fails(1), of "Locking e"] show ?case by (simp add: group_rank_def)
next
  case (Lock s i e)
  with go_rank_move [OF Lock(1), of "Locked e"] show ?case by (simp add: group_rank_def)
next
  case (Read s i e)
  with go_rank_move [OF Read(1), of "Appending e (gs_errs s)"] show ?case by (simp add: group_rank_def)
next
  case (Write s i e es)
  with go_rank_move [OF Write(1), of "Unlocking e"] show ?case by (simp add: group_rank_def)
next
  case (Unlock s i e)
  with go_rank_move [OF Unlock(1), of "Returning (Some e)"] show ?case by (simp add: group_rank_def)
next
  case (Done s i r)
  with go_rank_move [OF Done(1), of "Returned r"] show ?case by (simp add: group_rank_def)
qed (auto simp: group_rank_def)

lemma group_run_bound:
  assumes "(gstep ^^ k) (group_start n) s"
  shows "greach n s \<and> k + group_rank s \<le> 9 * n + 2"
  using assms
proof (induction k arbitrary: s)
  case 0
  then have "s = group_start n" by simp
  then show ?case
    using greach_start [of n] by (simp add: group_rank_def) (simp add: group_start_def sum_list_replicate)
next
  case (Suc k)
  then obtain t where t: "(gstep ^^ k) (group_start n) t" "gstep t s" by auto
  with Suc.IH have r: "greach n t" "k + group_rank t \<le> 9 * n + 2" by auto
  then have "group_rank s < group_rank t"
    using gstep_rank [OF t(2)] greach_inv [OF r(1)] by (simp add: group_inv_def)
  with r t(2) show ?case by (auto intro: greach_step)
qed

lemma group_run_passes:
  "greach n s \<Longrightarrow> \<exists>m s'. m \<le> group_rank s \<and> (gstep ^^ m) s s' \<and> gs_loop s' = Passed"
proof (induction "group_rank s" arbitrary: s rule: less_induct)
  case less
  show ?case
  proof (cases "gs_loop s = Passed")
    case True
    then show ?thesis by (intro exI [of _ 0] exI [of _ s]) simp
  next
    case False
    then obtain t where t: "gstep s t" using group_moves [OF less.prems] by blast
    have r: "group_rank t < group_rank s"
      using gstep_rank [OF t] greach_inv [OF less.prems] by (simp add: group_inv_def)
    from less.hyps [OF r greach_step [OF less.prems t]]
    obtain m s' where "m \<le> group_rank t" "(gstep ^^ m) t s'" "gs_loop s' = Passed" by blast
    moreover from this t have "(gstep ^^ Suc m) s s'" by (intro relpowp_Suc_I2)
    ultimately show ?thesis using r by (intro exI [of _ "Suc m"] exI [of _ s']) simp
  qed
qed

text \<open>
  C13: A parallel group ends. No run of the machine for \<open>n\<close> steps of a group makes more than \<open>9 n + 2\<close>
  moves, each \<^verbatim>\<open>runStep\<close> counting as one that returns; wherever it stands it can be continued, within
  that bound, until \<^verbatim>\<open>wg.Wait\<close> has returned; and it cannot be continued exactly when \<^verbatim>\<open>wg.Wait\<close> has
  returned. So every run that goes on as long as it can gets past \<^verbatim>\<open>wg.Wait\<close>.
\<close>

theorem parallel_group_ends:
  assumes "(gstep ^^ k) (group_start n) s"
  shows "k \<le> 9 * n + 2 \<and>
    (\<exists>m s'. k + m \<le> 9 * n + 2 \<and> (gstep ^^ m) s s' \<and> gs_loop s' = Passed) \<and>
    ((\<nexists>s'. gstep s s') \<longleftrightarrow> gs_loop s = Passed)"
proof -
  have r: "greach n s" "k + group_rank s \<le> 9 * n + 2" using group_run_bound [OF assms] by auto
  obtain m s' where m: "m \<le> group_rank s" "(gstep ^^ m) s s'" "gs_loop s' = Passed"
    using group_run_passes [OF r(1)] by blast
  have "\<exists>m s'. k + m \<le> 9 * n + 2 \<and> (gstep ^^ m) s s' \<and> gs_loop s' = Passed"
    by (intro exI [of _ m] exI [of _ s']) (use m r(2) in auto)
  moreover have "(\<nexists>s'. gstep s s') \<longleftrightarrow> gs_loop s = Passed"
    using group_moves [OF r(1)] passed_is_final [OF r(1)] by blast
  ultimately show ?thesis using r(2) by simp
qed

section \<open>A run with one failing goroutine\<close>

definition one_go :: "loop \<Rightarrow> int \<Rightarrow> nat option \<Rightarrow> go_error list \<Rightarrow> goroutine \<Rightarrow> group_state" where
  "one_go l c k es g = \<lparr>gs_loop = l, gs_counter = c, gs_lock = k, gs_errs = es, gs_gos = [g]\<rparr>"

lemma one_go_steps:
  "gstep (one_go (Adding 0) 0 None [] NotStarted) (one_go (Starting 0) 1 None [] NotStarted)"
  "gstep (one_go (Starting 0) 1 None [] NotStarted) (one_go (Adding 1) 1 None [] Running)"
  "gstep (one_go (Adding 1) 1 None [] Running) (one_go Waiting 1 None [] Running)"
  "gstep (one_go Waiting 1 None [] Running) (one_go Waiting 1 None [] (Locking e))"
  "gstep (one_go Waiting 1 None [] (Locking e)) (one_go Waiting 1 (Some 0) [] (Locked e))"
  "gstep (one_go Waiting 1 (Some 0) [] (Locked e)) (one_go Waiting 1 (Some 0) [] (Appending e []))"
  "gstep (one_go Waiting 1 (Some 0) [] (Appending e [])) (one_go Waiting 1 (Some 0) [e] (Unlocking e))"
  "gstep (one_go Waiting 1 (Some 0) [e] (Unlocking e)) (one_go Waiting 1 None [e] (Returning (Some e)))"
  "gstep (one_go Waiting 1 None [e] (Returning (Some e))) (one_go Waiting 0 None [e] (Returned (Some e)))"
  "gstep (one_go Waiting 0 None [e] (Returned (Some e))) (one_go Passed 0 None [e] (Returned (Some e)))"
  using gstep.Add [of "one_go (Adding 0) 0 None [] NotStarted" 0]
    gstep.Go [of "one_go (Starting 0) 1 None [] NotStarted" 0]
    gstep.LoopEnds [of "one_go (Adding 1) 1 None [] Running" 1]
    gstep.Fails [of "one_go Waiting 1 None [] Running" 0 e]
    gstep.Lock [of "one_go Waiting 1 None [] (Locking e)" 0 e]
    gstep.Read [of "one_go Waiting 1 (Some 0) [] (Locked e)" 0 e]
    gstep.Write [of "one_go Waiting 1 (Some 0) [] (Appending e [])" 0 e "[]"]
    gstep.Unlock [of "one_go Waiting 1 (Some 0) [e] (Unlocking e)" 0 e]
    gstep.Done [of "one_go Waiting 1 None [e] (Returning (Some e))" 0 "Some e"]
    gstep.Wait [of "one_go Waiting 0 None [e] (Returned (Some e))"]
  by (simp_all add: one_go_def go_to_def go_at_def)

lemma one_go_start: "group_start 1 = one_go (Adding 0) 0 None [] NotStarted"
  by (simp add: group_start_def one_go_def)

lemma one_go_appending: "greach 1 (one_go Waiting 1 (Some 0) [] (Appending e []))"
  by (rule greach_step [OF greach_step [OF greach_step [OF greach_step [OF greach_step [OF greach_step
      [OF greach_start [of 1, unfolded one_go_start] one_go_steps(1)] one_go_steps(2)] one_go_steps(3)]
      one_go_steps(4)] one_go_steps(5)] one_go_steps(6)])

lemma one_go_passed: "greach 1 (one_go Passed 0 None [e] (Returned (Some e)))"
  by (rule greach_step [OF greach_step [OF greach_step [OF greach_step [OF one_go_appending
      one_go_steps(7)] one_go_steps(8)] one_go_steps(9)] one_go_steps(10)])

theorem wait_returns_after_all_with_all_errors_witness:
  "mset (gs_errs (one_go Passed 0 None [ErrNotAJob] (Returned (Some ErrNotAJob)))) = {#ErrNotAJob#}"
  using wait_returns_after_all_with_all_errors [OF one_go_passed [of ErrNotAJob]]
  by (simp add: one_go_def)

theorem error_list_is_exclusive_witness:
  "gs_errs (one_go Waiting 1 (Some 0) [] (Appending ErrNotAJob [])) = []"
  using error_list_is_exclusive [OF one_go_appending [of ErrNotAJob], of 0]
  by (simp add: one_go_def)


theorem parallel_group_ends_witness:
  "\<exists>m s'. 1 + m \<le> 9 * 1 + (2 :: nat) \<and>
    (gstep ^^ m) (one_go (Starting 0) 1 None [] NotStarted) s' \<and> gs_loop s' = Passed"
proof -
  have "(gstep ^^ 1) (group_start 1) (one_go (Starting 0) 1 None [] NotStarted)"
    unfolding one_go_start relpowp_1 by (rule one_go_steps(1))
  from parallel_group_ends [OF this] show ?thesis by blast
qed

end
