(* ===== verification/Duration_Text.thy ===== *)
theory Duration_Text
  imports Duration
begin

text \<open>
  The text of a duration (rollout/types/types.go, \<^verbatim>\<open>Duration.MarshalJSON\<close>): the standard library's
  \<^verbatim>\<open>Duration.String\<close>, and the proof that \<^verbatim>\<open>UnmarshalJSON\<close> reads back every duration that was written.
\<close>

section \<open>Writing\<close>

text \<open>
  \<^verbatim>\<open>fmtFrac\<close> writes backwards: the last \<open>k\<close> decimal digits of \<open>v\<close> without trailing zeros, and the
  point before them unless all were zero; it returns what is left of \<open>v\<close>.
\<close>

fun fmtFrac :: "nat \<Rightarrow> nat \<Rightarrow> bool \<Rightarrow> string \<Rightarrow> string \<times> nat" where
  "fmtFrac 0 v print buf = (if print then CHR ''.'' # buf else buf, v)"
| "fmtFrac (Suc k) v print buf =
     (let digit = v mod 10; print' = (print \<or> digit \<noteq> 0)
      in fmtFrac k (v div 10) print' (if print' then char_of (48 + digit) # buf else buf))"

definition micro_seconds :: string where
  "micro_seconds = [CHR 0xC2, CHR 0xB5, CHR ''s'']"

definition small_text :: "nat \<Rightarrow> string" where
  "small_text u =
     (if u = 0 then ''0s''
      else let (prec, unit) =
             (if u < 1000 then (0, ''ns'') else if u < 1000000 then (3, micro_seconds) else (6, ''ms''));
             (fr, v) = fmtFrac prec u False []
           in show_nat v @ fr @ unit)"

definition large_text :: "nat \<Rightarrow> string" where
  "large_text u =
     (let (fr, v) = fmtFrac 9 u False [];
          seconds = show_nat (v mod 60) @ fr @ ''s'';
          v1 = v div 60
      in if v1 > 0 then
           (let minutes = show_nat (v1 mod 60) @ ''m'' @ seconds; v2 = v1 div 60
            in if v2 > 0 then show_nat v2 @ ''h'' @ minutes else minutes)
         else seconds)"

definition duration_String :: "duration \<Rightarrow> string" where
  "duration_String d =
     (let neg = sint (nanoseconds d) < 0;
          u = unat (if neg then - nanoseconds d else nanoseconds d)
      in (if neg then ''-'' else []) @ (if u < 1000000000 then small_text u else large_text u))"

definition MarshalJSON :: "duration \<Rightarrow> gov" where
  "MarshalJSON d = VStr (duration_String d)"

section \<open>Digits\<close>

text \<open>The last \<open>k\<close> digits of a number, and the number that digits stand for.\<close>

fun pad :: "nat \<Rightarrow> nat \<Rightarrow> string" where
  "pad 0 m = []"
| "pad (Suc k) m = pad k (m div 10) @ [char_of (48 + m mod 10)]"

definition digits_val :: "nat \<Rightarrow> string \<Rightarrow> nat" where
  "digits_val x ds = foldl (\<lambda>x c. x * 10 + digit_val c) x ds"

lemma digits_val_simps [simp]:
  "digits_val x [] = x" "digits_val x (c # ds) = digits_val (x * 10 + digit_val c) ds"
  "digits_val x (ds @ es) = digits_val (digits_val x ds) es"
  by (simp_all add: digits_val_def)

lemma length_pad [simp]: "length (pad k m) = k"
  by (induction k arbitrary: m) simp_all

lemma pad_digits: "c \<in> set (pad k m) \<Longrightarrow> is_digit c"
  by (induction k arbitrary: m) (auto simp: is_digit_char_of)

lemma mod_ten_power: "10 * (m div 10 mod 10 ^ k) + m mod 10 = m mod (10 * 10 ^ k)" for m :: nat
  by (simp add: mod_mult2_eq)

lemma digits_val_pad: "digits_val 0 (pad k m) = m mod 10 ^ k"
proof (induction k arbitrary: m)
  case (Suc k)
  show ?case
    using mod_ten_power [of m k] by (simp add: Suc digit_val_char_of mult.commute)
qed simp

lemma fmtFrac_print: "fmtFrac k v True buf = (CHR ''.'' # pad k v @ buf, v div 10 ^ k)"
  by (induction k arbitrary: v buf) (simp_all add: Let_def div_mult2_eq)

lemma fmtFrac_result:
  "snd (fmtFrac k v False []) = v div 10 ^ k \<and>
   (if v mod 10 ^ k = 0 then fst (fmtFrac k v False []) = []
    else \<exists>j x. 0 < j \<and> j \<le> k \<and> fst (fmtFrac k v False []) = CHR ''.'' # pad j x \<and>
      0 < x mod 10 ^ j \<and> 10 ^ (k - j) * (x mod 10 ^ j) = v mod 10 ^ k)"
proof (induction k arbitrary: v)
  case (Suc k)
  show ?case
  proof (cases "v mod 10 = 0")
    case True
    have z: "v mod 10 ^ Suc k = 10 * (v div 10 mod 10 ^ k)"
      using mod_ten_power [of v k] True by simp
    show ?thesis
    proof (cases "v div 10 mod 10 ^ k = 0")
      case z0: True
      then show ?thesis using Suc [of "v div 10"] True z by (simp add: div_mult2_eq)
    next
      case False
      then obtain j x where j: "0 < j" "j \<le> k" "fst (fmtFrac k (v div 10) False []) = CHR ''.'' # pad j x"
        "0 < x mod 10 ^ j" "10 ^ (k - j) * (x mod 10 ^ j) = v div 10 mod 10 ^ k"
        using Suc [of "v div 10"] by auto
      have "10 ^ (Suc k - j) * (x mod 10 ^ j) = v mod 10 ^ Suc k"
        using z j(2,5) by (simp add: Suc_diff_le mult.assoc)
      then have "\<exists>j x. 0 < j \<and> j \<le> Suc k \<and> fst (fmtFrac (Suc k) v False []) = CHR ''.'' # pad j x \<and>
          0 < x mod 10 ^ j \<and> 10 ^ (Suc k - j) * (x mod 10 ^ j) = v mod 10 ^ Suc k"
        using True j by (intro exI [of _ j] exI [of _ x]) (simp add: Let_def)
      then show ?thesis using Suc [of "v div 10"] True False z by (simp add: div_mult2_eq)
    qed
  next
    case False
    have pos: "0 < v mod 10 ^ Suc k" using False mod_ten_power [of v k] by simp
    have f: "fmtFrac (Suc k) v False [] = (CHR ''.'' # pad (Suc k) v, v div 10 ^ Suc k)"
      using False by (simp add: Let_def fmtFrac_print div_mult2_eq)
    have "\<exists>j x. 0 < j \<and> j \<le> Suc k \<and> fst (fmtFrac (Suc k) v False []) = CHR ''.'' # pad j x \<and>
        0 < x mod 10 ^ j \<and> 10 ^ (Suc k - j) * (x mod 10 ^ j) = v mod 10 ^ Suc k"
      unfolding f using pos by (intro exI [of _ "Suc k"] exI [of _ v]) (simp del: pad.simps)
    then show ?thesis using f pos by simp
  qed
qed simp

section \<open>Reading one component back\<close>

lemma leadingFraction_digits:
  assumes "\<forall>c \<in> set ds. is_digit c" "digits_val x ds \<le> 10 ^ 9" "s = [] \<or> \<not> is_digit (hd s)"
  shows "leadingFraction x n False (ds @ s) = (digits_val x ds, n + length ds, s)"
  using assms
proof (induction ds arbitrary: x n)
  case Nil
  then show ?case by (cases s) auto
next
  case (Cons c ds)
  have mono: "y \<le> digits_val y es" for y es
  proof (induction es arbitrary: y)
    case (Cons e es)
    show ?case using Cons [of "y * 10 + digit_val e"] by simp
  qed simp
  have le: "x * 10 + digit_val c \<le> 10 ^ 9"
    using Cons.prems(2) mono [of "x * 10 + digit_val c" ds] by simp
  then show ?case using Cons by (simp add: Let_def)
qed

lemma takeWhile_unit:
  assumes "\<forall>c \<in> set u. unit_char c" "rest = [] \<or> \<not> unit_char (hd rest)"
  shows "takeWhile unit_char (u @ rest) = u" "dropWhile unit_char (u @ rest) = rest"
  using assms by (cases rest; auto simp: takeWhile_append dropWhile_append)+

text \<open>
  The product of a fraction and a unit is exact when the unit is a multiple of the scale and the
  numbers fit in the mantissa of a \<^verbatim>\<open>float64\<close>.
\<close>

definition frac_exact :: "(nat \<Rightarrow> nat \<Rightarrow> nat \<Rightarrow> nat) \<Rightarrow> bool" where
  "frac_exact frac \<longleftrightarrow>
     (\<forall>f unit n. 10 ^ n dvd unit \<and> f < 10 ^ n \<and> unit \<le> 2 ^ 53 \<longrightarrow>
        frac f unit n = f * (unit div 10 ^ n))"

lemma parse_component_text:
  assumes u: "map_of unitMap u = Some k" and n: "n * k \<le> 2 ^ 63"
    and rest: "rest = [] \<or> \<not> unit_char (hd rest)"
    and fr: "fr = [] \<and> F = 0 \<or>
      fr = CHR ''.'' # pad j x \<and> 0 < j \<and> j \<le> 9 \<and> 0 < x mod 10 ^ j \<and> F = frac (x mod 10 ^ j) k j"
    and F: "n * k + F \<le> 2 ^ 63"
  shows "parse_component frac (show_nat n @ fr @ u @ rest) = Some (n * k + F, rest)"
proof -
  have uc: "u \<noteq> []" "\<forall>c \<in> set u. unit_char c" "0 < k" using unitMap_units [OF u] by auto
  then have n': "n \<le> 2 ^ 63 div k" "n \<le> 2 ^ 63"
    using n order_trans [OF _ n, of n] by (simp_all add: less_eq_div_iff_mult_less_eq)
  obtain c r where cr: "show_nat n = c # r" using show_nat_not_Nil by (cases "show_nat n") auto
  then have c: "is_digit c" using show_nat_digits [of c n] by simp
  obtain d u' where du: "u = d # u'" using uc(1) by (cases u) auto
  then have d: "\<not> is_digit d" "d \<noteq> CHR ''.''" using uc(2) by (auto simp: unit_char_def)
  note tw = takeWhile_unit [OF uc(2) rest]
  have lead: "leadingInt 0 (show_nat n @ e # t) = Some (n, e # t)" if "\<not> is_digit e" for e t
    using that by (simp add: leadingInt_show_nat [OF n'(2)])
  show ?thesis
    using fr
  proof
    assume "fr = [] \<and> F = 0"
    then show ?thesis
      using lead [OF d(1), of "u' @ rest"] c cr d du u uc n' tw
      by (auto simp: parse_component_def Let_def)
  next
    assume fr': "fr = CHR ''.'' # pad j x \<and> 0 < j \<and> j \<le> 9 \<and> 0 < x mod 10 ^ j \<and> F = frac (x mod 10 ^ j) k j"
    have dot: "\<not> is_digit (CHR ''.'')" by (simp add: is_digit_def)
    have "x mod 10 ^ j \<le> 10 ^ 9"
      using fr' order_trans [OF less_imp_le [OF mod_less_divisor] power_increasing [of j 9 "10 :: nat"]]
      by simp
    then have lf: "leadingFraction 0 0 False (pad j x @ u @ rest) = (x mod 10 ^ j, j, u @ rest)"
      using leadingFraction_digits [of "pad j x" 0 "u @ rest" 0] d du
      by (simp add: pad_digits digits_val_pad)
    show ?thesis
      using lead [OF dot, of "pad j x @ u @ rest"] lf c cr fr' u uc n' tw F
      by (auto simp: parse_component_def Let_def)
  qed
qed

text \<open>A number of units with the fraction that \<open>fmtFrac\<close> has written.\<close>

lemma parse_component_fmtFrac:
  assumes E: "frac_exact frac" and u: "map_of unitMap u = Some (10 ^ p)" and p: "p \<le> 9"
    and fr: "fr = fst (fmtFrac p v False [])"
    and le: "m * 10 ^ p + v mod 10 ^ p \<le> 2 ^ 63"
    and rest: "rest = [] \<or> \<not> unit_char (hd rest)"
  shows "parse_component frac (show_nat m @ fr @ u @ rest) = Some (m * 10 ^ p + v mod 10 ^ p, rest)"
proof -
  have r: "if v mod 10 ^ p = 0 then fr = []
    else \<exists>j x. 0 < j \<and> j \<le> p \<and> fr = CHR ''.'' # pad j x \<and>
      0 < x mod 10 ^ j \<and> 10 ^ (p - j) * (x mod 10 ^ j) = v mod 10 ^ p"
    unfolding fr using fmtFrac_result by (rule conjunct2)
  have m: "m * 10 ^ p \<le> 2 ^ 63" using le by simp
  show ?thesis
  proof (cases "v mod 10 ^ p = 0")
    case True
    then show ?thesis using parse_component_text [OF u m rest, of fr 0 0 0 frac] m r by simp
  next
    case False
    then obtain j x where j: "0 < j" "j \<le> p" "fr = CHR ''.'' # pad j x" "0 < x mod 10 ^ j"
      "10 ^ (p - j) * (x mod 10 ^ j) = v mod 10 ^ p"
      using r by auto
    have "(10 :: nat) ^ p \<le> 10 ^ 9" using p by (rule power_increasing) simp
    then have "frac (x mod 10 ^ j) (10 ^ p) j = (x mod 10 ^ j) * (10 ^ p div 10 ^ j)"
      using E j(2) by (simp add: frac_exact_def le_imp_power_dvd)
    also have "\<dots> = v mod 10 ^ p" using j(2,5) by (simp add: power_diff mult.commute)
    finally have "v mod 10 ^ p = frac (x mod 10 ^ j) (10 ^ p) j" ..
    then show ?thesis using parse_component_text [OF u m rest _ le, of fr j x frac] j p by simp
  qed
qed

section \<open>Reading a text back\<close>

lemma hd_show_nat: "is_digit (hd (show_nat n @ s))" "show_nat n @ s \<noteq> []"
proof -
  obtain c r where cr: "show_nat n = c # r" using show_nat_not_Nil by (cases "show_nat n") auto
  then show "is_digit (hd (show_nat n @ s))" "show_nat n @ s \<noteq> []"
    using show_nat_digits [of c n] by simp_all
qed

lemma not_unit_show_nat: "\<not> unit_char (hd (show_nat n @ s))"
  using hd_show_nat(1) [of n s] by (simp add: unit_char_def)

lemma parse_loop_component:
  assumes "parse_component frac s = Some (v, rest)" "d + v \<le> 2 ^ 63"
  shows "parse_loop frac d s = parse_loop frac (d + v) rest"
proof -
  have "s \<noteq> []" using assms(1) by (auto simp: parse_component_def)
  then show ?thesis using assms by (subst parse_loop.simps) (simp add: Let_def)
qed

lemma parse_loop_Nil: "parse_loop frac d [] = Some d"
  by (subst parse_loop.simps) simp

lemma parse_small_text:
  assumes E: "frac_exact frac" and u: "0 < u" "u < 1000000000"
  shows "parse_loop frac 0 (small_text u) = Some u"
proof -
  have one: "parse_loop frac 0 (show_nat (u div 10 ^ p) @ fst (fmtFrac p u False []) @ unit) = Some u"
    if "map_of unitMap unit = Some (10 ^ p)" "p \<le> 9" for p unit
  proof -
    have v: "u div 10 ^ p * 10 ^ p + u mod 10 ^ p = u" by (rule div_mult_mod_eq)
    then have "parse_component frac (show_nat (u div 10 ^ p) @ fst (fmtFrac p u False []) @ unit @ []) = Some (u, [])"
      using parse_component_fmtFrac [OF E that refl, of "u div 10 ^ p" u "[]"] u by simp
    then show ?thesis using parse_loop_component [of frac _ u "[]" 0] u by (simp add: parse_loop_Nil)
  qed
  have snd: "snd (fmtFrac p u False []) = u div 10 ^ p" for p
    using fmtFrac_result [of p u] by simp
  show ?thesis
    using one [of "''ns''" 0] one [of micro_seconds 3] one [of "''ms''" 6] snd [of 3] snd [of 6] u(1)
    by (auto simp: small_text_def Let_def split_def unitMap_def micro_seconds_def)
qed

lemma parse_whole:
  assumes "map_of unitMap unit = Some k" "d + n * k \<le> 2 ^ 63" "rest = [] \<or> \<not> unit_char (hd rest)"
  shows "parse_loop frac d (show_nat n @ unit @ rest) = parse_loop frac (d + n * k) rest"
  using parse_component_text [OF assms(1) _ assms(3), of n "[]" 0] parse_loop_component assms(2) by simp

lemma hours_minutes_seconds:
  fixes u :: nat
  shows "u = u div t div 60 div 60 * (3600 * t) +
    (u div t div 60 mod 60 * (60 * t) + (u div t mod 60 * t + u mod t))"
proof -
  have v: "v = v div 60 div 60 * 3600 + (v div 60 mod 60 * 60 + v mod 60)" for v :: nat
  proof -
    have "v = h * 3600 + (m * 60 + s)" if "v = q * 60 + s" "q = h * 60 + m" for q h m s
      using that by (simp add: add_mult_distrib)
    then show ?thesis using div_mult_mod_eq [of v 60, symmetric] div_mult_mod_eq [of "v div 60" 60, symmetric]
      by blast
  qed
  have "u = u div t * t + u mod t" by (rule div_mult_mod_eq [symmetric])
  also have "u div t * t = (u div t div 60 div 60 * 3600 + (u div t div 60 mod 60 * 60 + u div t mod 60)) * t"
    using v [of "u div t"] by simp
  finally show ?thesis by (simp add: add_mult_distrib mult.assoc add.assoc)
qed

lemma parse_large_text:
  assumes E: "frac_exact frac" and u: "u \<le> 2 ^ 63"
  shows "parse_loop frac 0 (large_text u) = Some u"
proof -
  let ?fr = "fst (fmtFrac 9 u False [])" and ?v = "u div 10 ^ 9"
  let ?secs = "show_nat (?v mod 60) @ ?fr @ ''s''"
  have snd: "snd (fmtFrac 9 u False []) = ?v" using fmtFrac_result [of 9 u] by simp
  have s: "map_of unitMap ''s'' = Some (10 ^ 9)" "map_of unitMap ''m'' = Some (60 * 10 ^ 9)"
    "map_of unitMap ''h'' = Some (3600 * 10 ^ 9)"
    by (simp_all add: unitMap_def)
  have secs: "parse_loop frac d ?secs = Some (d + (?v mod 60 * 10 ^ 9 + u mod 10 ^ 9))"
    if "d + (?v mod 60 * 10 ^ 9 + u mod 10 ^ 9) \<le> 2 ^ 63" for d
    using parse_component_fmtFrac [OF E s(1) _ refl, of "?v mod 60" u "[]"] that
      parse_loop_component [of frac ?secs _ "[]" d]
    by (simp add: parse_loop_Nil)
  let ?mins = "show_nat (?v div 60 mod 60) @ ''m'' @ ?secs"
  have mins: "parse_loop frac d ?mins = Some (d + (?v div 60 mod 60 * (60 * 10 ^ 9) + (?v mod 60 * 10 ^ 9 + u mod 10 ^ 9)))"
    if "d + (?v div 60 mod 60 * (60 * 10 ^ 9) + (?v mod 60 * 10 ^ 9 + u mod 10 ^ 9)) \<le> 2 ^ 63" for d
    using that parse_whole [OF s(2), of d "?v div 60 mod 60" ?secs] secs not_unit_show_nat
    by (simp add: add.assoc)
  have eq: "u = ?v div 60 div 60 * (3600 * 10 ^ 9) +
      (?v div 60 mod 60 * (60 * 10 ^ 9) + (?v mod 60 * 10 ^ 9 + u mod 10 ^ 9))"
    using hours_minutes_seconds [of u "10 ^ 9"] .
  then have hrs: "parse_loop frac 0 (show_nat (?v div 60 div 60) @ ''h'' @ ?mins) = Some u"
    using parse_whole [OF s(3), of 0 "?v div 60 div 60" ?mins] mins not_unit_show_nat u by simp
  show ?thesis
  proof (cases "?v div 60 = 0")
    case True
    then have "u = ?v mod 60 * 10 ^ 9 + u mod 10 ^ 9" using eq by simp
    then show ?thesis using True secs [of 0] snd u by (simp add: large_text_def split_def)
  next
    case False
    note pos = this
    show ?thesis
    proof (cases "?v div 60 div 60 = 0")
      case True
      have e: "?v div 60 mod 60 * (60 * 10 ^ 9) + (?v mod 60 * 10 ^ 9 + u mod 10 ^ 9) = u"
        using eq [symmetric] unfolding True mult_zero_left add_0 .
      have "parse_loop frac 0 ?mins = Some u" using mins [of 0] u unfolding add_0 e by simp
      then show ?thesis using True pos snd by (simp add: large_text_def split_def Let_def)
    next
      case False
      then show ?thesis using pos hrs snd by (simp add: large_text_def split_def Let_def)
    qed
  qed
qed

lemma zero_text: "''0s'' = show_nat 0 @ [] @ ''s''"
  by code_simp

lemma text_shape:
  "\<exists>n s. small_text u = show_nat n @ s @ ''s''" "\<exists>n s. large_text u = show_nat n @ s @ ''s''"
proof -
  show "\<exists>n s. small_text u = show_nat n @ s @ ''s''"
    using zero_text
    by (auto simp: small_text_def Let_def split_def micro_seconds_def)
  show "\<exists>n s. large_text u = show_nat n @ s @ ''s''"
    by (auto simp: large_text_def Let_def split_def)
qed

lemma parse_text:
  assumes "frac_exact frac" "u \<le> 2 ^ 63"
  shows "parse_loop frac 0 (if u < 1000000000 then small_text u else large_text u) = Some u"
proof (cases "u = 0")
  case True
  have "parse_loop frac 0 ''0s'' = Some 0"
    using parse_whole [of "''s''" 1000000000 0 0 "[]" frac]
    by (simp add: zero_text parse_loop_Nil) (simp add: unitMap_def)
  then show ?thesis using True by (simp add: small_text_def)
qed (use assms parse_small_text parse_large_text in auto)

lemma unat_abs:
  fixes w :: "64 word"
  shows "unat (if sint w < 0 then - w else w) = nat \<bar>sint w\<bar>"
proof -
  have range: "- (2 ^ 63) \<le> sint w" "sint w < 2 ^ 63"
    using sint_greater_eq [of w] sint_less [of w] by simp_all
  have "uint (word_of_int k :: 64 word) = k" if "0 \<le> k" "k \<le> 2 ^ 63" for k
    using that by (simp add: uint_word_of_int)
  note k = this
  show ?thesis
  proof (cases "sint w < 0")
    case True
    then have "uint (- w) = - sint w" using k [of "- sint w"] range by simp
    then show ?thesis using True by (simp add: unat_eq_nat_uint)
  next
    case False
    then have "uint w = sint w" using k [of "sint w"] range by simp
    then show ?thesis using False by (simp add: unat_eq_nat_uint)
  qed
qed

lemma ParseDuration_String:
  assumes E: "frac_exact frac"
  shows "ParseDuration frac (duration_String d) = Inr d"
proof -
  obtain w where d: "d = Duration w" by (cases d)
  define u where "u = unat (if sint w < 0 then - w else w)"
  define t where "t = (if u < 1000000000 then small_text u else large_text u)"
  have range: "- (2 ^ 63) \<le> sint w" "sint w < 2 ^ 63"
    using sint_greater_eq [of w] sint_less [of w] by simp_all
  then have u: "u \<le> 2 ^ 63" "\<not> sint w < 0 \<Longrightarrow> u \<le> 2 ^ 63 - 1"
    unfolding u_def unat_abs by (auto simp: nat_le_iff)
  have w: "of_nat u = (if sint w < 0 then - w else w)" by (simp add: u_def)
  obtain n s where t: "t = show_nat n @ s @ ''s''"
    using text_shape [of u] unfolding t_def by (cases "u < 1000000000") auto
  obtain c r where cr: "show_nat n = c # r" using show_nat_not_Nil by (cases "show_nat n") auto
  have "is_digit c" using cr show_nat_digits [of c n] by simp
  then have c: "c \<noteq> CHR ''-''" "c \<noteq> CHR ''+''" by (auto simp: is_digit_def)
  have t0: "t \<noteq> ''0''" "t \<noteq> []" using t cr by auto
  have p: "parse_loop frac 0 t = Some u" unfolding t_def by (rule parse_text [OF E u(1)])
  have "duration_String d = (if sint w < 0 then ''-'' else []) @ t"
    by (simp add: duration_String_def d u_def t_def Let_def)
  then show ?thesis
    using t cr c t0 p u w d by (cases "sint w < 0") (auto simp: ParseDuration_def)
qed

text \<open>
  C5: Every duration that is written is read back: for each of the \<open>2 ^ 64\<close> values, the least one
  included, \<open>UnmarshalJSON\<close> of what \<open>MarshalJSON\<close> gives is that value, without overflow in any
  component. Hypothesis: the floating-point product of a fraction and its unit is exact where both
  fit in the mantissa.
\<close>

theorem durations_round_trip:
  assumes E: "frac_exact frac"
  shows "UnmarshalJSON conv frac (MarshalJSON d) = Inr d"
  by (simp add: MarshalJSON_def ParseDuration_String [OF E])

theorem durations_round_trip_witness:
  "UnmarshalJSON id (\<lambda>f unit n. f * (unit div 10 ^ n)) (MarshalJSON (Duration (2 ^ 63))) = Inr (Duration (2 ^ 63))"
  by (rule durations_round_trip) (simp add: frac_exact_def)

section \<open>Bounds\<close>

lemma leadingInt_too_large: "2 ^ 63 < n \<Longrightarrow> leadingInt 0 (show_nat n @ s) = None"
proof (induction n arbitrary: s rule: show_nat.induct)
  case (1 n)
  then have n: "\<not> n < 10" by simp
  have e: "leadingInt 0 (show_nat n @ s) = leadingInt 0 (show_nat (n div 10) @ char_of (48 + n mod 10) # s)"
    using n by (subst show_nat.simps) simp
  show ?case
  proof (cases "2 ^ 63 < n div 10")
    case True
    then show ?thesis using 1(1) [OF n] e by simp
  next
    case False
    then show ?thesis
      using "1.prems" e leadingInt_show_nat [of "n div 10"] is_digit_char_of [of "n mod 10"]
        digit_val_char_of [of "n mod 10"]
      by (simp add: Let_def not_less)
  qed
qed

lemma parse_component_too_large:
  assumes u: "map_of unitMap u = Some k" and n: "2 ^ 63 < n * k"
  shows "parse_component frac (show_nat n @ u) = None"
proof -
  have uc: "u \<noteq> []" "\<forall>c \<in> set u. unit_char c" "0 < k" using unitMap_units [OF u] by auto
  obtain c r where cr: "show_nat n = c # r" using show_nat_not_Nil by (cases "show_nat n") auto
  then have c: "is_digit c" using show_nat_digits [of c n] by simp
  obtain d u' where du: "u = d # u'" using uc(1) by (cases u) auto
  then have d: "\<not> is_digit d" "d \<noteq> CHR ''.''" using uc(2) by (auto simp: unit_char_def)
  have tw: "takeWhile unit_char u = u" "dropWhile unit_char u = []" using takeWhile_unit [OF uc(2), of "[]"] by simp_all
  show ?thesis
  proof (cases "2 ^ 63 < n")
    case True
    then show ?thesis using leadingInt_too_large [OF True, of u] cr c by (simp add: parse_component_def)
  next
    case False
    then have "leadingInt 0 (show_nat n @ u) = Some (n, u)"
      using d du leadingInt_show_nat [of n u] by simp
    moreover have "2 ^ 63 div k < n" using n uc(3) by (simp add: div_less_iff_less_mult)
    ultimately show ?thesis using c cr d du u tw by (simp add: parse_component_def Let_def)
  qed
qed

text \<open>
  C38: A whole number of a unit is decoded to exactly that many nanoseconds, or refused when it does
  not fit in 64 bits; it never wraps around, and \<open>- 2 ^ 63\<close> nanoseconds are still accepted.
\<close>

theorem whole_durations_never_wrap:
  assumes u: "map_of unitMap u = Some k"
  shows "UnmarshalJSON conv frac (VStr (show_nat n @ u)) =
      (if n * k < 2 ^ 63 then Inr (Duration (of_nat (n * k))) else Inl InvalidDuration) \<and>
    UnmarshalJSON conv frac (VStr (CHR ''-'' # show_nat n @ u)) =
      (if n * k \<le> 2 ^ 63 then Inr (Duration (- of_nat (n * k))) else Inl InvalidDuration)"
proof -
  obtain c r where cr: "show_nat n = c # r" using show_nat_not_Nil by (cases "show_nat n") auto
  then have "is_digit c" using show_nat_digits [of c n] by simp
  then have c: "c \<noteq> CHR ''-''" "c \<noteq> CHR ''+''" by (auto simp: is_digit_def)
  have t: "c # r @ u \<noteq> ''0''" using unitMap_units [OF u] by auto
  have p: "parse_loop frac 0 (c # r @ u) = (if n * k \<le> 2 ^ 63 then Some (n * k) else None)"
  proof (cases "n * k \<le> 2 ^ 63")
    case True
    then show ?thesis using parse_whole [OF u, of 0 n "[]" frac] cr by (simp add: parse_loop_Nil)
  next
    case False
    then have "parse_component frac (c # r @ u) = None"
      using parse_component_too_large [OF u, of n frac] cr by simp
    then show ?thesis using False by (subst parse_loop.simps) simp
  qed
  show ?thesis using c cr t p by (auto simp: ParseDuration_def)
qed

theorem whole_durations_never_wrap_witness:
  "UnmarshalJSON id (\<lambda>f u n. 0) (VStr (show_nat 9223372037 @ ''s'')) = Inl InvalidDuration"
  using whole_durations_never_wrap [of "''s''" 1000000000 id "\<lambda>f u n. 0" 9223372037]
  by (simp add: unitMap_def)

end
