(* ===== verification/Paths.thy ===== *)
theory Paths
  imports Prelude
begin

text \<open>
  File paths as the file renderer uses them (render/file/file.go): the standard library's
  \<^verbatim>\<open>filepath.Clean\<close> and \<^verbatim>\<open>filepath.Join\<close> (Unix), which \<^verbatim>\<open>filepath.Walk\<close> applies to each name that it
  visits, and \<^verbatim>\<open>strings.TrimPrefix\<close>.
\<close>

section \<open>Splitting and joining\<close>

definition slash :: char where
  "slash = CHR ''/''"

fun split_slash :: "string \<Rightarrow> string list" where
  "split_slash [] = [[]]"
| "split_slash (c # s) =
     (if c = slash then [] # split_slash s
      else (case split_slash s of [] \<Rightarrow> [[c]] | e # es \<Rightarrow> (c # e) # es))"

fun join_slash :: "string list \<Rightarrow> string" where
  "join_slash [] = []"
| "join_slash [e] = e"
| "join_slash (e # es) = e @ slash # join_slash es"

definition no_slash :: "string \<Rightarrow> bool" where
  "no_slash e \<longleftrightarrow> slash \<notin> set e"

lemma split_slash_not_Nil [simp]: "split_slash s \<noteq> []"
  by (induction s) (auto split: list.splits)

lemma split_slash_simple: "no_slash e \<Longrightarrow> split_slash e = [e]"
  by (induction e) (auto simp: no_slash_def)

lemma split_slash_append: "split_slash (s @ slash # t) = split_slash s @ split_slash t"
proof (induction s)
  case (Cons c s)
  show ?case
  proof (cases "c = slash")
    case False
    obtain e es where "split_slash s = e # es" by (cases "split_slash s") simp_all
    then show ?thesis using Cons False by simp
  qed (use Cons in simp)
qed simp

lemma split_join: "es \<noteq> [] \<Longrightarrow> \<forall>e \<in> set es. no_slash e \<Longrightarrow> split_slash (join_slash es) = es"
  by (induction es rule: join_slash.induct) (auto simp: split_slash_simple split_slash_append)

lemma join_slash_snoc: "es \<noteq> [] \<Longrightarrow> join_slash (es @ [e]) = join_slash es @ slash # e"
  by (induction es rule: join_slash.induct) auto

lemma join_slash_append:
  "es \<noteq> [] \<Longrightarrow> fs \<noteq> [] \<Longrightarrow> join_slash (es @ fs) = join_slash es @ slash # join_slash fs"
proof (induction es rule: join_slash.induct)
  case (2 e)
  then show ?case by (cases fs) simp_all
qed simp_all

lemma hd_join_slash: "es \<noteq> [] \<Longrightarrow> hd es \<noteq> [] \<Longrightarrow> join_slash es \<noteq> [] \<and> hd (join_slash es) = hd (hd es)"
  by (induction es rule: join_slash.induct) simp_all

lemma split_slash_no_slash: "e \<in> set (split_slash s) \<Longrightarrow> no_slash e"
proof (induction s arbitrary: e)
  case (Cons c s)
  obtain f fs where "split_slash s = f # fs" by (cases "split_slash s") simp_all
  then show ?case using Cons by (auto simp: no_slash_def split: if_splits)
qed (simp add: no_slash_def)

section \<open>Cleaning\<close>

text \<open>
  \<^verbatim>\<open>Clean\<close> drops empty and \<open>.\<close> elements, and lets \<open>..\<close> remove the element before it, or, at the
  root, nothing. The empty result is written \<open>.\<close>.
\<close>

definition clean_step :: "bool \<Rightarrow> string list \<Rightarrow> string \<Rightarrow> string list" where
  "clean_step rooted out e =
     (if e = [] \<or> e = ''.'' then out
      else if e = ''..'' then
        (if out \<noteq> [] \<and> last out \<noteq> ''..'' then butlast out
         else if rooted then out else out @ [''..''])
      else out @ [e])"

definition clean_elems :: "string \<Rightarrow> string list" where
  "clean_elems path =
     foldl (clean_step (path \<noteq> [] \<and> hd path = slash)) [] (split_slash path)"

definition render_path :: "bool \<Rightarrow> string list \<Rightarrow> string" where
  "render_path rooted es =
     (let s = (if rooted then [slash] else []) @ join_slash es in if s = [] then ''.'' else s)"

definition Clean :: "string \<Rightarrow> string" where
  "Clean path = render_path (path \<noteq> [] \<and> hd path = slash) (clean_elems path)"

definition Join :: "string \<Rightarrow> string \<Rightarrow> string" where
  "Join path name =
     (if path = [] then (if name = [] then [] else Clean name)
      else if name = [] then Clean path else Clean (path @ slash # name))"

definition TrimPrefix :: "string \<Rightarrow> string \<Rightarrow> string" where
  "TrimPrefix s prefix = (if take (length prefix) s = prefix then drop (length prefix) s else s)"

lemma TrimPrefix_append [simp]: "TrimPrefix (p @ s) p = s"
  by (simp add: TrimPrefix_def)

section \<open>Names below a directory\<close>

text \<open>A name that a directory lists, and what \<open>clean_elems\<close> may hold.\<close>

definition simple_name :: "string \<Rightarrow> bool" where
  "simple_name e \<longleftrightarrow> no_slash e \<and> e \<noteq> [] \<and> e \<noteq> ''.'' \<and> e \<noteq> ''..''"

definition clean_list :: "bool \<Rightarrow> string list \<Rightarrow> bool" where
  "clean_list rooted es \<longleftrightarrow>
     (\<forall>e \<in> set es. no_slash e \<and> e \<noteq> [] \<and> e \<noteq> ''.'') \<and>
     (\<exists>a ns. es = replicate a ''..'' @ ns \<and> ''..'' \<notin> set ns \<and> (rooted \<longrightarrow> a = 0))"

lemma clean_listI:
  "\<forall>e \<in> set ns. no_slash e \<and> e \<noteq> [] \<and> e \<noteq> ''.'' \<Longrightarrow> ''..'' \<notin> set ns \<Longrightarrow> (rooted \<Longrightarrow> a = 0) \<Longrightarrow>
   clean_list rooted (replicate a ''..'' @ ns)"
  unfolding clean_list_def
proof (intro conjI exI [of _ a] exI [of _ ns] impI)
  assume names: "\<forall>e \<in> set ns. no_slash e \<and> e \<noteq> [] \<and> e \<noteq> ''.''"
  show "\<forall>e \<in> set (replicate a ''..'' @ ns). no_slash e \<and> e \<noteq> [] \<and> e \<noteq> ''.''"
  proof
    fix e
    assume "e \<in> set (replicate a ''..'' @ ns)"
    then consider "e = ''..''" | "e \<in> set ns" by (auto simp: set_replicate_conv_if split: if_splits)
    then show "no_slash e \<and> e \<noteq> [] \<and> e \<noteq> ''.''"
      by cases (simp add: no_slash_def slash_def, use names in blast)
  qed
qed (rule refl, assumption, simp)

lemma clean_step_simple: "simple_name e \<Longrightarrow> clean_step rooted out e = out @ [e]"
  by (simp add: clean_step_def simple_name_def)

lemma clean_list_snoc: "clean_list rooted es \<Longrightarrow> simple_name e \<Longrightarrow> clean_list rooted (es @ [e])"
  unfolding clean_list_def simple_name_def
  by (elim conjE exE, intro conjI exI [of _ "_ :: nat"] exI [of _ "_ @ [e]"]) auto

lemma clean_list_app:
  "clean_list rooted es \<Longrightarrow> \<forall>n \<in> set ns. simple_name n \<Longrightarrow> clean_list rooted (es @ ns)"
proof (induction ns arbitrary: es)
  case (Cons n ns)
  then show ?case using Cons.IH [of "es @ [n]"] clean_list_snoc by simp
qed simp

lemma clean_step_clean_list:
  assumes "clean_list rooted out" "no_slash e"
  shows "clean_list rooted (clean_step rooted out e)"
proof -
  obtain a ns where out: "out = replicate a ''..'' @ ns" "''..'' \<notin> set ns" "rooted \<Longrightarrow> a = 0"
    and names: "\<forall>e \<in> set ns. no_slash e \<and> e \<noteq> [] \<and> e \<noteq> ''.''"
    using assms(1) by (auto simp: clean_list_def)
  consider "e = [] \<or> e = ''.''" | "e = ''..''" "ns \<noteq> []" | "e = ''..''" "ns = []" | "simple_name e"
    using assms(2) by (auto simp: simple_name_def)
  then show ?thesis
  proof cases
    case 1
    then show ?thesis using assms(1) by (auto simp: clean_step_def)
  next
    case 2
    have "last ns \<noteq> ''..''" using out(2) last_in_set [OF 2(2)] by metis
    then have "last out \<noteq> ''..''" "out \<noteq> []" using out(1) 2(2) by (simp_all add: last_append)
    then have "clean_step rooted out e = replicate a ''..'' @ butlast ns"
      using 2 out(1) by (simp add: clean_step_def butlast_append)
    then show ?thesis using out names by (auto intro!: clean_listI dest: in_set_butlastD)
  next
    case 3
    then have "clean_step rooted out e = (if rooted then out else replicate (Suc a) ''..'' @ [])"
      using out(1) by (cases a) (auto simp: clean_step_def replicate_append_same)
    moreover have "clean_list rooted (replicate (Suc a) ''..'' @ [])" if "\<not> rooted"
      using that by (intro clean_listI) simp_all
    ultimately show ?thesis using assms(1) by (cases rooted) simp_all
  next
    case 4
    then show ?thesis using assms(1) by (simp add: clean_step_simple clean_list_snoc)
  qed
qed

lemma clean_elems_list: "clean_list (path \<noteq> [] \<and> hd path = slash) (clean_elems path)"
proof -
  have "clean_list r (foldl (clean_step r) out es)" if "clean_list r out" "\<forall>e \<in> set es. no_slash e" for r out es
    using that by (induction es arbitrary: out) (simp_all add: clean_step_clean_list)
  moreover have "clean_list r []" for r using clean_listI [of "[]" r 0] by simp
  ultimately show ?thesis using split_slash_no_slash by (simp add: clean_elems_def)
qed

lemma clean_fold_list:
  assumes "clean_list rooted es"
  shows "foldl (clean_step rooted) [] es = es"
proof -
  obtain a ns where es: "es = replicate a ''..'' @ ns" "''..'' \<notin> set ns" "rooted \<Longrightarrow> a = 0"
    and names: "\<forall>e \<in> set ns. no_slash e \<and> e \<noteq> [] \<and> e \<noteq> ''.''"
    using assms by (auto simp: clean_list_def)
  have names': "\<forall>e \<in> set ns. simple_name e" using es(2) names by (auto simp: simple_name_def)
  have ups: "foldl (clean_step False) (replicate b ''..'') (replicate c ''..'') = replicate (b + c) ''..''" for b c
  proof (induction c arbitrary: b)
    case (Suc c)
    have "clean_step False (replicate b ''..'') ''..'' = replicate (Suc b) ''..''"
      by (cases b) (simp_all add: clean_step_def replicate_append_same)
    then show ?case using Suc [of "Suc b"] by simp
  qed simp
  have simple: "foldl (clean_step rooted) out ns = out @ ns" for out
    using names' by (induction ns arbitrary: out) (simp_all add: clean_step_simple)
  show ?thesis using ups [of 0 a] simple es by (cases rooted) auto
qed

lemma clean_elems_render:
  assumes "clean_list rooted es" "es \<noteq> []"
  shows "clean_elems (render_path rooted es) = es \<and> render_path rooted es \<noteq> [] \<and>
    (hd (render_path rooted es) = slash \<longleftrightarrow> rooted)"
proof -
  have ns: "\<forall>e \<in> set es. no_slash e \<and> e \<noteq> []" using assms(1) by (auto simp: clean_list_def)
  obtain e fs where e: "es = e # fs" using assms(2) by (cases es) auto
  have hd: "join_slash es \<noteq> []" "hd (join_slash es) \<noteq> slash"
    using hd_join_slash [OF assms(2)] ns e by (auto simp: no_slash_def dest: hd_in_set)
  then have r: "render_path rooted es = (if rooted then [slash] else []) @ join_slash es"
    by (simp add: render_path_def)
  have split: "split_slash (join_slash es) = es" using split_join assms(2) ns by blast
  have step: "clean_step True [] [] = []" by (simp add: clean_step_def)
  show ?thesis
    using r hd split step clean_fold_list [OF assms(1)] by (cases rooted) (auto simp: clean_elems_def)
qed

text \<open>The path of a name below a directory, found by joining one name after the other.\<close>

lemma Join_simple:
  assumes "path \<noteq> []" "simple_name n"
  shows "Join path n = render_path (hd path = slash) (clean_elems path @ [n])"
proof -
  have n: "n \<noteq> []" "no_slash n" using assms(2) by (simp_all add: simple_name_def)
  have "hd (path @ slash # n) = hd path" using assms(1) by simp
  then show ?thesis
    using assms n by (simp add: Join_def Clean_def clean_elems_def split_slash_append split_slash_simple
        clean_step_simple)
qed

lemma descend:
  assumes "dir \<noteq> []" "ns \<noteq> []" "\<forall>n \<in> set ns. simple_name n"
  shows "foldl Join dir ns = render_path (hd dir = slash) (clean_elems dir @ ns)"
  using assms(2,3)
proof (induction ns rule: rev_induct)
  case (snoc n ns)
  show ?case
  proof (cases "ns = []")
    case True
    then show ?thesis using Join_simple [OF assms(1)] snoc.prems by simp
  next
    case False
    let ?es = "clean_elems dir @ ns"
    have "clean_list (hd dir = slash) (clean_elems dir @ ns)"
      using clean_list_app clean_elems_list [of dir] assms(1) snoc.prems by simp
    then have c: "clean_list (hd dir = slash) ?es" .
    show ?thesis
      using snoc False clean_elems_render [OF c] Join_simple [of "render_path (hd dir = slash) ?es" n] by simp
  qed
qed simp

text \<open>
  The name that a file gets: with a directory that ends with its only superfluous slash, the
  relative path; with a clean directory, the same after a slash; with a directory that is written
  in another way, the whole cleaned path, unless that happens to start with it.
\<close>

lemma render_path_append:
  assumes "es \<noteq> []" "ns \<noteq> []"
  shows "render_path rooted (es @ ns) =
    (if rooted then [slash] else []) @ join_slash es @ slash # join_slash ns"
  using assms by (simp add: render_path_def join_slash_append)

lemma file_name_of:
  assumes "Clean d = d" "clean_elems d \<noteq> []" "d \<noteq> []" "ns \<noteq> []" "\<forall>n \<in> set ns. simple_name n"
  shows "TrimPrefix (foldl Join d ns) d = slash # join_slash ns"
    "TrimPrefix (foldl Join (d @ [slash]) ns) (d @ [slash]) = join_slash ns"
proof -
  have d: "d = (if hd d = slash then [slash] else []) @ join_slash (clean_elems d)"
  proof -
    have "hd (clean_elems d) \<noteq> []"
      using clean_elems_list [of d] hd_in_set [OF assms(2)] by (auto simp: clean_list_def)
    then show ?thesis
      using assms(1,3) hd_join_slash [OF assms(2)] by (auto simp: Clean_def render_path_def split: if_splits)
  qed
  have s: "clean_elems (d @ [slash]) = clean_elems d"
    using assms(3) by (simp add: clean_elems_def split_slash_append [of d "[]", simplified] clean_step_def)
  have p: "foldl Join d ns = d @ slash # join_slash ns"
    using descend [OF assms(3-5)] render_path_append [OF assms(2,4)] d by simp
  have q: "foldl Join (d @ [slash]) ns = d @ slash # join_slash ns"
    using descend [of "d @ [slash]", OF _ assms(4,5)] render_path_append [OF assms(2,4)] d s assms(3) by simp
  show "TrimPrefix (foldl Join d ns) d = slash # join_slash ns" by (simp add: p)
  show "TrimPrefix (foldl Join (d @ [slash]) ns) (d @ [slash]) = join_slash ns"
    using TrimPrefix_append [of "d @ [slash]" "join_slash ns"] by (simp add: q)
qed

end
