(* ===== verification/Trigger.thy ===== *)
theory Trigger
  imports Rollout_Props
begin

text \<open>
  What the triggers share: the register of executions (trigger/trigger.go), the passing of the
  configuration file (config/file\_config.go), and the two simple triggers, one-off and interval.
\<close>

section \<open>The register of executions\<close>

type_synonym 's executionRegister = "'s execution list"

definition Register :: "'s executionRegister \<Rightarrow> 's execution \<Rightarrow> 's executionRegister" where
  "Register r e = r @ [e]"

text \<open>All executions get the same configuration, with what the ones before changed of it.\<close>

fun Register_Execute :: "'s executionRegister \<Rightarrow> 's execution" where
  "Register_Execute [] c s = (Ok (), c, s)"
| "Register_Execute (e # es) c s =
     (let (x, c1, s1) = e c s in
      if x = Ok () then Register_Execute es c1 s1 else (x, c1, s1))"

section \<open>The configuration file\<close>

record 's fileConfigPasser =
  fp_file :: string
  fp_executor :: "'s execution"

definition NewFileConfigPasser :: "string \<Rightarrow> 's execution \<Rightarrow> 's fileConfigPasser" where
  "NewFileConfigPasser file executor = \<lparr>fp_file = file, fp_executor = executor\<rparr>"

definition readConfig :: "'s fslib \<Rightarrow> 's fileConfigPasser \<Rightarrow> config \<Rightarrow> ('s, string) eff" where
  "readConfig F p rolloutConfig s =
     (if fp_file p = '''' then (Inr (cf_RawConfig rolloutConfig), s)
      else fs_ReadFile F (fp_file p) s)"

text \<open>
  The raw configuration is stored in the configuration that was passed, which the caller shares;
  for a nil configuration a new one is made, which the caller does not see. When reading fails
  the bytes stored are nil.
\<close>

definition FileConfigPasser_Execute :: "'s fslib \<Rightarrow> 's fileConfigPasser \<Rightarrow> 's execution" where
  "FileConfigPasser_Execute F p rolloutConfig s =
     (let c = (case rolloutConfig of None \<Rightarrow> \<lparr>cf_RawConfig = '''', cf_Feedback = None\<rparr> | Some c \<Rightarrow> c);
          seen = (\<lambda>c'. case rolloutConfig of None \<Rightarrow> None | Some _ \<Rightarrow> c')
      in case readConfig F p c s of
           (Inl e, s1) \<Rightarrow> (Err e, seen (Some (c\<lparr>cf_RawConfig := ''''\<rparr>)), s1)
         | (Inr raw, s1) \<Rightarrow>
             (let (x, c', s2) = fp_executor p (Some (c\<lparr>cf_RawConfig := raw\<rparr>)) s1 in (x, seen c', s2)))"

section \<open>One-off and interval\<close>

definition OneOff_Run :: "'s executionRegister \<Rightarrow> ('s, unit) io" where
  "OneOff_Run es s = (let (x, _, s') = Register_Execute es None s in (x, s'))"

text \<open>
  What the loop of the interval trigger waits for: a tick, or the end of the context. When the
  list of events ends, nothing more happens and the loop waits for ever. A failing execution is
  logged; the loop goes on.
\<close>

datatype interval_event = Tick | CtxDone

fun interval_loop :: "'s executionRegister \<Rightarrow> interval_event list \<Rightarrow> ('s, unit) io" where
  "interval_loop es [] s = (Diverge, s)"
| "interval_loop es (CtxDone # evs) s = (Ok (), s)"
| "interval_loop es (Tick # evs) s =
     (let (x, _, s1) = Register_Execute es None s in
      case x of
        Panic p \<Rightarrow> (Panic p, s1)
      | Diverge \<Rightarrow> (Diverge, s1)
      | _ \<Rightarrow> interval_loop es evs s1)"

definition Interval_Run ::
  "'s executionRegister \<Rightarrow> duration \<Rightarrow> interval_event list \<Rightarrow> ('s, unit) io" where
  "Interval_Run es interval evs s =
     (if interval \<le> 0 then (Panic NonPositiveTicker, s) else interval_loop es evs s)"

section \<open>The contract of an execution\<close>

text \<open>
  An execution does not make up a configuration for its caller, nor take one away, and it neither
  adds nor removes the feedback. A register of executions that keep to this does as well.
\<close>

locale execution =
  fixes exec :: "'s execution"
  assumes exec_none: "exec None s = (x, c', s') \<Longrightarrow> c' = None"
    and exec_some: "exec (Some c) s = (x, c', s') \<Longrightarrow>
      \<exists>d. c' = Some d \<and> (cf_Feedback d = None \<longleftrightarrow> cf_Feedback c = None)"

locale executions =
  fixes es :: "'s executionRegister"
  assumes each: "e \<in> set es \<Longrightarrow> execution e"
begin

lemma register_none: "set fs \<subseteq> set es \<Longrightarrow> Register_Execute fs None s = (x, c', s') \<Longrightarrow> c' = None"
proof (induction fs arbitrary: s)
  case (Cons e fs)
  obtain y c1 s1 where e: "e None s = (y, c1, s1)" by (rule prod_cases3)
  have "execution e" using each Cons.prems(1) by simp
  from execution.exec_none [OF this e] have "c1 = None" .
  then show ?case using Cons e by (auto split: if_splits)
qed simp

lemma register_some:
  "set fs \<subseteq> set es \<Longrightarrow> Register_Execute fs (Some c) s = (x, c', s') \<Longrightarrow>
   \<exists>d. c' = Some d \<and> (cf_Feedback d = None \<longleftrightarrow> cf_Feedback c = None)"
proof (induction fs arbitrary: c s)
  case (Cons e fs)
  obtain y c1 s1 where e: "e (Some c) s = (y, c1, s1)" by (rule prod_cases3)
  have "execution e" using each Cons.prems(1) by simp
  from execution.exec_some [OF this e] obtain d
    where d: "c1 = Some d" "cf_Feedback d = None \<longleftrightarrow> cf_Feedback c = None" by auto
  show ?case using Cons.prems Cons.IH [of d s1] e d by (auto split: if_splits)
qed auto

lemma register_execution: "execution (Register_Execute es)"
  by unfold_locales (auto dest: register_none [OF order_refl] register_some [OF order_refl])

end

text \<open>The runner, and the runner behind a configuration file.\<close>

lemma report_finished_presence:
  "report_finished E g (fb, w) = (x, (fb', w')) \<Longrightarrow> fb' = None \<longleftrightarrow> fb = None"
  by (auto simp: report_finished_def split: option.splits prod.splits)

lemma initialize_feedback_presence:
  "initialize_feedback E gs (fb, w) = (x, (fb', w')) \<Longrightarrow> fb' = None \<longleftrightarrow> fb = None"
  by (auto simp: initialize_feedback_def on_err_def split: option.splits prod.splits)

lemma run_groups_presence:
  "run_groups E r gs (objs, fb, w) = (x, (objs', fb', w')) \<Longrightarrow> fb' = None \<longleftrightarrow> fb = None"
proof (induction gs arbitrary: objs fb w)
  case (Cons g gs)
  obtain y objs1 w1 where g: "run_group E r g (objs, w) = (y, (objs1, w1))" by (rule prod_cases3)
  obtain z fb2 w2 where rf: "report_finished E g (fb, w1) = (z, (fb2, w2))" by (rule prod_cases3)
  show ?case
    using Cons.prems Cons.IH report_finished_presence [OF rf]
    unfolding run_groups_Cons [OF g rf] by (auto split: if_splits)
qed simp

lemma execute_body_presence:
  assumes "execute_body E r raw (fb, w) = (x, (fb', w'))"
  shows "fb' = None \<longleftrightarrow> fb = None"
proof -
  obtain y w1 where pr: "rn_provider r raw w = (y, w1)" by (rule prod.exhaust)
  show ?thesis
  proof (cases y)
    case (Ok res)
    show ?thesis
    proof (cases "rn_renderOnly r \<or> result_groups res = None")
      case True
      then show ?thesis
        using assms Ok pr by (auto simp: execute_body_def roll_out_def split: prod.splits if_splits)
    next
      case False
      then obtain gs where gs: "result_groups res = Some gs" by auto
      obtain z fb1 w2 where i: "initialize_feedback E (map gr_Name gs) (fb, w1) = (z, (fb1, w2))"
        by (rule prod_cases3)
      obtain v objs fb2 w3 where g: "run_groups E r gs (rr_Objects res, fb1, w2) = (v, (objs, fb2, w3))"
        by (rule prod_cases4)
      show ?thesis
        using assms Ok pr False gs i g initialize_feedback_presence [OF i] run_groups_presence [OF g]
        by (cases z) (auto simp: execute_body_def roll_out_def)
    qed
  qed (use assms pr in \<open>auto simp: execute_body_def\<close>)
qed

interpretation runner: execution "Execute E r" for E r
  by unfold_locales
    (auto simp: Execute_def split: prod.splits dest: execute_body_presence)

lemma passer_execution:
  assumes "execution (fp_executor p)"
  shows "execution (FileConfigPasser_Execute F p)"
proof
  fix s x c' s'
  assume "FileConfigPasser_Execute F p None s = (x, c', s')"
  then show "c' = None"
    by (auto simp: FileConfigPasser_Execute_def Let_def split: prod.splits sum.splits)
next
  fix c s x c' s'
  assume run: "FileConfigPasser_Execute F p (Some c) s = (x, c', s')"
  obtain y s1 where y: "readConfig F p c s = (y, s1)" by (rule prod.exhaust)
  show "\<exists>d. c' = Some d \<and> (cf_Feedback d = None \<longleftrightarrow> cf_Feedback c = None)"
  proof (cases y)
    case (Inr raw)
    obtain z c1 s2 where z: "fp_executor p (Some (c\<lparr>cf_RawConfig := raw\<rparr>)) s1 = (z, c1, s2)"
      by (rule prod_cases3)
    show ?thesis
      using execution.exec_some [OF assms z] run y z Inr by (auto simp: FileConfigPasser_Execute_def)
  qed (use run y in \<open>auto simp: FileConfigPasser_Execute_def\<close>)
qed

interpretation configured_runner: execution "FileConfigPasser_Execute F (NewFileConfigPasser path (Execute E r))"
  for F path E r
  by (rule passer_execution) (simp add: NewFileConfigPasser_def runner.execution_axioms)

interpretation registered: executions
  "Register [] (FileConfigPasser_Execute F (NewFileConfigPasser path (Execute E r)))" for F path E r
  by (rule executions.intro) (auto simp: Register_def intro: configured_runner.execution_axioms)

section \<open>Properties\<close>

text \<open>
  Executions run in the order in which they were registered, each only when all before it
  succeeded, and a later one sees the configuration as the earlier ones left it.
\<close>

theorem registered_runs_last:
  "Register_Execute (Register es e) c s =
     (let (x, c1, s1) = Register_Execute es c s in
      if x = Ok () then e c1 s1 else (x, c1, s1))"
  by (induction es c s rule: Register_Execute.induct) (auto simp: Register_def split: prod.splits)

text \<open>
  Through every registered execution of the program a trigger's feedback reaches the rollout and
  comes back: a trigger without configuration keeps none, and one with feedback keeps it.
\<close>

theorem trigger_keeps_its_feedback:
  "(let (x, c', s') = Register_Execute
        (Register [] (FileConfigPasser_Execute F (NewFileConfigPasser path (Execute E r)))) c p
    in (c' = None \<longleftrightarrow> c = None) \<and>
       (map_option (\<lambda>d. cf_Feedback d = None) c' = map_option (\<lambda>d. cf_Feedback d = None) c))"
proof (cases c)
  case None
  then show ?thesis by (auto dest: registered.register_none [OF order_refl])
next
  case (Some d)
  then show ?thesis by (auto dest: registered.register_some [OF order_refl])
qed

text \<open>
  With a configuration file, the renderer gets the content of the file whatever the trigger
  passed as raw configuration, and the feedback that the trigger passed; when the file cannot be
  read nothing is executed.
\<close>

theorem renderer_gets_the_file:
  assumes "path \<noteq> ''''" and "fs_ReadFile F path p = (y, p1)"
  shows "FileConfigPasser_Execute F (NewFileConfigPasser path (Execute E r)) c p =
    (case y of
       Inl e \<Rightarrow> (Err e, map_option (\<lambda>d. d\<lparr>cf_RawConfig := ''''\<rparr>) c, p1)
     | Inr content \<Rightarrow>
         (let fb = (case c of None \<Rightarrow> None | Some d \<Rightarrow> cf_Feedback d);
              (x, fb', w') = execute_body E r content (fb, pr_world p1)
          in (x, map_option (\<lambda>d. \<lparr>cf_RawConfig = content, cf_Feedback = fb'\<rparr>) c,
              \<lparr>pr_world = w', pr_metrics = count_execution x (pr_metrics p1)\<rparr>)))"
  using assms
  by (cases y; cases c)
    (auto simp: FileConfigPasser_Execute_def NewFileConfigPasser_def readConfig_def Execute_def
      split: prod.splits)

definition sample_files :: "sworld proc fslib" where
  "sample_files = \<lparr>fs_ReadFile = (\<lambda>f p. (if f = ''config'' then Inr ''content'' else Inl (LibError ''no file''), p))\<rparr>"

theorem renderer_gets_the_file_witness:
  "fst (FileConfigPasser_Execute sample_files (NewFileConfigPasser ''config''
     (Execute sample_env (sample_rollout_runner no_result\<lparr>rn_provider := \<lambda>raw w. (Err (LibError raw), w)\<rparr>)))
     None sample_proc) = Err (RenderFailed (LibError ''content''))"
proof -
  let ?r = "sample_rollout_runner no_result\<lparr>rn_provider := \<lambda>raw w. (Err (LibError raw), w)\<rparr>"
  have f: "fs_ReadFile sample_files ''config'' sample_proc = (Inr ''content'', sample_proc)"
    by (simp add: sample_files_def)
  show ?thesis
    using renderer_gets_the_file [OF _ f, of sample_env ?r None] by (simp add: execute_body_def)
qed

lemma interval_tick:
  assumes "x = Ok () \<or> (\<exists>e. x = Err e)"
    and "Register_Execute es None s = (x, c, s1)"
  shows "interval_loop es (Tick # evs) s = interval_loop es evs s1"
  using assms by auto

text \<open>
  The interval trigger outlives failing executions: without a configuration file, after any
  number of ticks before the end of the context it has counted one execution for each tick, unless
  one of them panicked or did not return.
\<close>

theorem interval_executes_every_tick:
  assumes pos: "0 < interval"
    and run: "Interval_Run (Register [] (FileConfigPasser_Execute F (NewFileConfigPasser '''' (Execute E r))))
      interval (replicate k Tick @ CtxDone # evs) p = (x, p')"
    and ret: "x = Ok ()"
  shows "mt_executions (pr_metrics p') = mt_executions (pr_metrics p) + k"
proof -
  let ?es = "Register [] (FileConfigPasser_Execute F (NewFileConfigPasser '''' (Execute E r)))"
  have one: "mt_executions (pr_metrics p1) = mt_executions (pr_metrics p) + 1"
    if "Register_Execute ?es None p = (y, c, p1)" "y \<noteq> Diverge" for p y c p1
    using that
    by (auto simp: Register_def FileConfigPasser_Execute_def NewFileConfigPasser_def readConfig_def
        Execute_def count_execution_def split: prod.splits if_splits)
  have "interval_loop ?es (replicate k Tick @ CtxDone # evs) p = (Ok (), p')"
    using run pos ret by (simp add: Interval_Run_def not_le [symmetric])
  then show ?thesis
  proof (induction k arbitrary: p)
    case (Suc k)
    obtain y c p1 where y: "Register_Execute ?es None p = (y, c, p1)" by (rule prod_cases3)
    then have y': "y = Ok () \<or> (\<exists>e. y = Err e)" using Suc.prems by (cases y) auto
    have "interval_loop ?es (replicate k Tick @ CtxDone # evs) p1 = (Ok (), p')"
      using Suc.prems interval_tick [OF y' y] by simp
    from Suc.IH [OF this] one [OF y] y' show ?case by auto
  qed simp
qed

theorem interval_executes_every_tick_witness:
  "\<exists>p'. Interval_Run (Register [] (FileConfigPasser_Execute sample_files (NewFileConfigPasser ''''
      (Execute sample_env (sample_rollout_runner no_result\<lparr>rn_provider := \<lambda>raw w. (Err (LibError raw), w)\<rparr>)))))
      (Duration 5) [Tick, Tick, CtxDone] sample_proc = (Ok (), p') \<and>
    mt_executions (pr_metrics p') = 2"
proof -
  let ?r = "sample_rollout_runner no_result\<lparr>rn_provider := \<lambda>raw w. (Err (LibError raw), w)\<rparr>"
  let ?es = "Register [] (FileConfigPasser_Execute sample_files (NewFileConfigPasser '''' (Execute sample_env ?r)))"
  have pos: "0 < Duration 5" by (simp add: less_duration_def zero_duration_def)
  obtain p' where run: "Interval_Run ?es (Duration 5) (replicate 2 Tick @ CtxDone # []) sample_proc = (Ok (), p')"
    using pos by (simp add: Interval_Run_def not_le [symmetric] numeral_2_eq_2 Register_def FileConfigPasser_Execute_def
        NewFileConfigPasser_def readConfig_def Execute_def execute_body_def)
  from interval_executes_every_tick [OF pos run refl] run show ?thesis
    by (simp add: numeral_2_eq_2) (simp add: sample_proc_def)
qed

end
