(* ===== verification/DbRows.thy ===== *)
theory DbRows
  imports Database
begin

text \<open>
  Rows of a query as pgx gives them, shared by the database sources (source/crdb.go) and the
  database trigger (trigger/database/database.go), and the database sources.
\<close>

section \<open>Rows\<close>

text \<open>
  A value is a string, bytes, or of another dynamic type, for which its text under \<open>%v\<close> and an
  identification suffice. A row is the map from the column names.
\<close>

datatype dbval = DbString string | DbBytes string | DbOther string gov

type_synonym row = "(string \<times> dbval) list"

text \<open>
  What a query returns: the column names, and one entry for each row that \<^verbatim>\<open>rows.Next\<close> delivers: its
  values, or the error of \<^verbatim>\<open>rows.Values\<close>. An error that ends the iteration is not looked at by the
  code and so is not part of the result. Marshalling is a parameter because the values may marshal
  themselves.
\<close>

record query_result =
  qr_Columns :: "string list"
  qr_Rows :: "(go_error + dbval list) list"

record 'v txlib =
  tx_Query :: "pool \<Rightarrow> string \<Rightarrow> ('v, query_result) eff"
  tx_MarshalRow :: "row \<Rightarrow> go_error + string"
  tx_MarshalRows :: "row list \<Rightarrow> go_error + string"

text \<open>
  The loop that fills a row. Assigning twice to a column keeps the later value; too few values are
  an index out of range.
\<close>

fun scan_row :: "string list \<Rightarrow> dbval list \<Rightarrow> row \<Rightarrow> row outcome" where
  "scan_row [] vs r = Ok r"
| "scan_row (c # cs) [] r = Panic IndexOutOfRange"
| "scan_row (c # cs) (v # vs) r = scan_row cs vs (AList.update c v r)"

lemma scan_row_Ok: "length vs = length cs \<Longrightarrow> \<exists>r'. scan_row cs vs r = Ok r'"
  by (induction cs vs r rule: scan_row.induct) auto

lemma scan_row_map_of:
  "scan_row cs vs r = Ok r' \<Longrightarrow> map_of r' = map_of r ++ map_of (rev (zip cs vs))"
proof (induction cs vs r rule: scan_row.induct)
  case (3 c cs v vs r)
  then have "map_of r' = map_of (AList.update c v r) ++ map_of (rev (zip cs vs))" by simp
  then show ?case by (auto simp: fun_eq_iff map_add_def update_conv' split: option.splits)
qed auto

section \<open>Database sources\<close>

fun collect_rows :: "string list \<Rightarrow> (go_error + dbval list) list \<Rightarrow> (row list \<times> 'v, unit) io" where
  "collect_rows cols [] (res, v) = (Ok (), res, v)"
| "collect_rows cols (Inl e # rs) (res, v) = (Err e, res, v)"
| "collect_rows cols (Inr vs # rs) (res, v) =
     (case scan_row cols vs [] of
        Ok r \<Rightarrow> collect_rows cols rs (res @ [r], v)
      | Err e \<Rightarrow> (Err e, res, v) | Panic p \<Rightarrow> (Panic p, res, v) | Diverge \<Rightarrow> (Diverge, res, v))"

text \<open>
  The function run in the transaction. The rows are appended to a slice that is declared outside
  of it; the state of the transaction is that slice and the world.
\<close>

definition source_tx :: "'v txlib \<Rightarrow> pool \<Rightarrow> string \<Rightarrow> (row list \<times> 'v, unit) io" where
  "source_tx X p query st =
     (let (res, v) = st in
      case tx_Query X p query v of
        (Inl e, v1) \<Rightarrow> (Err e, res, v1)
      | (Inr q, v1) \<Rightarrow> collect_rows (qr_Columns q) (qr_Rows q) (res, v1))"

definition cockroachSource ::
  "(row list \<times> 'v) dblib \<Rightarrow> 'v txlib \<Rightarrow> pool \<Rightarrow> string \<Rightarrow> ('v, string) io" where
  "cockroachSource D X p query v =
     (let (x, res, v1) = crdb_ExecuteTx D p (source_tx X p query) ([], v) in
      case x of
        Ok _ \<Rightarrow> (of_sum (tx_MarshalRows X res), v1)
      | Err e \<Rightarrow> (Err e, v1) | Panic q \<Rightarrow> (Panic q, v1) | Diverge \<Rightarrow> (Diverge, v1))"

record databaseSourceConfigQuery =
  dq_Name :: string
  dq_DatabaseName :: string
  dq_Query :: string

record databaseSources =
  ds_conns :: "connections option"
  ds_config :: "databaseSourceConfigQuery list"

definition NewDatabaseSources ::
  "'v fslib \<Rightarrow> (string \<Rightarrow> go_error + databaseSourceConfigQuery list) \<Rightarrow> connections option \<Rightarrow> string \<Rightarrow>
     ('v, databaseSources) io" where
  "NewDatabaseSources F decode conns file v =
     (case fs_ReadFile F file v of
        (Inl e, v1) \<Rightarrow> (Err (OpenConfigFile e), v1)
      | (Inr content, v1) \<Rightarrow>
          (case decode content of
             Inl e \<Rightarrow> (Err (ParseConfigFile e), v1)
           | Inr config \<Rightarrow> (Ok \<lparr>ds_conns = conns, ds_config = config\<rparr>, v1)))"

type_synonym 'v source = "('v, string) io"

definition sourceForQuery ::
  "(row list \<times> 'v) dblib \<Rightarrow> 'v txlib \<Rightarrow> databaseSources \<Rightarrow> databaseSourceConfigQuery \<Rightarrow>
     'v source outcome" where
  "sourceForQuery D X s q =
     (case ds_conns s of
        None \<Rightarrow> Panic NilDereference
      | Some conns \<Rightarrow>
          (case conns (dq_DatabaseName q) of
             None \<Rightarrow> Err (NoConnectionForDatabase (dq_DatabaseName q))
           | Some conn \<Rightarrow>
               (if cn_Type conn = TypeCockroachDB
                then Ok (cockroachSource D X (cn_CockroachClient conn) (dq_Query q))
                else Err (UnsupportedDatabaseType (cn_Type conn)))))"

fun input_sources ::
  "(row list \<times> 'v) dblib \<Rightarrow> 'v txlib \<Rightarrow> databaseSources \<Rightarrow> databaseSourceConfigQuery list \<Rightarrow>
     (string \<rightharpoonup> 'v source) \<Rightarrow> (string \<rightharpoonup> 'v source) outcome" where
  "input_sources D X s [] res = Ok res"
| "input_sources D X s (q # qs) res =
     (case sourceForQuery D X s q of
        Ok f \<Rightarrow> input_sources D X s qs (res(dq_Name q \<mapsto> f))
      | Err e \<Rightarrow> Err e | Panic p \<Rightarrow> Panic p | Diverge \<Rightarrow> Diverge)"

definition DatabaseSources_InputSources ::
  "(row list \<times> 'v) dblib \<Rightarrow> 'v txlib \<Rightarrow> databaseSources \<Rightarrow> (string \<rightharpoonup> 'v source) outcome" where
  "DatabaseSources_InputSources D X s = input_sources D X s (ds_config s) Map.empty"

section \<open>Properties of the sources\<close>

text \<open>
  The rows that the loop reads of a result: those before the first that cannot be read, which are all
  of them when the result is well shaped.
\<close>

fun rows_before_error :: "string list \<Rightarrow> (go_error + dbval list) list \<Rightarrow> row list" where
  "rows_before_error cols [] = []"
| "rows_before_error cols (Inl e # rs) = []"
| "rows_before_error cols (Inr vs # rs) =
     (case scan_row cols vs [] of Ok r \<Rightarrow> r # rows_before_error cols rs | _ \<Rightarrow> [])"

definition rows_of :: "query_result \<Rightarrow> row list" where
  "rows_of q = rows_before_error (qr_Columns q) (qr_Rows q)"

definition well_shaped :: "query_result \<Rightarrow> bool" where
  "well_shaped q \<longleftrightarrow>
     list_all (\<lambda>x. case x of Inr vs \<Rightarrow> length vs = length (qr_Columns q) | Inl _ \<Rightarrow> False) (qr_Rows q)"

lemma collect_rows_state:
  "snd (collect_rows cols rs (res, v)) = (res @ rows_before_error cols rs, v)"
  by (induction cols rs "(res, v)" arbitrary: res rule: collect_rows.induct) (simp_all split: outcome.split)

lemma collect_rows_Ok:
  "list_all (\<lambda>x. case x of Inr vs \<Rightarrow> length vs = length cols | Inl _ \<Rightarrow> False) rs \<Longrightarrow>
   fst (collect_rows cols rs (res, v)) = Ok ()"
proof (induction cols rs "(res, v)" arbitrary: res v rule: collect_rows.induct)
  case (3 cols vs rs res v)
  then obtain r where "scan_row cols vs [] = Ok r" using scan_row_Ok [of vs cols "[]"] by auto
  with 3 show ?case by simp
qed simp_all

lemma well_shaped_length: "well_shaped q \<Longrightarrow> length (rows_of q) = length (qr_Rows q)"
proof -
  have "list_all (\<lambda>x. case x of Inr vs \<Rightarrow> length vs = length cols | Inl _ \<Rightarrow> False) rs \<Longrightarrow>
      length (rows_before_error cols rs) = length rs" for cols rs
  proof (induction cols rs rule: rows_before_error.induct)
    case (3 cols vs rs)
    then obtain r where "scan_row cols vs [] = Ok r" using scan_row_Ok [of vs cols "[]"] by auto
    with 3 show ?case by simp
  qed simp_all
  then show "well_shaped q \<Longrightarrow> length (rows_of q) = length (qr_Rows q)" by (simp add: well_shaped_def rows_of_def)
qed

text \<open>
  A transaction that runs its function once. In general \<^verbatim>\<open>crdbpgx.ExecuteTx\<close> runs it again as long as the
  attempt has to be retried: \<open>committed_after D p f n w\<close> says that it committed in the attempt that
  follows \<open>n\<close> others, so that the function ran \<open>n + 1\<close> times and the result is that of its last run.
  What the earlier runs did to the variables of the function is not undone.
\<close>

definition runs_once :: "'w dblib \<Rightarrow> bool" where
  "runs_once D \<longleftrightarrow> (\<forall>p f w. dl_ExecuteTx D p f w = f w) \<and> (\<forall>p l w. dl_Observe D p l w = w)"

definition committed_after :: "'w dblib \<Rightarrow> pool \<Rightarrow> ('w, unit) io \<Rightarrow> nat \<Rightarrow> 'w \<Rightarrow> bool" where
  "committed_after D p f n w \<longleftrightarrow> dl_ExecuteTx D p f w = f (((\<lambda>w. snd (f w)) ^^ n) w)"

text \<open>
  What the attempts of a transaction get for the query, a result or an error, one after the other, from
  the world \<open>v\<close> to the world \<open>v'\<close>.
\<close>

fun answers ::
  "'v txlib \<Rightarrow> pool \<Rightarrow> string \<Rightarrow> 'v \<Rightarrow> (go_error + query_result) list \<Rightarrow> 'v \<Rightarrow> bool" where
  "answers X p query v [] v' \<longleftrightarrow> v' = v"
| "answers X p query v (a # as) v' \<longleftrightarrow> (\<exists>v1. tx_Query X p query v = (a, v1) \<and> answers X p query v1 as v')"

lemma answers_append:
  "answers X p query v (as @ bs) v' \<longleftrightarrow> (\<exists>v1. answers X p query v as v1 \<and> answers X p query v1 bs v')"
  by (induction as arbitrary: v) auto

fun answer_rows :: "go_error + query_result \<Rightarrow> row list" where
  "answer_rows (Inl e) = []"
| "answer_rows (Inr q) = rows_of q"

lemma source_tx_state:
  "tx_Query X p query v = (a, v1) \<Longrightarrow> snd (source_tx X p query (res, v)) = (res @ answer_rows a, v1)"
  by (cases a) (simp_all add: source_tx_def collect_rows_state rows_of_def)

lemma source_attempts:
  "answers X p query v as v' \<Longrightarrow>
   ((\<lambda>st. snd (source_tx X p query st)) ^^ length as) (res, v) = (res @ concat (map answer_rows as), v')"
proof (induction as arbitrary: v res)
  case (Cons a as)
  then obtain v1 where a: "tx_Query X p query v = (a, v1)" "answers X p query v1 as v'" by auto
  show ?case
    using Cons.IH [OF a(2), of "res @ answer_rows a"] source_tx_state [OF a(1), of res]
    by (simp add: funpow_Suc_right del: funpow.simps)
qed simp

text \<open>
  C40: A source whose transaction commits gives the marshalled rows of its query, each row mapping a
  column to its value. But the slice for the rows outlives an attempt: when the transaction
  commits after attempts that were retried, be it that the query, the reading of the rows or the commit
  failed, the source gives the rows that each of these attempts has read, and then all of the last.
  Without a retry these are the rows of the query.
\<close>

theorem source_gives_rows_of_every_attempt:
  assumes tx: "committed_after D p (source_tx X p query) (length retried) ([], v)"
    and seen: "answers X p query v (retried @ [Inr q]) v'" and q: "well_shaped q"
    and obs: "\<And>l st. dl_Observe D p l st = st"
  shows "cockroachSource D X p query v =
      (of_sum (tx_MarshalRows X (concat (map answer_rows retried) @ rows_of q)), v') \<and>
    length (rows_of q) = length (qr_Rows q)"
proof -
  obtain v1 where v1: "answers X p query v retried v1" "tx_Query X p query v1 = (Inr q, v')"
    using seen by (auto simp: answers_append)
  have "fst (source_tx X p query (res, v1)) = Ok ()" for res
    using q by (simp add: source_tx_def v1(2) collect_rows_Ok well_shaped_def)
  then have last: "source_tx X p query (res, v1) = (Ok (), res @ rows_of q, v')" for res
    using source_tx_state [OF v1(2), of res] by (metis answer_rows.simps(2) prod.collapse)
  have "source_tx X p query (((\<lambda>st. snd (source_tx X p query st)) ^^ length retried) ([], v)) =
      (Ok (), concat (map answer_rows retried) @ rows_of q, v')"
    by (simp add: source_attempts [OF v1(1)] last)
  then show ?thesis
    using tx well_shaped_length [OF q]
    by (simp add: cockroachSource_def crdb_ExecuteTx_def committed_after_def obs)
qed

definition sample_txlib :: "nat txlib" where
  "sample_txlib =
     \<lparr>tx_Query = (\<lambda>p q v. (Inr \<lparr>qr_Columns = [''id'', ''n''],
        qr_Rows = [Inr [DbString ''a'', DbOther ''1'' (VInt 1)]]\<rparr>, v)),
      tx_MarshalRow = (\<lambda>r. Inr (concat (map fst r))),
      tx_MarshalRows = (\<lambda>rs. Inr (concat (map (\<lambda>r. concat (map fst r)) rs)))\<rparr>"

definition retrying_dblib :: "'w dblib" where
  "retrying_dblib =
     \<lparr>dl_ParseConfig = (\<lambda>s. Inr ()), dl_ConnectConfig = (\<lambda>s w. (Inr s, w)),
      dl_Register = (\<lambda>n w. (True, w)), dl_Observe = (\<lambda>p l w. w),
      dl_ExecuteTx = (\<lambda>p f w. f (snd (f w))), dl_Exec = (\<lambda>p s w. (Inr (), w)),
      dl_Close = (\<lambda>p w. w)\<rparr>"

theorem source_gives_rows_of_every_attempt_witness:
  "cockroachSource retrying_dblib sample_txlib ''p'' ''SELECT'' 0 = (Ok ''idnidn'', 0)"
proof -
  let ?q = "\<lparr>qr_Columns = [''id'', ''n''], qr_Rows = [Inr [DbString ''a'', DbOther ''1'' (VInt 1)]]\<rparr>"
  have seen: "answers sample_txlib ''p'' ''SELECT'' 0 ([Inr ?q] @ [Inr ?q]) 0"
    by (simp add: sample_txlib_def)
  have q: "well_shaped ?q" by (simp add: well_shaped_def)
  have tx: "committed_after retrying_dblib ''p'' (source_tx sample_txlib ''p'' ''SELECT'') (length [Inr ?q :: go_error + query_result]) ([], 0)"
    by (simp add: committed_after_def retrying_dblib_def)
  have obs: "dl_Observe retrying_dblib ''p'' l st = st" for l and st :: "row list \<times> nat"
    by (simp add: retrying_dblib_def)
  from source_gives_rows_of_every_attempt [OF tx seen q obs] show ?thesis
    by (simp add: rows_of_def sample_txlib_def)
qed

lemma input_sources_Ok:
  "input_sources D X s qs res = Ok res' \<Longrightarrow>
   dom res' = dom res \<union> dq_Name ` set qs \<and>
   (qs \<noteq> [] \<longrightarrow> (\<exists>conns. ds_conns s = Some conns \<and>
      (\<forall>q \<in> set qs. \<exists>cn. conns (dq_DatabaseName q) = Some cn \<and> cn_Type cn = TypeCockroachDB)))"
proof (induction qs arbitrary: res)
  case (Cons q qs)
  then obtain f where f: "sourceForQuery D X s q = Ok f"
    and r: "input_sources D X s qs (res(dq_Name q \<mapsto> f)) = Ok res'"
    by (auto split: outcome.splits)
  from f obtain conns cn where "ds_conns s = Some conns" "conns (dq_DatabaseName q) = Some cn"
    "cn_Type cn = TypeCockroachDB"
    by (auto simp: sourceForQuery_def split: option.splits if_splits)
  with Cons.IH [OF r] show ?case by auto
qed simp

text \<open>
  Building the sources succeeds only when there are connections and every query names one of a
  supported type, and then there is a source under exactly the names of the queries. Queries
  without a connections file make it panic.
\<close>

theorem input_sources_named_after_queries:
  "(\<forall>res. DatabaseSources_InputSources D X s = Ok res \<longrightarrow>
      dom res = dq_Name ` set (ds_config s) \<and>
      (\<forall>q \<in> set (ds_config s). \<exists>conns cn. ds_conns s = Some conns \<and>
         conns (dq_DatabaseName q) = Some cn \<and> cn_Type cn = TypeCockroachDB)) \<and>
   (ds_conns s = None \<and> ds_config s \<noteq> [] \<longrightarrow>
      DatabaseSources_InputSources D X s = Panic NilDereference)"
proof -
  have "ds_conns s = None \<and> qs \<noteq> [] \<Longrightarrow> input_sources D X s qs m = Panic NilDereference" for qs m
    by (cases qs) (auto simp: sourceForQuery_def)
  then show ?thesis
    using input_sources_Ok [of D X s "ds_config s" Map.empty]
    by (fastforce simp: DatabaseSources_InputSources_def)
qed

theorem input_sources_named_after_queries_witness:
  "DatabaseSources_InputSources retrying_dblib sample_txlib
     \<lparr>ds_conns = None, ds_config = [\<lparr>dq_Name = ''s'', dq_DatabaseName = ''db'', dq_Query = ''SELECT''\<rparr>]\<rparr> =
   Panic NilDereference"
  using input_sources_named_after_queries [of retrying_dblib sample_txlib
      "\<lparr>ds_conns = None, ds_config = [\<lparr>dq_Name = ''s'', dq_DatabaseName = ''db'', dq_Query = ''SELECT''\<rparr>]\<rparr>"]
  by simp

end
