(* ===== verification/Renderers.thy ===== *)
theory Renderers
  imports Paths Trigger DbRows
begin

text \<open>
  The two renderers: a directory of manifests (render/file/file.go) and a Jsonnet program
  (render/jsonnet/jsonnet.go). The file tree is a snapshot taken when the walk starts; the YAML and
  JSON decoders and the Jsonnet virtual machine are parameters.
\<close>

section \<open>Walking a directory\<close>

text \<open>
  A node of the tree as \<^verbatim>\<open>filepath.Walk\<close> finds it: a file, with its content or the error of opening
  it; a directory, with its entries sorted by name; a directory that cannot be read; a name
  that cannot be looked at.
\<close>

datatype fsnode =
    FileNode "go_error + string"
  | DirNode "(string \<times> fsnode) list"
  | DirUnreadable go_error
  | Unstatable go_error

text \<open>What the function given to \<^verbatim>\<open>Walk\<close> is told about a path.\<close>

datatype visit = VisitError go_error | VisitDir | VisitFile "go_error + string"

type_synonym 'a walk_fn = "string \<Rightarrow> visit \<Rightarrow> 'a \<Rightarrow> (go_error + unit) \<times> 'a"

fun Walk :: "'a walk_fn \<Rightarrow> string \<Rightarrow> fsnode \<Rightarrow> 'a \<Rightarrow> (go_error + unit) \<times> 'a"
  and walk_entries :: "'a walk_fn \<Rightarrow> string \<Rightarrow> (string \<times> fsnode) list \<Rightarrow> 'a \<Rightarrow> (go_error + unit) \<times> 'a" where
  "Walk fn path (FileNode c) st = fn path (VisitFile c) st"
| "Walk fn path (Unstatable e) st = fn path (VisitError e) st"
| "Walk fn path (DirUnreadable e) st = fn path (VisitError e) st"
| "Walk fn path (DirNode es) st =
     (case fn path VisitDir st of
        (Inl e, st1) \<Rightarrow> (Inl e, st1)
      | (Inr _, st1) \<Rightarrow> walk_entries fn path es st1)"
| "walk_entries fn path [] st = (Inr (), st)"
| "walk_entries fn path ((name, node) # es) st =
     (case Walk fn (Join path name) node st of
        (Inl e, st1) \<Rightarrow> (Inl e, st1)
      | (Inr _, st1) \<Rightarrow> walk_entries fn path es st1)"

section \<open>The file renderer\<close>

record fileRenderer =
  fr_directory :: string
  fr_rolloutFile :: string

definition file_NewRenderer :: "string \<Rightarrow> string \<Rightarrow> fileRenderer" where
  "file_NewRenderer directory rolloutFile = \<lparr>fr_directory = directory, fr_rolloutFile = rolloutFile\<rparr>"

definition read_object :: "(string \<Rightarrow> go_error + obj) \<Rightarrow> string \<Rightarrow> objects walk_fn" where
  "read_object decode dir path v objects =
     (case v of
        VisitError e \<Rightarrow> (Inl e, objects)
      | VisitDir \<Rightarrow> (Inr (), objects)
      | VisitFile (Inl e) \<Rightarrow> (Inl e, objects)
      | VisitFile (Inr content) \<Rightarrow>
          (case decode content of
             Inl e \<Rightarrow> (Inl e, objects)
           | Inr res \<Rightarrow> (Inr (), objects(TrimPrefix path dir \<mapsto> res))))"

definition file_Render ::
  "(string \<Rightarrow> 'w \<Rightarrow> fsnode) \<Rightarrow> 'w fslib \<Rightarrow> (string \<Rightarrow> go_error + obj) \<Rightarrow> (string \<Rightarrow> go_error + rollout) \<Rightarrow>
     fileRenderer \<Rightarrow> string \<Rightarrow> ('w, render_result) io" where
  "file_Render tree F decode decodeRollout r _ w =
     (let dir = fr_directory r in
      case Walk (read_object decode dir) dir (tree dir w) Map.empty of
        (Inl e, _) \<Rightarrow> (Err e, w)
      | (Inr _, objects) \<Rightarrow>
          (case fs_ReadFile F (fr_rolloutFile r) w of
             (Inl e, w1) \<Rightarrow> (Err e, w1)
           | (Inr content, w1) \<Rightarrow>
               (case decodeRollout content of
                  Inl e \<Rightarrow> (Err e, w1)
                | Inr rollout \<Rightarrow> (Ok \<lparr>rr_Objects = objects, rr_Rollout = Some rollout\<rparr>, w1))))"

section \<open>The Jsonnet renderer\<close>

text \<open>
  \<open>vm_Evaluate\<close> evaluates a snippet under its file name with the external variables and an importer,
  which may be called any number of times; an importer gets the directory of the importing file
  and the path, and gives content and the place where it was found.
\<close>

type_synonym 'w importer = "string \<Rightarrow> string \<Rightarrow> ('w, string \<times> string) io"

record jsonnet_result =
  jres_Objects :: "(string \<times> obj) list"
  jres_Rollout :: "rollout option"

record 'w jsonnet_vm =
  vm_Evaluate :: "(string \<rightharpoonup> string) \<Rightarrow> 'w importer \<Rightarrow> string \<Rightarrow> string \<Rightarrow> ('w, string) io"
  vm_FileImport :: "string list \<Rightarrow> 'w importer"
  vm_Unmarshal :: "string \<Rightarrow> go_error + jsonnet_result"
  vm_MarshalJSON :: "obj \<Rightarrow> go_error + string"

record 'w jsonnetRenderer =
  jn_entrypoint :: string
  jn_sources :: "string \<rightharpoonup> 'w source"
  jn_extStrs :: "string \<rightharpoonup> string"
  jn_jpaths :: "string list"

text \<open>\<^verbatim>\<open>strings.SplitN(s, "=", 2)\<close>\<close>

definition split_at_equals :: "string \<Rightarrow> string list" where
  "split_at_equals s =
     (let k = takeWhile (\<lambda>c. c \<noteq> CHR ''='') s in
      if length k = length s then [s] else [k, drop (length k + 1) s])"

fun parse_extStrs :: "string list \<Rightarrow> (string \<rightharpoonup> string) \<Rightarrow> go_error + (string \<rightharpoonup> string)" where
  "parse_extStrs [] m = Inr m"
| "parse_extStrs (extStr # es) m =
     (let extStrSplit = split_at_equals extStr in
      if length extStrSplit \<noteq> 2 then Inl (InvalidExtStr extStr)
      else parse_extStrs es (m(extStrSplit ! 0 \<mapsto> extStrSplit ! 1)))"

definition jsonnet_NewRenderer ::
  "string \<Rightarrow> (string \<rightharpoonup> 'w source) \<Rightarrow> string list \<Rightarrow> string list \<Rightarrow> go_error + 'w jsonnetRenderer" where
  "jsonnet_NewRenderer entrypoint sources extStrsList jpaths =
     (case parse_extStrs extStrsList Map.empty of
        Inl e \<Rightarrow> Inl e
      | Inr extStrs \<Rightarrow>
          Inr \<lparr>jn_entrypoint = entrypoint, jn_sources = sources, jn_extStrs = extStrs, jn_jpaths = jpaths\<rparr>)"

definition virtualConfigPath :: string where
  "virtualConfigPath = ''generic-operator/config''"

definition runtimePrefix :: string where
  "runtimePrefix = ''locutus-runtime/''"

definition Import ::
  "'w importer \<Rightarrow> (string \<rightharpoonup> 'w source) \<Rightarrow> string \<Rightarrow> 'w importer" where
  "Import fileImporter sources config dir importedPath w =
     (if importedPath = virtualConfigPath then (Ok (config, virtualConfigPath), w)
      else
        let p = TrimPrefix importedPath runtimePrefix in
        case (if take (length runtimePrefix) importedPath = runtimePrefix then sources p else None) of
          Some f \<Rightarrow> andThen (f w) (\<lambda>b w1. (Ok (b, runtimePrefix @ p), w1))
        | None \<Rightarrow> fileImporter dir importedPath w)"

fun marshal_objects :: "'w jsonnet_vm \<Rightarrow> (string \<times> obj) list \<Rightarrow> objects \<Rightarrow> go_error + objects" where
  "marshal_objects V [] objects = Inr objects"
| "marshal_objects V ((k, v) # os) objects =
     (case vm_MarshalJSON V v of
        Inl e \<Rightarrow> Inl e
      | Inr _ \<Rightarrow> marshal_objects V os (objects(k \<mapsto> v)))"

definition jsonnet_Render ::
  "'w fslib \<Rightarrow> 'w jsonnet_vm \<Rightarrow> 'w jsonnetRenderer \<Rightarrow> string \<Rightarrow> ('w, render_result) io" where
  "jsonnet_Render F V r config w =
     (let jsonnetMain = jn_entrypoint r in
      case fs_ReadFile F jsonnetMain w of
        (Inl _, w1) \<Rightarrow> (Err (ReadMainJsonnet jsonnetMain), w1)
      | (Inr content, w1) \<Rightarrow>
          andThen (on_err EvaluateFailed (vm_Evaluate V (jn_extStrs r)
              (Import (vm_FileImport V (jn_jpaths r)) (jn_sources r) config) jsonnetMain content w1))
            (\<lambda>rawJson w2.
              case vm_Unmarshal V rawJson of
                Inl e \<Rightarrow> (Err (UnmarshalFailed e), w2)
              | Inr res \<Rightarrow>
                  (case marshal_objects V (jres_Objects res) Map.empty of
                     Inl e \<Rightarrow> (Err (MarshalFailed e), w2)
                   | Inr objects \<Rightarrow>
                       (Ok \<lparr>rr_Objects = objects, rr_Rollout = jres_Rollout res\<rparr>, w2))))"

end
