(* ===== verification/Renderers_Props.thy ===== *)
theory Renderers_Props
  imports Renderers
begin

text \<open>
  The objects that the renderers give: which files become which objects, how the external variables
  are read, and the contract of a renderer on which the rollout relies.
\<close>

section \<open>The files of a directory\<close>

text \<open>The files below a node with their relative paths, in the order of the walk.\<close>

fun tree_files :: "string list \<Rightarrow> fsnode \<Rightarrow> (string list \<times> string) list"
  and entry_files :: "string list \<Rightarrow> (string \<times> fsnode) list \<Rightarrow> (string list \<times> string) list" where
  "tree_files at (FileNode (Inr s)) = [(at, s)]"
| "tree_files at (DirNode es) = entry_files at es"
| "tree_files at _ = []"
| "entry_files at [] = []"
| "entry_files at ((name, node) # es) = tree_files (at @ [name]) node @ entry_files at es"

text \<open>Directories list proper names, each once.\<close>

fun wf_tree :: "fsnode \<Rightarrow> bool" and wf_entries :: "(string \<times> fsnode) list \<Rightarrow> bool" where
  "wf_tree (DirNode es) = wf_entries es"
| "wf_tree _ = True"
| "wf_entries [] = True"
| "wf_entries ((name, node) # es) =
     (simple_name name \<and> name \<notin> fst ` set es \<and> wf_tree node \<and> wf_entries es)"

definition file_key :: "string \<Rightarrow> string list \<Rightarrow> string" where
  "file_key dir ns = TrimPrefix (foldl Join dir ns) dir"

definition add_files :: "(string \<Rightarrow> go_error + obj) \<Rightarrow> string \<Rightarrow> (string list \<times> string) list \<Rightarrow> objects \<Rightarrow> objects" where
  "add_files decode dir fs m =
     foldl (\<lambda>m (ns, s). m(file_key dir ns \<mapsto> projr (decode s))) m fs"

lemma add_files_append: "add_files decode dir (fs @ gs) m = add_files decode dir gs (add_files decode dir fs m)"
  by (simp add: add_files_def)

lemma walk_files:
  "Walk (read_object decode dir) (foldl Join dir ns) node m = (Inr (), m') \<Longrightarrow>
     m' = add_files decode dir (tree_files ns node) m \<and>
     (\<forall>(k, s) \<in> set (tree_files ns node). \<exists>u. decode s = Inr u)"
  "walk_entries (read_object decode dir) (foldl Join dir ns) es m = (Inr (), m') \<Longrightarrow>
     m' = add_files decode dir (entry_files ns es) m \<and>
     (\<forall>(k, s) \<in> set (entry_files ns es). \<exists>u. decode s = Inr u)"
proof (induction ns node and ns es arbitrary: m m' and m m' rule: tree_files_entry_files.induct)
  case (5 at name node es)
  then obtain m1 where n: "Walk (read_object decode dir) (foldl Join dir (at @ [name])) node m = (Inr (), m1)"
    and e: "walk_entries (read_object decode dir) (foldl Join dir at) es m1 = (Inr (), m')"
    by (auto split: prod.splits sum.splits)
  from 5(1) [OF n] 5(2) [OF e] show ?case by (auto simp: add_files_append)
qed (auto simp: read_object_def add_files_def file_key_def split: sum.splits)

lemma tree_files_at:
  "wf_tree node \<Longrightarrow> (ns, s) \<in> set (tree_files at node) \<Longrightarrow>
     \<exists>ms. ns = at @ ms \<and> (\<forall>n \<in> set ms. simple_name n)"
  "wf_entries es \<Longrightarrow> (ns, s) \<in> set (entry_files at es) \<Longrightarrow>
     \<exists>n ms. ns = at @ n # ms \<and> n \<in> fst ` set es \<and> (\<forall>n \<in> set (n # ms). simple_name n)"
proof (induction at node and at es rule: tree_files_entry_files.induct)
  case (1 at s')
  then show ?case by simp
next
  case (2 at es)
  then obtain n ms where "ns = at @ n # ms" "\<forall>n \<in> set (n # ms). simple_name n" by auto
  then show ?case by blast
next
  case (5 at name node es)
  from 5(4) consider "(ns, s) \<in> set (tree_files (at @ [name]) node)" | "(ns, s) \<in> set (entry_files at es)"
    by auto
  then show ?case
  proof cases
    case 1
    then obtain ms where "ns = (at @ [name]) @ ms" "\<forall>n \<in> set ms. simple_name n" using 5 by auto
    then show ?thesis using 5(3) by (intro exI [of _ name] exI [of _ ms]) simp
  next
    case 2
    then obtain n ms where "ns = at @ n # ms" "n \<in> fst ` set es" "\<forall>n \<in> set (n # ms). simple_name n"
      using 5 by auto
    then show ?thesis by (intro exI [of _ n] exI [of _ ms]) simp
  qed
qed simp_all

lemma tree_files_distinct:
  "wf_tree node \<Longrightarrow> distinct (map fst (tree_files at node))"
  "wf_entries es \<Longrightarrow> distinct (map fst (entry_files at es))"
proof (induction at node and at es rule: tree_files_entry_files.induct)
  case (5 at name node es)
  have no: "(ns, s') \<notin> set (entry_files at es)" if t: "(ns, s) \<in> set (tree_files (at @ [name]) node)" for ns s s'
  proof
    assume e: "(ns, s') \<in> set (entry_files at es)"
    have wf: "wf_tree node" "wf_entries es" "name \<notin> fst ` set es" using 5(3) by simp_all
    obtain ms where "ns = (at @ [name]) @ ms" using tree_files_at(1) [OF wf(1) t] by blast
    moreover obtain n ls where "ns = at @ n # ls" "n \<in> fst ` set es" using tree_files_at(2) [OF wf(2) e] by blast
    ultimately show False using wf(3) by simp
  qed
  have "fst ` set (tree_files (at @ [name]) node) \<inter> fst ` set (entry_files at es) = {}"
  proof (rule equals0I)
    fix ns
    assume "ns \<in> fst ` set (tree_files (at @ [name]) node) \<inter> fst ` set (entry_files at es)"
    then obtain s s' where "(ns, s) \<in> set (tree_files (at @ [name]) node)" "(ns, s') \<in> set (entry_files at es)"
      by auto
    then show False using no by blast
  qed
  moreover have "distinct (map fst (tree_files (at @ [name]) node))" "distinct (map fst (entry_files at es))"
    using 5(1,2) 5(3) by simp_all
  ultimately show ?case by simp
qed simp_all

text \<open>Different relative paths have different names.\<close>

lemma join_slash_inject:
  assumes "\<forall>n \<in> set ns. simple_name n" "\<forall>n \<in> set ms. simple_name n" "join_slash ns = join_slash ms"
  shows "ns = ms"
proof -
  have split: "join_slash ks \<noteq> [] \<and> split_slash (join_slash ks) = ks"
    if "\<forall>n \<in> set ks. simple_name n" "ks \<noteq> []" for ks
  proof
    have hd: "simple_name (hd ks)" using that hd_in_set by blast
    then have "hd ks \<noteq> []" by (simp add: simple_name_def)
    then show "join_slash ks \<noteq> []" using hd_join_slash [OF that(2)] by blast
    have "\<forall>n \<in> set ks. no_slash n" using that(1) by (auto simp: simple_name_def)
    then show "split_slash (join_slash ks) = ks" by (rule split_join [OF that(2)])
  qed
  show ?thesis
  proof (cases "ns = [] \<or> ms = []")
    case True
    then show ?thesis using split [OF assms(1)] split [OF assms(2)] assms(3) by (metis join_slash.simps(1))
  next
    case False
    then show ?thesis using split [OF assms(1)] split [OF assms(2)] assms(3) by metis
  qed
qed

lemma find_pair_Some:
  "find (\<lambda>(ns, s). P ns) fs = Some (ns, s) \<Longrightarrow> (ns, s) \<in> set fs \<and> P ns"
  by (induction fs) (auto split: if_splits)

lemma add_files_lookup:
  assumes "inj_on (file_key dir) (fst ` set fs)" "distinct (map fst fs)"
  shows "add_files decode dir fs m k =
    (case find (\<lambda>(ns, s). file_key dir ns = k) fs of None \<Rightarrow> m k | Some (ns, s) \<Rightarrow> Some (projr (decode s)))"
  using assms
proof (induction fs arbitrary: m)
  case (Cons f fs)
  obtain ns s where f: "f = (ns, s)" by (cases f)
  have inj: "inj_on (file_key dir) (fst ` set fs)" "distinct (map fst fs)"
    using Cons.prems by (auto intro: inj_on_subset)
  have step: "add_files decode dir (f # fs) m = add_files decode dir fs (m(file_key dir ns \<mapsto> projr (decode s)))"
    by (simp add: add_files_def f)
  have no: "find (\<lambda>(ns, s). file_key dir ns = k) fs = None" if "file_key dir ns = k"
    using Cons.prems that f by (auto simp: find_None_iff inj_on_def image_iff)
  show ?case
  proof (cases "file_key dir ns = k")
    case True
    then show ?thesis using Cons.IH [OF inj] step no f by simp
  next
    case False
    then have "k \<noteq> file_key dir ns" by simp
    then show ?thesis using Cons.IH [OF inj] step f by (simp split: option.split)
  qed
qed (simp add: add_files_def)

text \<open>
  C16: The file renderer makes one object for each file below its directory, and nothing else. The
  directory written with a slash at its end (as the default is) gives each object its relative
  path as name, written without one the same after a slash; and a file that does not decode
  fails the rendering.
\<close>

theorem files_become_objects:
  assumes dir: "Clean d = d" "clean_elems d \<noteq> []" "d \<noteq> []"
    and fr: "fr_directory r = (if trailing then d @ [slash] else d)"
    and wf: "wf_tree (tree (fr_directory r) w)" and top: "tree (fr_directory r) w = DirNode es"
    and run: "file_Render tree F decode decodeRollout r raw w = (Ok res, w')"
  shows "rr_Objects res k = Some u \<longleftrightarrow>
    (\<exists>ns s. (ns, s) \<in> set (tree_files [] (DirNode es)) \<and> decode s = Inr u \<and>
       k = (if trailing then [] else [slash]) @ join_slash ns)"
proof -
  let ?fs = "tree_files [] (DirNode es)" and ?dir = "fr_directory r"
  obtain m where w: "Walk (read_object decode ?dir) (foldl Join ?dir []) (DirNode es) Map.empty = (Inr (), m)"
    and res: "rr_Objects res = m"
    using run top by (auto simp: file_Render_def Let_def split: prod.splits sum.splits)
  from walk_files(1) [OF w] have m: "m = add_files decode ?dir ?fs Map.empty"
    and dec: "(ns, s) \<in> set ?fs \<Longrightarrow> \<exists>u. decode s = Inr u" for ns s
    by auto
  have wf': "wf_entries es" using wf top by simp
  have names: "ns \<noteq> [] \<and> (\<forall>n \<in> set ns. simple_name n)" if "(ns, s) \<in> set ?fs" for ns s
    using tree_files_at(2) [OF wf', of ns s "[]"] that by auto
  have key: "file_key ?dir ns = (if trailing then [] else [slash]) @ join_slash ns" if "(ns, s) \<in> set ?fs" for ns s
    using file_name_of [OF dir, of ns] names [OF that] fr by (auto simp: file_key_def)
  have inj: "inj_on (file_key ?dir) (fst ` set ?fs)"
  proof (rule inj_onI)
    fix ns ms
    assume in_fs: "ns \<in> fst ` set ?fs" "ms \<in> fst ` set ?fs" and eq: "file_key ?dir ns = file_key ?dir ms"
    then obtain s s' where "(ns, s) \<in> set ?fs" "(ms, s') \<in> set ?fs" by auto
    note in_files = this
    have "join_slash ns = join_slash ms" using key [OF in_files(1)] key [OF in_files(2)] eq by simp
    then show "ns = ms" using join_slash_inject names [OF in_files(1)] names [OF in_files(2)] by blast
  qed
  have dist: "distinct (map fst ?fs)" using tree_files_distinct(1) [of "DirNode es" "[]"] wf top by simp
  have look: "m k = (case find (\<lambda>(ns, s). file_key ?dir ns = k) ?fs of None \<Rightarrow> None
      | Some (ns, s) \<Rightarrow> Some (projr (decode s)))"
    unfolding m using add_files_lookup [OF inj dist, of decode Map.empty k] by simp
  show ?thesis
  proof
    assume "rr_Objects res k = Some u"
    then obtain ns s where f: "find (\<lambda>(ns, s). file_key ?dir ns = k) ?fs = Some (ns, s)" "u = projr (decode s)"
      using look res by (auto split: option.splits)
    then have "(ns, s) \<in> set ?fs" "file_key ?dir ns = k" by (auto dest: find_pair_Some)
    then show "\<exists>ns s. (ns, s) \<in> set ?fs \<and> decode s = Inr u \<and> k = (if trailing then [] else [slash]) @ join_slash ns"
      using f(2) dec key by fastforce
  next
    assume "\<exists>ns s. (ns, s) \<in> set ?fs \<and> decode s = Inr u \<and> k = (if trailing then [] else [slash]) @ join_slash ns"
    then obtain ns s where f: "(ns, s) \<in> set ?fs" "decode s = Inr u" "file_key ?dir ns = k" using key by metis
    obtain ns' s' where g: "find (\<lambda>(ns, s). file_key ?dir ns = k) ?fs = Some (ns', s')"
      using f by (cases "find (\<lambda>(ns, s). file_key ?dir ns = k) ?fs") (auto simp: find_None_iff)
    then have g': "(ns', s') \<in> set ?fs" "file_key ?dir ns' = k" by (auto dest: find_pair_Some)
    have "ns' = ns" using inj f(1,3) g' by (metis fst_conv imageI inj_onD)
    then have "s' = s" using dist f(1) g'(1) by (metis eq_key_imp_eq_value)
    then show "rr_Objects res k = Some u" using look res g f(2) by simp
  qed
qed

section \<open>External variables\<close>

definition ext_pair :: "string \<Rightarrow> string \<times> string" where
  "ext_pair s = (takeWhile (\<lambda>c. c \<noteq> CHR ''='') s, tl (dropWhile (\<lambda>c. c \<noteq> CHR ''='') s))"

lemma split_at_equals_pair:
  "split_at_equals s =
    (if CHR ''='' \<in> set s then [fst (ext_pair s), snd (ext_pair s)] else [s])"
proof -
  have "length (takeWhile (\<lambda>c. c \<noteq> CHR ''='') s) = length s \<longleftrightarrow> CHR ''='' \<notin> set s"
    by (induction s) auto
  moreover have "drop (Suc (length (takeWhile P s))) s = tl (dropWhile P s)" for P
    by (simp add: dropWhile_eq_drop tl_drop drop_Suc)
  ultimately show ?thesis by (simp add: split_at_equals_def ext_pair_def Let_def)
qed

lemma parse_extStrs_eq:
  "parse_extStrs es m = Inr m' \<longleftrightarrow>
    list_all (\<lambda>s. CHR ''='' \<in> set s) es \<and> m' = m ++ map_of (rev (map ext_pair es))"
proof (induction es arbitrary: m)
  case (Cons s es)
  have "map_of [ext_pair s] = [fst (ext_pair s) \<mapsto> snd (ext_pair s)]" by (cases "ext_pair s") simp
  then have "m ++ map_of (rev (map ext_pair (s # es))) =
      m(fst (ext_pair s) \<mapsto> snd (ext_pair s)) ++ map_of (rev (map ext_pair es))"
    by (simp add: map_add_assoc [symmetric])
  then show ?case using Cons by (simp add: split_at_equals_pair)
qed auto

text \<open>
  The Jsonnet renderer is made exactly when every external variable is given as name and value
  with an equals sign between them; the value is all that follows the first one, further signs
  included, and of two values for one name the later counts.
\<close>

theorem external_variables_last_wins:
  "jsonnet_NewRenderer entrypoint sources exts jpaths = Inr r \<longleftrightarrow>
    list_all (\<lambda>s. CHR ''='' \<in> set s) exts \<and>
    r = \<lparr>jn_entrypoint = entrypoint, jn_sources = sources,
         jn_extStrs = map_of (rev (map ext_pair exts)), jn_jpaths = jpaths\<rparr>"
proof -
  have "jsonnet_NewRenderer entrypoint sources exts jpaths = Inr r \<longleftrightarrow>
      (\<exists>m. parse_extStrs exts Map.empty = Inr m \<and> r = \<lparr>jn_entrypoint = entrypoint, jn_sources = sources,
         jn_extStrs = m, jn_jpaths = jpaths\<rparr>)"
    by (auto simp: jsonnet_NewRenderer_def split: sum.splits)
  then show ?thesis by (auto simp: parse_extStrs_eq)
qed

section \<open>The contract of a renderer\<close>

text \<open>
  What a rollout does to its objects: none appears or goes away, and each keeps the address that it
  has at the server.
\<close>

definition store_keeps :: "ulib \<Rightarrow> objects \<Rightarrow> objects \<Rightarrow> bool" where
  "store_keeps U objs objs' \<longleftrightarrow>
     (\<forall>k. case (objs k, objs' k) of
            (None, None) \<Rightarrow> True | (Some u, Some u') \<Rightarrow> keeps U u u' | _ \<Rightarrow> False)"

lemma store_keeps_refl [simp]: "store_keeps U objs objs"
  by (simp add: store_keeps_def split: option.splits)

lemma store_keeps_trans: "store_keeps U a b \<Longrightarrow> store_keeps U b c \<Longrightarrow> store_keeps U a c"
  unfolding store_keeps_def
  by (rule allI, drule_tac x = k in spec, drule_tac x = k in spec)
    (auto split: option.splits intro: keeps_trans)

lemma store_keeps_Some: "store_keeps U objs objs' \<Longrightarrow> objs' k = Some u' \<Longrightarrow> \<exists>u. objs k = Some u \<and> keeps U u u'"
  by (auto simp: store_keeps_def split: option.splits dest: spec [of _ k])

lemma store_keeps_in: "store_keeps U objs objs' \<Longrightarrow> objs k = Some u \<Longrightarrow> \<exists>u'. objs' k = Some u' \<and> keeps U u u'"
  unfolding store_keeps_def by (drule spec [of _ k]) (auto split: option.splits)

lemma runStep_keeps:
  assumes "ulib_ok (e_U E)" "wired r" "runStep E r s (objs, w) = (x, (objs', w'))"
  shows "store_keeps (e_U E) objs objs'"
proof (cases "objs (st_Object s)")
  case (Some u)
  obtain y u' w1 where y: "executeAction E r (st_Action s) u w = (y, u', w1)" by (rule prod_cases3)
  have k: "keeps (e_U E) u u'"
    using executeAction_rec_keeps [OF assms(1,2), of u "size (VObj u)" "st_Action s" w] y
    by (simp add: executeAction_def)
  have "objs' = objs(st_Object s \<mapsto> u')"
    using assms(3) Some y by (cases y) (auto simp: runStep_def split: prod.splits)
  then show ?thesis using Some k by (auto simp: store_keeps_def split: option.splits)
qed (use assms(3) in \<open>auto simp: runStep_def\<close>)

lemma run_groups_keeps:
  assumes "ulib_ok (e_U E)" "wired r" "run_groups E r gs (objs, fb, w) = (x, (objs', st))"
  shows "store_keeps (e_U E) objs objs'"
proof -
  have "(\<lambda>a b. store_keeps (e_U E) (fst a) (fst b)) (objs, fb, w) (objs', st)"
    by (rule run_groups_closed [OF _ _ _ _ assms(3)])
      (use runStep_keeps [OF assms(1,2)] store_keeps_trans in auto)
  then show ?thesis by simp
qed

text \<open>
  A renderer gives only objects that its decoder has made. A rollout of such a result then works on
  those objects alone, however it ends.
\<close>

locale renderer =
  fixes render :: "string \<Rightarrow> ('w, render_result) io" and decodes :: "obj \<Rightarrow> bool"
  assumes rendered: "render raw w = (Ok res, w') \<Longrightarrow> rr_Objects res k = Some u \<Longrightarrow> decodes u"
begin

lemma rollout_objects:
  assumes "ulib_ok (e_U E)" "wired r" "render raw w = (Ok res, w1)"
    and "run_groups E r gs (rr_Objects res, fb, w1) = (x, (objs', st))" "objs' k = Some u'"
  shows "\<exists>u. rr_Objects res k = Some u \<and> decodes u \<and> keeps (e_U E) u u'"
proof -
  obtain u where "rr_Objects res k = Some u" "keeps (e_U E) u u'"
    using store_keeps_Some [OF run_groups_keeps [OF assms(1,2,4)] assms(5)] by blast
  then show ?thesis using rendered [OF assms(3)] by blast
qed

end

lemma walk_decodes:
  "Walk (read_object decode dir) path node m = (x, m') \<Longrightarrow> \<forall>k u. m k = Some u \<longrightarrow> (\<exists>s. decode s = Inr u) \<Longrightarrow>
     \<forall>k u. m' k = Some u \<longrightarrow> (\<exists>s. decode s = Inr u)"
  "walk_entries (read_object decode dir) path es m = (x, m') \<Longrightarrow> \<forall>k u. m k = Some u \<longrightarrow> (\<exists>s. decode s = Inr u) \<Longrightarrow>
     \<forall>k u. m' k = Some u \<longrightarrow> (\<exists>s. decode s = Inr u)"
proof (induction "read_object decode dir" path node m and "read_object decode dir" path es m
    arbitrary: x m' and x m' rule: Walk_walk_entries.induct)
  case (6 path name node es st)
  obtain y m1 where n: "Walk (read_object decode dir) (Join path name) node st = (y, m1)" by (rule prod.exhaust)
  show ?case using 6 n by (cases y) auto
qed (auto simp: read_object_def split: sum.splits if_splits)

interpretation file_renderer: renderer "file_Render tree F decode decodeRollout r" "\<lambda>u. \<exists>s. decode s = Inr u"
  for tree F decode decodeRollout r
proof
  fix raw w res w' k u
  assume "file_Render tree F decode decodeRollout r raw w = (Ok res, w')" and u: "rr_Objects res k = Some u"
  then obtain m where "Walk (read_object decode (fr_directory r)) (fr_directory r) (tree (fr_directory r) w) Map.empty =
      (Inr (), m)" "rr_Objects res = m"
    by (auto simp: file_Render_def Let_def split: prod.splits sum.splits)
  from walk_decodes(1) [OF this(1)] this(2) u show "\<exists>s. decode s = Inr u" by auto
qed

lemma marshal_objects_decodes:
  "marshal_objects V os m = Inr m' \<Longrightarrow> m' k = Some u \<Longrightarrow> m k = Some u \<or> u \<in> snd ` set os"
  by (induction os arbitrary: m) (fastforce split: sum.splits if_splits)+

interpretation jsonnet_renderer: renderer "jsonnet_Render F V r"
  "\<lambda>u. \<exists>s res. vm_Unmarshal V s = Inr res \<and> u \<in> snd ` set (jres_Objects res)" for F V r
proof
  fix raw w res w' k u
  assume run: "jsonnet_Render F V r raw w = (Ok res, w')" and u: "rr_Objects res k = Some u"
  obtain y w1 where y: "fs_ReadFile F (jn_entrypoint r) w = (y, w1)" by (rule prod.exhaust)
  then obtain content where "y = Inr content" using run by (cases y) (auto simp: jsonnet_Render_def Let_def)
  then obtain s w2 where "(case vm_Unmarshal V s of Inl e \<Rightarrow> (Err (UnmarshalFailed e), w2)
      | Inr jr \<Rightarrow> (case marshal_objects V (jres_Objects jr) Map.empty of
           Inl e \<Rightarrow> (Err (MarshalFailed e), w2)
         | Inr objects \<Rightarrow> (Ok \<lparr>rr_Objects = objects, rr_Rollout = jres_Rollout jr\<rparr>, w2))) = (Ok res, w')"
    using run y unfolding jsonnet_Render_def Let_def by (simp add: andThen_Ok_iff) blast
  then obtain jr where j: "vm_Unmarshal V s = Inr jr"
    and m: "marshal_objects V (jres_Objects jr) Map.empty = Inr (rr_Objects res)"
    by (cases "vm_Unmarshal V s") (auto split: sum.splits)
  from marshal_objects_decodes [OF m u] j
  show "\<exists>s res. vm_Unmarshal V s = Inr res \<and> u \<in> snd ` set (jres_Objects res)" by auto
qed

text \<open>
  C9: Whatever the outcome of the groups of a rollout, and whichever renderer made its objects, each
  object of the rollout comes from one that was decoded, under the same name, and still has its
  API version, kind, namespace and name: actions rewrite only what an update needs.
\<close>

theorem rollout_works_on_rendered_objects:
  assumes U: "ulib_ok (e_U E)" and r: "wired r"
    and run: "run_groups E r gs (rr_Objects res, fb, w1) = (x, (objs', st))" and k: "objs' k = Some u'"
  shows "(file_Render tree F decode decodeRollout fr raw w = (Ok res, w1) \<longrightarrow>
      (\<exists>u s. rr_Objects res k = Some u \<and> decode s = Inr u \<and> ident (e_U E) u' = ident (e_U E) u)) \<and>
    (jsonnet_Render F V jr raw w = (Ok res, w1) \<longrightarrow>
      (\<exists>u s j. rr_Objects res k = Some u \<and> vm_Unmarshal V s = Inr j \<and> u \<in> snd ` set (jres_Objects j) \<and>
         ident (e_U E) u' = ident (e_U E) u))"
proof (intro conjI impI)
  assume "file_Render tree F decode decodeRollout fr raw w = (Ok res, w1)"
  from file_renderer.rollout_objects [OF U r this run k]
  show "\<exists>u s. rr_Objects res k = Some u \<and> decode s = Inr u \<and> ident (e_U E) u' = ident (e_U E) u"
    by (auto simp: keeps_def)
next
  assume "jsonnet_Render F V jr raw w = (Ok res, w1)"
  from jsonnet_renderer.rollout_objects [OF U r this run k]
  show "\<exists>u s j. rr_Objects res k = Some u \<and> vm_Unmarshal V s = Inr j \<and> u \<in> snd ` set (jres_Objects j) \<and>
      ident (e_U E) u' = ident (e_U E) u"
    by (auto simp: keeps_def)
qed

section \<open>Imports\<close>

lemma Import_config: "Import fi sources config dir virtualConfigPath w = (Ok (config, virtualConfigPath), w)"
  by (simp add: Import_def)

lemma Import_source:
  assumes "sources p = Some f"
  shows "Import fi sources config dir (runtimePrefix @ p) w =
    andThen (f w) (\<lambda>b w1. (Ok (b, runtimePrefix @ p), w1))"
proof -
  have "runtimePrefix @ p \<noteq> virtualConfigPath" by (simp add: runtimePrefix_def virtualConfigPath_def)
  then show ?thesis using assms by (simp add: Import_def Let_def)
qed

lemma Import_file:
  assumes "path \<noteq> virtualConfigPath" "\<And>p. path = runtimePrefix @ p \<Longrightarrow> sources p = None"
  shows "Import fi sources config dir path w = fi dir path w"
proof -
  have "path = runtimePrefix @ TrimPrefix path runtimePrefix" if "take (length runtimePrefix) path = runtimePrefix"
    using that append_take_drop_id [of "length runtimePrefix" path] by (simp add: TrimPrefix_def)
  then show ?thesis using assms by (auto simp: Import_def Let_def split: option.splits)
qed

section \<open>Witnesses\<close>

definition sample_tree :: fsnode where
  "sample_tree = DirNode [(''a.yaml'', FileNode (Inr ''A'')), (''sub'', DirNode [(''b.yaml'', FileNode (Inr ''B''))])]"

definition sample_decode :: "string \<Rightarrow> go_error + obj" where
  "sample_decode s = Inr [(''kind'', VStr s)]"

definition sample_spec :: rollout where
  "sample_spec = \<lparr>ro_APIVersion = ''workflow/v1'', ro_Kind = ''Rollout'', ro_Metadata = None, ro_Spec = None\<rparr>"

definition sample_renderer_files :: "sworld fslib" where
  "sample_renderer_files = \<lparr>fs_ReadFile = (\<lambda>f w. (Inr f, w))\<rparr>"

theorem files_become_objects_witness:
  "\<exists>res. fst (file_Render (\<lambda>d w. sample_tree) sample_renderer_files sample_decode (\<lambda>s. Inr sample_spec)
      (file_NewRenderer ''manifests/'' ''rollout.yaml'') '''' empty_world) = Ok res \<and>
    rr_Objects res ''sub/b.yaml'' = Some [(''kind'', VStr ''B'')]"
proof -
  let ?r = "file_NewRenderer ''manifests/'' ''rollout.yaml''" and ?d = "''manifests''"
  let ?es = "[(''a.yaml'', FileNode (Inr ''A'')), (''sub'', DirNode [(''b.yaml'', FileNode (Inr ''B''))])]"
  have d: "Clean ?d = ?d" "clean_elems ?d \<noteq> []" "?d \<noteq> []" by code_simp+
  have fr: "fr_directory ?r = (if True then ?d @ [slash] else ?d)"
    by (simp add: file_NewRenderer_def slash_def)
  have wf: "wf_tree sample_tree" by code_simp
  obtain res where run: "file_Render (\<lambda>d w. sample_tree) sample_renderer_files sample_decode
      (\<lambda>s. Inr sample_spec) ?r '''' empty_world = (Ok res, empty_world)"
    by (simp add: file_Render_def Let_def sample_tree_def read_object_def sample_decode_def sample_renderer_files_def)
  have f: "([''sub'', ''b.yaml''], ''B'') \<in> set (tree_files [] (DirNode ?es))" by simp
  have "rr_Objects res ''sub/b.yaml'' = Some [(''kind'', VStr ''B'')]"
    using files_become_objects [OF d fr, of "\<lambda>d w. sample_tree" empty_world ?es, OF wf _ run,
        of "''sub/b.yaml''" "[(''kind'', VStr ''B'')]"] f
    by (auto simp: sample_tree_def sample_decode_def slash_def)
  then show ?thesis using run by auto
qed

definition sample_group_of :: "string \<Rightarrow> rolloutGroup" where
  "sample_group_of object = \<lparr>gr_Name = ''g'', gr_Parallel = False,
     gr_Steps = [\<lparr>st_Name = ''s'', st_Object = object, st_Action = ''CreateOrUpdate'', st_Success = [],
       st_ContinueOnError = False\<rparr>]\<rparr>"

theorem rollout_works_on_rendered_objects_witness:
  "\<exists>res objs' u'. file_Render (\<lambda>d w. sample_tree) sample_renderer_files (\<lambda>s. Inr sample_service) (\<lambda>s. Inr sample_spec)
      (file_NewRenderer ''manifests/'' ''rollout.yaml'') '''' empty_world = (Ok res, empty_world) \<and>
    fst (snd (run_groups sample_env (sample_rollout_runner no_result) [sample_group_of ''a.yaml'']
      (rr_Objects res, None, empty_world))) = objs' \<and>
    objs' ''a.yaml'' = Some u' \<and> ident sample_ulib u' = ident sample_ulib sample_service"
proof -
  let ?r = "file_NewRenderer ''manifests/'' ''rollout.yaml''"
  have j: "Join ''manifests/'' ''a.yaml'' = ''manifests/a.yaml''" "Join ''manifests/'' ''sub'' = ''manifests/sub''"
    "Join ''manifests/sub'' ''b.yaml'' = ''manifests/sub/b.yaml''" by code_simp+
  obtain res where run: "file_Render (\<lambda>d w. sample_tree) sample_renderer_files (\<lambda>s. Inr sample_service)
      (\<lambda>s. Inr sample_spec) ?r '''' empty_world = (Ok res, empty_world)"
    and a: "rr_Objects res ''a.yaml'' = Some sample_service"
    by (simp add: file_Render_def Let_def sample_tree_def read_object_def sample_renderer_files_def
        file_NewRenderer_def j TrimPrefix_def)
  obtain x objs' st where g: "run_groups sample_env (sample_rollout_runner no_result) [sample_group_of ''a.yaml'']
      (rr_Objects res, None, empty_world) = (x, (objs', st))" by (rule prod_cases3)
  have U: "ulib_ok (e_U sample_env)" by (simp add: sample_ulib_ok)
  have "store_keeps (e_U sample_env) (rr_Objects res) objs'" by (rule run_groups_keeps [OF U wired_sample g])
  then obtain u' where u': "objs' ''a.yaml'' = Some u'"
    using store_keeps_in a by blast
  have "ident sample_ulib u' = ident sample_ulib sample_service"
    using rollout_works_on_rendered_objects [OF U wired_sample g u', of "\<lambda>d w. sample_tree" sample_renderer_files
        "\<lambda>s. Inr sample_service" "\<lambda>s. Inr sample_spec" ?r "''''" empty_world] run by auto
  then show ?thesis using run g u' by auto
qed

end
