(* ===== verification/DbTrigger.thy ===== *)
theory DbTrigger
  imports DbRows Trigger
begin

text \<open>
  The database trigger of trigger/database/database.go: it runs a query every ten seconds and starts
  a run for each row, or one for all rows. The runs are goroutines; \<open>db_reach\<close> has every
  interleaving of the checks with the ends of the runs. The maps are not locked by the code; a
  check is one step here.
\<close>

section \<open>State\<close>

record triggerConfig =
  tc_Name :: string
  tc_DatabaseName :: string
  tc_Query :: string
  tc_Key :: string
  tc_GroupsRowsToArray :: bool

text \<open>
  A run is started as soon as it is made. Runs are kept in the order in which they were started;
  a \<^verbatim>\<open>*TriggerRun\<close> is the index in that list. The inner maps list their entries in the order in
  which Go happens to visit them.
\<close>

record triggerRun =
  tr_key :: string
  tr_payload :: string
  tr_done :: bool

type_synonym activeTriggers = "string \<rightharpoonup> (string \<times> nat) list"

record db_trigger =
  dt_activeTriggers :: activeTriggers
  dt_runs :: "triggerRun list"

definition NewDbTrigger ::
  "'v fslib \<Rightarrow> (string \<Rightarrow> go_error + triggerConfig list) \<Rightarrow> string \<Rightarrow>
     ('v, triggerConfig list \<times> db_trigger) io" where
  "NewDbTrigger F decode configFile v =
     (case fs_ReadFile F configFile v of
        (Inl e, v1) \<Rightarrow> (Err (OpenConfigFile e), v1)
      | (Inr content, v1) \<Rightarrow>
          (case decode content of
             Inl e \<Rightarrow> (Err (ParseConfigFile e), v1)
           | Inr config \<Rightarrow>
               (Ok (config,
                  \<lparr>dt_activeTriggers = foldl (\<lambda>m c. m(tc_Name c \<mapsto> [])) Map.empty config, dt_runs = []\<rparr>), v1)))"

section \<open>Scheduling\<close>

definition ScheduleTriggerRun :: "string \<Rightarrow> string \<Rightarrow> string \<Rightarrow> (db_trigger, unit) io" where
  "ScheduleTriggerRun triggerName key payload t =
     (case dt_activeTriggers t key of
        Some _ \<Rightarrow> (Ok (), t)
      | None \<Rightarrow>
          (case dt_activeTriggers t triggerName of
             None \<Rightarrow> (Panic NilMapAssignment, t)
           | Some inner \<Rightarrow>
               (Ok (), t\<lparr>dt_activeTriggers :=
                   (dt_activeTriggers t)(triggerName \<mapsto> AList.update key (length (dt_runs t)) inner),
                 dt_runs := dt_runs t @ [\<lparr>tr_key = key, tr_payload = payload, tr_done = False\<rparr>]\<rparr>)))"

text \<open>\<^verbatim>\<open>fmt.Sprintf("%x", key)\<close> on bytes: two lower-case digits for each.\<close>

definition hex_digit :: "nat \<Rightarrow> char" where
  "hex_digit n = char_of (if n < 10 then 48 + n else 87 + n)"

definition hex_bytes :: "string \<Rightarrow> string" where
  "hex_bytes bs = concat (map (\<lambda>b. [hex_digit (of_char b div 16), hex_digit (of_char b mod 16)]) bs)"

fun key_text :: "dbval \<Rightarrow> string" where
  "key_text (DbString s) = s"
| "key_text (DbBytes bs) = hex_bytes bs"
| "key_text (DbOther s j) = s"

fun trigger_rows ::
  "'v txlib \<Rightarrow> triggerConfig \<Rightarrow> string list \<Rightarrow> (go_error + dbval list) list \<Rightarrow> row list \<Rightarrow>
     (db_trigger, row list) io" where
  "trigger_rows X c cols [] rowsArray t = (Ok rowsArray, t)"
| "trigger_rows X c cols (Inl e # rs) rowsArray t = (Err e, t)"
| "trigger_rows X c cols (Inr vs # rs) rowsArray t =
     andThen (scan_row cols vs [], t) (\<lambda>row t1.
       case map_of row (tc_Key c) of
         None \<Rightarrow> (Err (KeyColumnNotInResult (tc_Key c)), t1)
       | Some key \<Rightarrow>
           if \<not> tc_GroupsRowsToArray c then
             (case tx_MarshalRow X row of
                Inl e \<Rightarrow> (Err e, t1)
              | Inr payload \<Rightarrow>
                  andThen (ScheduleTriggerRun (tc_Name c) (key_text key) payload t1) (\<lambda>_ t2.
                    trigger_rows X c cols rs rowsArray t2))
           else trigger_rows X c cols rs (rowsArray @ [row]) t1)"

definition trigger_tx ::
  "'v txlib \<Rightarrow> pool \<Rightarrow> triggerConfig \<Rightarrow> (db_trigger \<times> 'v, unit) io" where
  "trigger_tx X p c st =
     (let (t, v) = st in
      case tx_Query X p (tc_Query c) v of
        (Inl e, v1) \<Rightarrow> (Err e, t, v1)
      | (Inr q, v1) \<Rightarrow>
          (let (x, t1) = trigger_rows X c (qr_Columns q) (qr_Rows q) [] t;
               (y, t2) = andThen (x, t1) (\<lambda>rowsArray t1.
                 if tc_GroupsRowsToArray c then
                   (case tx_MarshalRows X rowsArray of
                      Inl e \<Rightarrow> (Err e, t1)
                    | Inr payload \<Rightarrow> ScheduleTriggerRun (tc_Name c) '''' payload t1)
                 else (Ok (), t1))
           in (y, t2, v1)))"

definition cockroachTrigger ::
  "(db_trigger \<times> 'v) dblib \<Rightarrow> 'v txlib \<Rightarrow> pool \<Rightarrow> triggerConfig \<Rightarrow> (db_trigger \<times> 'v, unit) io" where
  "cockroachTrigger D X p c st = on_err ExecuteTxFailed (crdb_ExecuteTx D p (trigger_tx X p c) st)"

text \<open>
  The loop at the head of \<^verbatim>\<open>checkTrigger\<close>, which deletes from the outer map.
\<close>

fun purge_done :: "triggerRun list \<Rightarrow> (string \<times> nat) list \<Rightarrow> activeTriggers \<Rightarrow> activeTriggers" where
  "purge_done runs [] m = m"
| "purge_done runs ((key, i) # inner) m =
     purge_done runs inner (if tr_done (runs ! i) then m(key := None) else m)"

definition checkTrigger ::
  "(db_trigger \<times> 'v) dblib \<Rightarrow> 'v txlib \<Rightarrow> connections option \<Rightarrow> triggerConfig \<Rightarrow>
     (db_trigger \<times> 'v, unit) io" where
  "checkTrigger D X conns c st =
     (let (t, v) = st;
          inner = (case dt_activeTriggers t (tc_Name c) of None \<Rightarrow> [] | Some m \<Rightarrow> m);
          t1 = t\<lparr>dt_activeTriggers := purge_done (dt_runs t) inner (dt_activeTriggers t)\<rparr>
      in case conns of
           None \<Rightarrow> (Panic NilDereference, t1, v)
         | Some cs \<Rightarrow>
             (case cs (tc_DatabaseName c) of
                None \<Rightarrow> (Err (NoConnectionForDatabase (tc_DatabaseName c)), t1, v)
              | Some conn \<Rightarrow>
                  (if cn_Type conn = TypeCockroachDB
                   then cockroachTrigger D X (cn_CockroachClient conn) c (t1, v)
                   else (Err (UnsupportedDatabaseType (cn_Type conn)), t1, v))))"

text \<open>
  The loop of one trigger, over what its ticker and its context deliver; an error is logged.
\<close>

fun runTrigger ::
  "(db_trigger \<times> 'v) dblib \<Rightarrow> 'v txlib \<Rightarrow> connections option \<Rightarrow> triggerConfig \<Rightarrow>
     interval_event list \<Rightarrow> (db_trigger \<times> 'v, unit) io" where
  "runTrigger D X conns c [] st = (Diverge, st)"
| "runTrigger D X conns c (CtxDone # evs) st = (Ok (), st)"
| "runTrigger D X conns c (Tick # evs) st =
     (let (x, st1) = checkTrigger D X conns c st in
      case x of
        Panic p \<Rightarrow> (Panic p, st1)
      | Diverge \<Rightarrow> (Diverge, st1)
      | _ \<Rightarrow> runTrigger D X conns c evs st1)"

text \<open>
  \<^verbatim>\<open>Run\<close> gives each configured trigger its own actor in a group of \<^verbatim>\<open>oklog/run\<close>, which is the
  parameter \<open>rungroup\<close>.
\<close>

definition TriggerRunner_Run ::
  "((db_trigger \<times> 'v, unit) io list \<Rightarrow> (db_trigger \<times> 'v, unit) io) \<Rightarrow>
     (db_trigger \<times> 'v) dblib \<Rightarrow> 'v txlib \<Rightarrow> connections option \<Rightarrow> triggerConfig list \<Rightarrow>
     (triggerConfig \<Rightarrow> interval_event list) \<Rightarrow> (db_trigger \<times> 'v, unit) io" where
  "TriggerRunner_Run rungroup D X conns config events st =
     rungroup (map (\<lambda>c. runTrigger D X conns c (events c)) config) st"

text \<open>
  The goroutine of a run executes the registered executions with the payload as configuration and
  without feedback, then marks the run as done, whatever the result.
\<close>

definition TriggerRun_execute ::
  "'s executionRegister \<Rightarrow> triggerRun \<Rightarrow> 's \<Rightarrow> unit outcome \<times> 's" where
  "TriggerRun_execute es r s =
     (let (x, _, s1) = Register_Execute es (Some \<lparr>cf_RawConfig = tr_payload r, cf_Feedback = None\<rparr>) s
      in (x, s1))"

definition set_done :: "nat \<Rightarrow> db_trigger \<Rightarrow> db_trigger" where
  "set_done i t = t\<lparr>dt_runs := (dt_runs t)[i := (dt_runs t ! i)\<lparr>tr_done := True\<rparr>]\<rparr>"

section \<open>Reachable states\<close>

text \<open>
  The checks of the configured triggers and the ends of runs, in any order. Of a transaction it is
  assumed that it changes the variables of its function only by running it, any number of times,
  and that it panics only when the function does.
\<close>

definition tx_law :: "(db_trigger \<times> 'v) dblib \<Rightarrow> bool" where
  "tx_law D \<longleftrightarrow>
     (\<forall>p f t v P. P t \<longrightarrow>
        (\<forall>t v. P t \<longrightarrow> P (fst (snd (f (t, v)))) \<and> (\<forall>q. fst (f (t, v)) \<noteq> Panic q)) \<longrightarrow>
        P (fst (snd (dl_ExecuteTx D p f (t, v)))) \<and> (\<forall>q. fst (dl_ExecuteTx D p f (t, v)) \<noteq> Panic q)) \<and>
     (\<forall>p l t v. fst (dl_Observe D p l (t, v)) = t)"

text \<open>A row that pgx gives has a value for each column.\<close>

definition rows_law :: "'v txlib \<Rightarrow> bool" where
  "rows_law X \<longleftrightarrow>
     (\<forall>p s v q v'. tx_Query X p s v = (Inr q, v') \<longrightarrow>
        (\<forall>vs. Inr vs \<in> set (qr_Rows q) \<longrightarrow> length vs = length (qr_Columns q)))"

inductive db_reach ::
  "(db_trigger \<times> 'v) dblib \<Rightarrow> 'v txlib \<Rightarrow> connections option \<Rightarrow> triggerConfig list \<Rightarrow> db_trigger \<Rightarrow> bool"
  for D X conns config where
  db_start: "NewDbTrigger (F :: 'v fslib) (\<lambda>s. Inr config) path v = (Ok (config, t), v') \<Longrightarrow> db_reach D X conns config t"
| db_check: "db_reach D X conns config t \<Longrightarrow> c \<in> set config \<Longrightarrow>
    checkTrigger D X conns c (t, v) = (x, t', v') \<Longrightarrow> db_reach D X conns config t'"
| db_run_ends: "db_reach D X conns config t \<Longrightarrow> i < length (dt_runs t) \<Longrightarrow>
    db_reach D X conns config (set_done i t)"

section \<open>The invariant\<close>

text \<open>
  The outer map has exactly the names of the configured triggers, no inner map has such a name as
  key, and the entries of the inner maps are runs. \<open>db_keeps\<close>: a change of state under which the
  outer names stay and the runs only grow.
\<close>

definition db_inv :: "string set \<Rightarrow> db_trigger \<Rightarrow> bool" where
  "db_inv names t \<longleftrightarrow> dom (dt_activeTriggers t) = names \<and>
     (\<forall>n inner k i. dt_activeTriggers t n = Some inner \<longrightarrow> (k, i) \<in> set inner \<longrightarrow>
        k \<notin> names \<and> i < length (dt_runs t))"

lemma db_invD:
  assumes "db_inv names t" "dt_activeTriggers t n = Some inner" "(k, i) \<in> set inner"
  shows "k \<notin> names" "i < length (dt_runs t)"
  using assms unfolding db_inv_def by blast+

lemma db_inv_dom: "db_inv names t \<Longrightarrow> dt_activeTriggers t n = None \<longleftrightarrow> n \<notin> names"
  by (auto simp: db_inv_def dom_def)

lemma alist_update_in: "(k', i') \<in> set (AList.update k i xs) \<Longrightarrow> (k', i') = (k, i) \<or> (k', i') \<in> set xs"
  by (induction xs) (auto split: if_splits)

lemma ScheduleTriggerRun_inv:
  assumes inv: "db_inv names t" and n: "n \<in> names"
  shows "ScheduleTriggerRun n k p t = (x, t') \<Longrightarrow> x = Ok () \<and> db_inv names t' \<and>
    dt_runs t' = dt_runs t @ (if k \<in> names then [] else [\<lparr>tr_key = k, tr_payload = p, tr_done = False\<rparr>])"
proof -
  assume run: "ScheduleTriggerRun n k p t = (x, t')"
  obtain inner where inner: "dt_activeTriggers t n = Some inner" using inv n by (auto simp: db_inv_def dom_def)
  show ?thesis
  proof (cases "k \<in> names")
    case True
    then obtain m where "dt_activeTriggers t k = Some m" using inv by (auto simp: db_inv_def dom_def)
    then show ?thesis using run inv True by (simp add: ScheduleTriggerRun_def)
  next
    case False
    then have none: "dt_activeTriggers t k = None" using inv by (auto simp: db_inv_def dom_def)
    let ?r = "\<lparr>tr_key = k, tr_payload = p, tr_done = False\<rparr>"
    let ?inner = "AList.update k (length (dt_runs t)) inner"
    have t': "x = Ok ()" "dt_activeTriggers t' = (dt_activeTriggers t)(n \<mapsto> ?inner)"
      "dt_runs t' = dt_runs t @ [?r]"
      using run by (auto simp: ScheduleTriggerRun_def none inner)
    have in_inner: "k' \<notin> names \<and> i < Suc (length (dt_runs t))" if "(k', i) \<in> set ?inner" for k' i
      using alist_update_in [OF that] False db_invD [OF inv inner, of k' i] by (auto simp: less_Suc_eq)
    have in_other: "k' \<notin> names \<and> i < Suc (length (dt_runs t))"
      if "dt_activeTriggers t m = Some inner'" "(k', i) \<in> set inner'" for m inner' k' i
      using db_invD [OF inv that] by simp
    have "k' \<notin> names \<and> i < Suc (length (dt_runs t))"
      if "dt_activeTriggers t' m = Some inner'" "(k', i) \<in> set inner'" for m inner' k' i
    proof (cases "m = n")
      case True
      then show ?thesis using that in_inner by (simp add: t'(2))
    next
      case False
      then show ?thesis using that in_other by (simp add: t'(2))
    qed
    moreover have "dom (dt_activeTriggers t') = names"
      using inv n by (auto simp: t'(2) db_inv_def)
    ultimately have "db_inv names t'" unfolding db_inv_def t'(3) length_append by simp
    then show ?thesis using t' False by simp
  qed
qed

text \<open>The runs that the rows of a result start, in order, up to the first row that fails.\<close>

definition new_run :: "string \<Rightarrow> string \<Rightarrow> triggerRun" where
  "new_run k p = \<lparr>tr_key = k, tr_payload = p, tr_done = False\<rparr>"

fun runs_of ::
  "string set \<Rightarrow> 'v txlib \<Rightarrow> triggerConfig \<Rightarrow> string list \<Rightarrow> (go_error + dbval list) list \<Rightarrow> triggerRun list" where
  "runs_of names X c cols [] = []"
| "runs_of names X c cols (Inl e # rs) = []"
| "runs_of names X c cols (Inr vs # rs) =
     (case scan_row cols vs [] of
        Ok row \<Rightarrow>
          (case map_of row (tc_Key c) of
             None \<Rightarrow> []
           | Some key \<Rightarrow>
               (case tx_MarshalRow X row of
                  Inl e \<Rightarrow> []
                | Inr payload \<Rightarrow>
                    (if key_text key \<in> names then [] else [new_run (key_text key) payload]) @
                    runs_of names X c cols rs))
      | _ \<Rightarrow> [])"

definition shaped :: "string list \<Rightarrow> (go_error + dbval list) list \<Rightarrow> bool" where
  "shaped cols rs \<longleftrightarrow> (\<forall>vs. Inr vs \<in> set rs \<longrightarrow> length vs = length cols)"

lemma trigger_rows_inv:
  assumes "db_inv names t" "tc_Name c \<in> names" "shaped cols rs"
    and "trigger_rows X c cols rs acc t = (x, t')"
  shows "(\<forall>q. x \<noteq> Panic q) \<and> db_inv names t' \<and>
    (if tc_GroupsRowsToArray c then t' = t
     else dt_runs t' = dt_runs t @ runs_of names X c cols rs)"
  using assms
proof (induction rs arbitrary: t acc)
  case (Cons r rs)
  have sh: "shaped cols rs" using Cons.prems(3) by (simp add: shaped_def)
  show ?case
  proof (cases r)
    case (Inr vs)
    have "length vs = length cols" using Cons.prems(3) Inr by (simp add: shaped_def)
    then obtain row where row: "scan_row cols vs [] = Ok row" using scan_row_Ok by blast
    show ?thesis
    proof (cases "map_of row (tc_Key c)")
      case (Some key)
      show ?thesis
      proof (cases "tc_GroupsRowsToArray c")
        case True
        then show ?thesis
          using Cons.IH [OF Cons.prems(1,2) sh, of "acc @ [row]"] Cons.prems(1,4) Inr row Some by auto
      next
        case False
        show ?thesis
        proof (cases "tx_MarshalRow X row")
          case (Inr payload)
          obtain y t1 where s: "ScheduleTriggerRun (tc_Name c) (key_text key) payload t = (y, t1)"
            by (rule prod.exhaust)
          note t1 = ScheduleTriggerRun_inv [OF Cons.prems(1,2) s]
          have "trigger_rows X c cols rs acc t1 = (x, t')"
            using Cons.prems(4) \<open>r = Inr vs\<close> row Some False Inr s t1 by simp
          from Cons.IH [OF _ Cons.prems(2) sh this] t1 show ?thesis
            using \<open>r = Inr vs\<close> row Some False Inr by (simp add: new_run_def)
        qed (use Cons.prems Inr row Some False in auto)
      qed
    qed (use Cons.prems Inr row in auto)
  qed (use Cons.prems in auto)
qed auto

text \<open>
  The runs of one evaluation of the query: those of the rows, or the one for all rows. The latter
  does not come about when a row has no key or cannot be marshalled.
\<close>

lemma trigger_tx_inv:
  assumes inv: "db_inv names t" and c: "tc_Name c \<in> names" and rl: "rows_law X"
    and run: "trigger_tx X p c (t, v) = (x, (t', v'))"
  shows "(\<forall>q. x \<noteq> Panic q) \<and> db_inv names t'"
proof -
  obtain y v1 where q: "tx_Query X p (tc_Query c) v = (y, v1)" by (rule prod.exhaust)
  show ?thesis
  proof (cases y)
    case (Inr q')
    obtain z t1 where z: "trigger_rows X c (qr_Columns q') (qr_Rows q') [] t = (z, t1)" by (rule prod.exhaust)
    have "shaped (qr_Columns q') (qr_Rows q')"
      using rl q Inr unfolding rows_law_def shaped_def by blast
    note t1 = trigger_rows_inv [OF inv c this z]
    show ?thesis
      using run q Inr z t1 ScheduleTriggerRun_inv [OF conjunct1 [OF conjunct2 [OF t1]] c]
      by (cases z) (auto simp: trigger_tx_def split: if_splits sum.splits prod.splits)
  qed (use run q inv in \<open>auto simp: trigger_tx_def\<close>)
qed

lemma cockroachTrigger_inv:
  assumes D: "tx_law D" and inv: "db_inv names t" and c: "tc_Name c \<in> names" and rl: "rows_law X"
    and run: "cockroachTrigger D X p c (t, v) = (x, (t', v'))"
  shows "(\<forall>q. x \<noteq> Panic q) \<and> db_inv names t'"
proof -
  have tx: "db_inv names (fst (snd (dl_ExecuteTx D p (trigger_tx X p c) (t, v)))) \<and>
      (\<forall>q. fst (dl_ExecuteTx D p (trigger_tx X p c) (t, v)) \<noteq> Panic q)"
  proof (rule conjunct1 [OF D [unfolded tx_law_def], rule_format])
    show "db_inv names t" by (rule inv)
    show "db_inv names (fst (snd (trigger_tx X p c (t, v)))) \<and>
        (\<forall>q. fst (trigger_tx X p c (t, v)) \<noteq> Panic q)"
      if "db_inv names t" for t v
      using trigger_tx_inv [OF that c rl, of p v] by (metis prod.collapse)
  qed
  obtain y t1 v1 where e: "dl_ExecuteTx D p (trigger_tx X p c) (t, v) = (y, t1, v1)" by (rule prod_cases3)
  have ob: "fst (dl_Observe D p l (t1, v1)) = t1" for l using D by (simp add: tx_law_def)
  show ?thesis
    using run tx ob [of "''success''"] ob [of "''error''"] e
    by (cases y) (auto simp: cockroachTrigger_def crdb_ExecuteTx_def)
qed

text \<open>The purge deletes keys that the outer map does not have.\<close>

lemma purge_done_noop: "(\<And>k i. (k, i) \<in> set inner \<Longrightarrow> m k = None) \<Longrightarrow> purge_done runs inner m = m"
proof (induction inner)
  case (Cons e inner)
  obtain k i where e: "e = (k, i)" by (rule prod.exhaust)
  have "m k = None" using Cons.prems [of k i] by (simp add: e)
  then have "m(k := None) = m" by (simp add: fun_upd_idem)
  moreover have "purge_done runs inner m = m"
    by (rule Cons.IH) (use Cons.prems in \<open>auto intro: Cons.prems\<close>)
  ultimately show ?case by (simp add: e)
qed simp

lemma purge_done_inv:
  assumes "db_inv names t" "dt_activeTriggers t n = Some inner"
  shows "purge_done (dt_runs t) inner (dt_activeTriggers t) = dt_activeTriggers t"
  using assms db_invD(1) db_inv_dom by (intro purge_done_noop) blast

lemma checkTrigger_purged:
  assumes "db_inv names t"
  shows "checkTrigger D X conns c (t, v) =
    (case conns of
       None \<Rightarrow> (Panic NilDereference, t, v)
     | Some cs \<Rightarrow>
         (case cs (tc_DatabaseName c) of
            None \<Rightarrow> (Err (NoConnectionForDatabase (tc_DatabaseName c)), t, v)
          | Some conn \<Rightarrow>
              (if cn_Type conn = TypeCockroachDB
               then cockroachTrigger D X (cn_CockroachClient conn) c (t, v)
               else (Err (UnsupportedDatabaseType (cn_Type conn)), t, v))))"
proof -
  have "purge_done (dt_runs t) (case dt_activeTriggers t (tc_Name c) of None \<Rightarrow> [] | Some m \<Rightarrow> m)
      (dt_activeTriggers t) = dt_activeTriggers t"
    using purge_done_inv [OF assms] by (cases "dt_activeTriggers t (tc_Name c)") auto
  then show ?thesis by (simp add: checkTrigger_def)
qed

lemma checkTrigger_inv:
  assumes D: "tx_law D" and inv: "db_inv names t" and c: "tc_Name c \<in> names" and rl: "rows_law X"
    and run: "checkTrigger D X conns c (t, v) = (x, t', v')"
  shows "db_inv names t' \<and> (conns \<noteq> None \<longrightarrow> (\<forall>q. x \<noteq> Panic q))"
  using run cockroachTrigger_inv [OF D inv c rl] inv
  by (auto simp: checkTrigger_purged [OF inv] split: option.splits if_splits)

lemma db_inv_start:
  assumes "NewDbTrigger F (\<lambda>s. Inr config) path v = (Ok (config, t), v')"
  shows "db_inv (tc_Name ` set config) t"
proof -
  let ?start = "\<lambda>m. foldl (\<lambda>m c. m(tc_Name c \<mapsto> [])) m config"
  have "dom (?start m) = dom m \<union> tc_Name ` set config \<and>
      (\<forall>n inner. ?start m n = Some inner \<longrightarrow> inner = [] \<or> m n = Some inner)" for m :: activeTriggers
  proof (induction config arbitrary: m)
    case (Cons c config)
    from Cons.IH [of "m(tc_Name c \<mapsto> [])"] show ?case by (auto split: if_splits)
  qed simp
  note start = this [of Map.empty]
  have t: "dt_activeTriggers t = ?start Map.empty"
    using assms by (auto simp: NewDbTrigger_def split: sum.splits prod.splits)
  have "inner = []" if "dt_activeTriggers t n = Some inner" for n inner
    using start that unfolding t by fastforce
  moreover have "dom (dt_activeTriggers t) = tc_Name ` set config" using start unfolding t by simp
  ultimately show ?thesis unfolding db_inv_def by fastforce
qed

lemma db_inv_set_done: "db_inv names t \<Longrightarrow> db_inv names (set_done i t)"
  by (simp add: db_inv_def set_done_def)

lemma db_reach_inv:
  assumes "tx_law D" "rows_law X" "db_reach D X conns config t"
  shows "db_inv (tc_Name ` set config) t"
  using assms(3)
proof (induction rule: db_reach.induct)
  case (db_check t c v x t' v')
  then show ?case using checkTrigger_inv [OF assms(1) _ _ assms(2)] by blast
qed (auto intro: db_inv_start db_inv_set_done)

section \<open>What a check may change in the table\<close>

text \<open>
  \<open>table_grows t t'\<close>: no entry of the table is gone; an entry points to the run it pointed to, or to a
  run that was started since; and the runs are those that were there, and new ones.
\<close>

definition keeps_entries :: "nat \<Rightarrow> (string \<times> nat) list \<Rightarrow> (string \<times> nat) list \<Rightarrow> bool" where
  "keeps_entries m inner inner' \<longleftrightarrow>
     (\<forall>k i. map_of inner k = Some i \<longrightarrow> (\<exists>j. map_of inner' k = Some j \<and> (j = i \<or> m \<le> j)))"

definition table_grows :: "db_trigger \<Rightarrow> db_trigger \<Rightarrow> bool" where
  "table_grows t t' \<longleftrightarrow>
     (\<exists>rs. dt_runs t' = dt_runs t @ rs) \<and>
     (\<forall>n inner. dt_activeTriggers t n = Some inner \<longrightarrow>
        (\<exists>inner'. dt_activeTriggers t' n = Some inner' \<and> keeps_entries (length (dt_runs t)) inner inner'))"

lemma keeps_entries_refl: "keeps_entries m inner inner"
  by (simp add: keeps_entries_def)

lemma keeps_entries_trans: "keeps_entries m a b \<Longrightarrow> keeps_entries m' b c \<Longrightarrow> m \<le> m' \<Longrightarrow> keeps_entries m a c"
  unfolding keeps_entries_def
proof (intro allI impI)
  fix k i
  assume ab: "\<forall>k i. map_of a k = Some i \<longrightarrow> (\<exists>j. map_of b k = Some j \<and> (j = i \<or> m \<le> j))"
    and bc: "\<forall>k i. map_of b k = Some i \<longrightarrow> (\<exists>j. map_of c k = Some j \<and> (j = i \<or> m' \<le> j))"
    and m: "m \<le> m'" and k: "map_of a k = Some i"
  obtain j where j: "map_of b k = Some j" "j = i \<or> m \<le> j" using ab k by blast
  obtain l where "map_of c k = Some l" "l = j \<or> m' \<le> l" using bc j(1) by blast
  then show "\<exists>j. map_of c k = Some j \<and> (j = i \<or> m \<le> j)" using j(2) m by auto
qed

lemma table_grows_refl: "table_grows t t"
  unfolding table_grows_def using keeps_entries_refl by auto

lemma table_grows_runs: "table_grows t t' \<Longrightarrow> \<exists>rs. dt_runs t' = dt_runs t @ rs"
  by (simp add: table_grows_def)

lemma table_grows_inner:
  "table_grows t t' \<Longrightarrow> dt_activeTriggers t n = Some inner \<Longrightarrow>
   \<exists>inner'. dt_activeTriggers t' n = Some inner' \<and> keeps_entries (length (dt_runs t)) inner inner'"
  by (simp add: table_grows_def)

lemma table_grows_trans:
  assumes ab: "table_grows a b" and bc: "table_grows b c"
  shows "table_grows a c"
proof -
  obtain rs rs' where rs: "dt_runs b = dt_runs a @ rs" "dt_runs c = dt_runs b @ rs'"
    using ab bc by (auto dest!: table_grows_runs)
  have "\<exists>inner'. dt_activeTriggers c n = Some inner' \<and> keeps_entries (length (dt_runs a)) inner inner'"
    if n: "dt_activeTriggers a n = Some inner" for n inner
  proof -
    obtain ib where b: "dt_activeTriggers b n = Some ib" "keeps_entries (length (dt_runs a)) inner ib"
      using table_grows_inner [OF ab n] by blast
    obtain ic where "dt_activeTriggers c n = Some ic" "keeps_entries (length (dt_runs b)) ib ic"
      using table_grows_inner [OF bc b(1)] by blast
    then show ?thesis using keeps_entries_trans [OF b(2)] rs by auto
  qed
  then show ?thesis using rs by (simp add: table_grows_def)
qed

lemma ScheduleTriggerRun_grows:
  assumes "ScheduleTriggerRun n k p t = (x, t')"
  shows "table_grows t t'"
proof (cases "dt_activeTriggers t k")
  case None
  show ?thesis
  proof (cases "dt_activeTriggers t n")
    case (Some inner)
    then show ?thesis
      using assms None by (auto simp: ScheduleTriggerRun_def table_grows_def keeps_entries_def update_conv')
  qed (use assms None in \<open>simp add: ScheduleTriggerRun_def table_grows_refl\<close>)
qed (use assms in \<open>simp add: ScheduleTriggerRun_def table_grows_refl\<close>)

lemma trigger_rows_grows: "trigger_rows X c cols rs acc t = (x, t') \<Longrightarrow> table_grows t t'"
proof (induction rs arbitrary: t acc)
  case (Cons r rs)
  show ?case
  proof (cases r)
    case (Inr vs)
    show ?thesis
    proof (cases "\<exists>row key. scan_row cols vs [] = Ok row \<and> map_of row (tc_Key c) = Some key")
      case True
      then obtain row key where row: "scan_row cols vs [] = Ok row" "map_of row (tc_Key c) = Some key" by blast
      obtain y t1 where s: "ScheduleTriggerRun (tc_Name c) (key_text key) (projr (tx_MarshalRow X row)) t = (y, t1)"
        by (rule prod.exhaust)
      show ?thesis
        using Cons.prems Inr row s ScheduleTriggerRun_grows [OF s] Cons.IH table_grows_trans table_grows_refl
        by (cases "tx_MarshalRow X row"; cases y) (auto split: if_splits)
    next
      case False
      then show ?thesis using Cons.prems Inr
        by (cases "scan_row cols vs []") (auto simp: table_grows_refl split: option.splits)
    qed
  qed (use Cons.prems in \<open>simp add: table_grows_refl\<close>)
qed (simp add: table_grows_refl)

lemma trigger_tx_grows:
  assumes "trigger_tx X p c (t, v) = (x, (t', v'))"
  shows "table_grows t t'"
proof -
  obtain y v1 where q: "tx_Query X p (tc_Query c) v = (y, v1)" by (rule prod.exhaust)
  show ?thesis
  proof (cases y)
    case (Inr q')
    obtain z t1 where z: "trigger_rows X c (qr_Columns q') (qr_Rows q') [] t = (z, t1)" by (rule prod.exhaust)
    note g = trigger_rows_grows [OF z]
    have "table_grows t1 t'"
      using assms q Inr z ScheduleTriggerRun_grows table_grows_refl
      by (cases z) (auto simp: trigger_tx_def split: if_splits sum.splits prod.splits)
    with g show ?thesis by (rule table_grows_trans)
  qed (use assms q in \<open>simp add: trigger_tx_def table_grows_refl\<close>)
qed

lemma cockroachTrigger_grows:
  assumes D: "tx_law D" and inv: "db_inv names t" and c: "tc_Name c \<in> names" and rl: "rows_law X"
    and run: "cockroachTrigger D X p c (t, v) = (x, (t', v'))"
  shows "table_grows t t'"
proof -
  let ?P = "\<lambda>s. db_inv names s \<and> table_grows t s"
  have "?P (fst (snd (dl_ExecuteTx D p (trigger_tx X p c) (t, v)))) \<and>
      (\<forall>q. fst (dl_ExecuteTx D p (trigger_tx X p c) (t, v)) \<noteq> Panic q)"
  proof (rule conjunct1 [OF D [unfolded tx_law_def], rule_format])
    show "?P t" using inv table_grows_refl by blast
    show "?P (fst (snd (trigger_tx X p c (s, v)))) \<and> (\<forall>q. fst (trigger_tx X p c (s, v)) \<noteq> Panic q)"
      if "?P s" for s v
      using trigger_tx_inv [OF conjunct1 [OF that] c rl, of p v] trigger_tx_grows [of X p c s v] that
        table_grows_trans [of t s] by (metis prod.collapse)
  qed
  moreover obtain y t1 v1 where e: "dl_ExecuteTx D p (trigger_tx X p c) (t, v) = (y, t1, v1)" by (rule prod_cases3)
  moreover have ob: "fst (dl_Observe D p l (t1, v1)) = t1" for l using D by (simp add: tx_law_def)
  ultimately show ?thesis
    using run ob [of "''success''"] ob [of "''error''"]
    by (cases y) (auto simp: cockroachTrigger_def crdb_ExecuteTx_def)
qed

lemma checkTrigger_grows:
  assumes D: "tx_law D" and inv: "db_inv names t" and c: "tc_Name c \<in> names" and rl: "rows_law X"
    and run: "checkTrigger D X conns c (t, v) = (x, t', v')"
  shows "table_grows t t'"
  using run cockroachTrigger_grows [OF D inv c rl] table_grows_refl
  by (auto simp: checkTrigger_purged [OF inv] split: option.splits if_splits)

section \<open>Properties\<close>

text \<open>
  C30: In every reachable state the outer map has exactly the names of the configured triggers, so a
  check never assigns to a missing inner map. With a connections file no check panics; without one
  every check of a configured trigger dereferences the missing connections.
\<close>

theorem configured_triggers_stay:
  assumes "tx_law D" "rows_law X" "db_reach D X conns config t"
  shows "dom (dt_activeTriggers t) = tc_Name ` set config \<and>
    (\<forall>c \<in> set config. \<forall>cs v q. fst (checkTrigger D X (Some cs) c (t, v)) \<noteq> Panic q) \<and>
    (\<forall>c v. fst (checkTrigger D X None c (t, v)) = Panic NilDereference)"
proof -
  have inv: "db_inv (tc_Name ` set config) t" by (rule db_reach_inv [OF assms])
  have "fst (checkTrigger D X (Some cs) c (t, v)) \<noteq> Panic q" if "c \<in> set config" for c cs v q
    using checkTrigger_inv [OF assms(1) inv _ assms(2), of c "Some cs" v] that
    by (metis imageI option.distinct(1) prod.collapse)
  moreover have "fst (checkTrigger D X None c (t, v)) = Panic NilDereference" for c v
    by (simp add: checkTrigger_purged [OF inv])
  ultimately show ?thesis using inv by (auto simp: db_inv_def)
qed

text \<open>
  C29: A check removes no run from the table, also none that is done. The loop of \<^verbatim>\<open>checkTrigger\<close> that is to
  do so deletes from the outer map, which has none of the keys. After a check each key of the
  table is still there, with the same run, unless the check started a new run for the key, which then
  takes the place of the old one; the runs themselves go on as they were.
\<close>

theorem done_runs_are_never_removed:
  assumes "tx_law D" "rows_law X" "db_reach D X conns config t" "c \<in> set config"
    and n: "dt_activeTriggers t n = Some inner" and k: "map_of inner k = Some i"
    and run: "checkTrigger D X conns c (t, v) = (x, t', v')"
  shows "purge_done (dt_runs t) inner (dt_activeTriggers t) = dt_activeTriggers t \<and>
    (\<exists>rs. dt_runs t' = dt_runs t @ rs) \<and>
    (\<exists>inner' j. dt_activeTriggers t' n = Some inner' \<and> map_of inner' k = Some j \<and>
       (j = i \<or> length (dt_runs t) \<le> j \<and> j < length (dt_runs t')))"
proof -
  have inv: "db_inv (tc_Name ` set config) t" by (rule db_reach_inv [OF assms(1-3)])
  have inv': "db_inv (tc_Name ` set config) t'"
    using checkTrigger_inv [OF assms(1) inv _ assms(2) run] assms(4) by simp
  have g: "table_grows t t'" using checkTrigger_grows [OF assms(1) inv _ assms(2) run] assms(4) by simp
  obtain inner' j where j: "dt_activeTriggers t' n = Some inner'" "map_of inner' k = Some j"
    "j = i \<or> length (dt_runs t) \<le> j"
    using table_grows_inner [OF g n] k unfolding keeps_entries_def by blast
  have "j < length (dt_runs t')" using db_invD(2) [OF inv' j(1) map_of_SomeD [OF j(2)]] .
  then show ?thesis using purge_done_inv [OF inv n] table_grows_runs [OF g] j by blast
qed


text \<open>A trigger on one row, for the witnesses.\<close>

definition row_trigger :: triggerConfig where
  "row_trigger = \<lparr>tc_Name = ''t'', tc_DatabaseName = ''db'', tc_Query = ''SELECT'', tc_Key = ''id'',
     tc_GroupsRowsToArray = False\<rparr>"

definition row_state :: "nat \<Rightarrow> db_trigger" where
  "row_state n = \<lparr>dt_activeTriggers = [''t'' \<mapsto> if n = 0 then [] else [(''a'', n - 1)]],
     dt_runs = replicate n (new_run ''a'' ''idn'')\<rparr>"

definition row_files :: "nat fslib" where
  "row_files = \<lparr>fs_ReadFile = (\<lambda>f v. (Inr f, v))\<rparr>"

lemma row_tx_law: "tx_law sample_dead_dblib"
  by (simp add: tx_law_def sample_dead_dblib_def)


lemma row_rows_law: "rows_law sample_txlib"
  by (auto simp: rows_law_def sample_txlib_def)

lemma row_start: "db_reach sample_dead_dblib sample_txlib conns [row_trigger] (row_state 0)"
  by (rule db_start [where F = row_files and path = "''f''" and v = 0 and v' = 0])
    (simp add: NewDbTrigger_def row_files_def row_trigger_def row_state_def)

lemma row_check:
  "checkTrigger sample_dead_dblib sample_txlib (Some sample_conns) row_trigger (row_state 0, 0) =
     (Ok (), row_state 1, 0)"
  by (simp add: checkTrigger_def row_trigger_def row_state_def sample_conns_def TypeCockroachDB_def
      cockroachTrigger_def crdb_ExecuteTx_def sample_dead_dblib_def trigger_tx_def sample_txlib_def
      ScheduleTriggerRun_def new_run_def)

lemma row_checked: "db_reach sample_dead_dblib sample_txlib (Some sample_conns) [row_trigger] (row_state 1)"
  by (rule db_check [OF row_start _ row_check]) simp

theorem configured_triggers_stay_witness:
  "dom (dt_activeTriggers (row_state 1)) = {''t''}"
  using configured_triggers_stay [OF row_tx_law row_rows_law row_checked] by (simp add: row_trigger_def)

text \<open>A run that is done stays in the table until the next row with its key takes its place.\<close>

theorem done_runs_are_never_removed_witness:
  "\<exists>x t' v' inner' j. checkTrigger sample_dead_dblib sample_txlib (Some sample_conns) row_trigger
      (set_done 0 (row_state 1), 0) = (x, t', v') \<and>
    dt_activeTriggers t' ''t'' = Some inner' \<and> map_of inner' ''a'' = Some j"
proof -
  let ?t = "set_done 0 (row_state 1)"
  have r: "db_reach sample_dead_dblib sample_txlib (Some sample_conns) [row_trigger] ?t"
    by (rule db_run_ends [OF row_checked]) (simp add: row_state_def)
  have n: "dt_activeTriggers ?t ''t'' = Some [(''a'', 0)]" by (simp add: set_done_def row_state_def)
  have c: "row_trigger \<in> set [row_trigger]" by simp
  obtain x t' v' where run: "checkTrigger sample_dead_dblib sample_txlib (Some sample_conns) row_trigger (?t, 0) =
      (x, t', v')" by (rule prod_cases3)
  have k: "map_of [(''a'', 0)] ''a'' = Some (0 :: nat)" by simp
  from done_runs_are_never_removed [OF row_tx_law row_rows_law r c n k run] run show ?thesis by blast
qed


end
