(* ===== verification/Keys.thy ===== *)
theory Keys
  imports Duration
begin

text \<open>
  The transformation of keys of trigger/resource/handlers.go. The matching of a regular expression is
  a parameter; the expansion of a replacement, \<^verbatim>\<open>Regexp.ExpandString\<close>, is modelled for ASCII names.
\<close>

section \<open>Regular expressions\<close>

text \<open>
  A compiled expression: \<open>rx_find\<close> is \<^verbatim>\<open>FindStringSubmatchIndex\<close>, a pair of positions for each group,
  \<open>None\<close> when the group took no part; \<open>rx_names\<close> are the names of the groups, group 0 first.
\<close>

record regex =
  rx_find :: "string \<Rightarrow> (nat \<times> nat) option list option"
  rx_names :: "string list"

definition name_char :: "char \<Rightarrow> bool" where
  "name_char c \<longleftrightarrow> (let n = (of_char c :: nat) in
     is_digit c \<or> 65 \<le> n \<and> n \<le> 90 \<or> 97 \<le> n \<and> n \<le> 122 \<or> c = CHR ''_'')"

text \<open>The number that a name is, if it is one: digits, no leading zero, not too large.\<close>

fun group_number :: "nat \<Rightarrow> string \<Rightarrow> nat option" where
  "group_number n [] = Some n"
| "group_number n (c # s) =
     (if \<not> is_digit c \<or> n \<ge> 10 ^ 8 then None else group_number (n * 10 + digit_val c) s)"

definition name_number :: "string \<Rightarrow> nat option" where
  "name_number name =
     (if hd name = CHR ''0'' \<and> length name > 1 then None else group_number 0 name)"

text \<open>What follows a dollar sign: the name, and the rest of the template.\<close>

definition extract_name :: "string \<Rightarrow> (string \<times> string) option" where
  "extract_name s =
     (let brace = (s \<noteq> [] \<and> hd s = CHR ''{'');
          s = (if brace then tl s else s);
          name = takeWhile name_char s;
          rest = dropWhile name_char s
      in if name = [] then None
         else if brace then
           (if rest = [] \<or> hd rest \<noteq> CHR ''}'' then None else Some (name, tl rest))
         else Some (name, rest))"

definition group_text :: "string \<Rightarrow> (nat \<times> nat) option list \<Rightarrow> nat \<Rightarrow> string option" where
  "group_text src m i =
     (if i < length m then map_option (\<lambda>(a, b). take (b - a) (drop a src)) (m ! i) else None)"

definition text_or_empty :: "string option \<Rightarrow> string" where
  "text_or_empty o' = (case o' of None \<Rightarrow> '''' | Some s \<Rightarrow> s)"

definition named_group :: "regex \<Rightarrow> string \<Rightarrow> (nat \<times> nat) option list \<Rightarrow> string \<Rightarrow> string" where
  "named_group rx src m name =
     text_or_empty (Option.bind
       (find (\<lambda>i. rx_names rx ! i = name \<and> group_text src m i \<noteq> None) [0..<length (rx_names rx)])
       (group_text src m))"

lemma extract_name_shorter: "extract_name s = Some (name, rest) \<Longrightarrow> length rest < length s"
proof -
  assume e: "extract_name s = Some (name, rest)"
  have shorter: "length (dropWhile name_char x) < length x" if "takeWhile name_char x \<noteq> []" for x
    using that by (cases x) (auto simp: length_dropWhile_le le_imp_less_Suc split: if_splits)
  show ?thesis
    using e shorter [of s] shorter [of "tl s"]
    by (auto simp: extract_name_def Let_def split: if_splits)
qed

function ExpandString :: "regex \<Rightarrow> string \<Rightarrow> string \<Rightarrow> (nat \<times> nat) option list \<Rightarrow> string" where
  "ExpandString rx [] src m = []"
| "ExpandString rx (c # t) src m =
     (if c \<noteq> CHR ''$'' then c # ExpandString rx t src m
      else if t \<noteq> [] \<and> hd t = CHR ''$'' then CHR ''$'' # ExpandString rx (tl t) src m
      else (case extract_name t of
              None \<Rightarrow> CHR ''$'' # ExpandString rx t src m
            | Some (name, rest) \<Rightarrow>
                (case name_number name of
                   Some i \<Rightarrow> text_or_empty (group_text src m i)
                 | None \<Rightarrow> named_group rx src m name) @ ExpandString rx rest src m))"
  by pat_completeness auto
termination
  by (relation "measure (\<lambda>(rx, t, src, m). length t)") (auto dest: extract_name_shorter)

section \<open>Transforming keys\<close>

record keyTransformationConfig =
  kc_Action :: string
  kc_Regex :: string
  kc_Replacement :: string

record keyTransformation =
  kt_action :: string
  kt_regex :: regex
  kt_replacement :: string

definition KeyReplace :: string where
  "KeyReplace = ''replace''"

definition KeyDrop :: string where
  "KeyDrop = ''drop''"

definition KeyKeep :: string where
  "KeyKeep = ''keep''"

definition newKeyTransformation ::
  "(string \<Rightarrow> go_error + regex) \<Rightarrow> keyTransformationConfig \<Rightarrow> go_error + keyTransformation" where
  "newKeyTransformation compile c =
     (let actionString = (if kc_Action c = '''' then ''replace'' else kc_Action c);
          regexString = (if kc_Regex c = '''' then ''(.*)'' else kc_Regex c)
      in case compile regexString of
           Inl e \<Rightarrow> Inl (CompileRegex e)
         | Inr rx \<Rightarrow>
             Inr \<lparr>kt_action = actionString, kt_regex = rx,
                  kt_replacement = (if kc_Replacement c = '''' then ''$1'' else kc_Replacement c)\<rparr>)"

definition transform :: "keyTransformation \<Rightarrow> string \<Rightarrow> string" where
  "transform t key =
     (if kt_action t = KeyReplace then
        (case rx_find (kt_regex t) key of
           None \<Rightarrow> key
         | Some indices \<Rightarrow> ExpandString (kt_regex t) (kt_replacement t) key indices)
      else if kt_action t = KeyDrop then
        (if rx_find (kt_regex t) key = None then '''' else key)
      else if kt_action t = KeyKeep then
        (if rx_find (kt_regex t) key \<noteq> None then key else '''')
      else key)"

fun transform_all :: "keyTransformation list \<Rightarrow> string \<Rightarrow> string" where
  "transform_all [] cur = cur"
| "transform_all (t # ts) cur = transform_all ts (transform t cur)"

fun new_transformations ::
  "(string \<Rightarrow> go_error + regex) \<Rightarrow> keyTransformationConfig list \<Rightarrow> go_error + keyTransformation list" where
  "new_transformations compile [] = Inr []"
| "new_transformations compile (c # cs) =
     (case newKeyTransformation compile c of
        Inl e \<Rightarrow> Inl e
      | Inr t \<Rightarrow>
          (case new_transformations compile cs of Inl e \<Rightarrow> Inl e | Inr ts \<Rightarrow> Inr (t # ts)))"

section \<open>Properties\<close>

lemma newKeyTransformation_Inr:
  assumes "newKeyTransformation compile c = Inr t"
  shows "kt_action t = (if kc_Action c = '''' then ''replace'' else kc_Action c)"
    and "compile (if kc_Regex c = '''' then ''(.*)'' else kc_Regex c) = Inr (kt_regex t)"
    and "kt_replacement t = (if kc_Replacement c = '''' then ''$1'' else kc_Replacement c)"
  using assms by (auto simp: newKeyTransformation_def Let_def split: sum.splits)

lemma transform_drop: "kt_action t = KeyDrop \<or> kt_action t = KeyKeep \<Longrightarrow>
    transform t key = (if rx_find (kt_regex t) key = None then '''' else key)"
  by (auto simp: transform_def KeyReplace_def KeyDrop_def KeyKeep_def)

lemma transform_all_append: "transform_all (ts @ us) key = transform_all us (transform_all ts key)"
  by (induction ts arbitrary: key) simp_all

text \<open>
  The actions \<open>drop\<close> and \<open>keep\<close> do the same: both leave a key that matches and empty one that does
  not, so that \<open>drop\<close> drops exactly the keys that do not match.
\<close>

theorem drop_is_keep:
  assumes "newKeyTransformation compile c = Inr t" "newKeyTransformation compile d = Inr u"
    and "kc_Action c = KeyDrop" "kc_Action d = KeyKeep" "kc_Regex c = kc_Regex d"
  shows "transform t key = transform u key \<and>
    (transform t key = '''' \<longleftrightarrow> key = '''' \<or> rx_find (kt_regex t) key = None)"
proof -
  have "kt_action t = KeyDrop" "kt_action u = KeyKeep"
    using newKeyTransformation_Inr(1) [OF assms(1)] newKeyTransformation_Inr(1) [OF assms(2)] assms(3,4)
    by (simp_all add: KeyDrop_def KeyKeep_def)
  moreover have "kt_regex t = kt_regex u"
    using newKeyTransformation_Inr(2) [OF assms(1)] newKeyTransformation_Inr(2) [OF assms(2)] 
    by (metis assms(5) sum.inject(2))
  ultimately show ?thesis by (auto simp: transform_drop)
qed

text \<open>
  A transformation with nothing configured leaves every key as it is: the expression \<open>(.*)\<close> finds
  the whole key as its first group, and the replacement \<open>$1\<close> puts it back. Hypothesis: what \<open>(.*)\<close>
  finds in a key (which has no line break).
\<close>

theorem default_transformation_is_identity:
  assumes "newKeyTransformation compile \<lparr>kc_Action = '''', kc_Regex = '''', kc_Replacement = ''''\<rparr> = Inr t"
    and "rx_find (kt_regex t) key = Some [Some (0, length key), Some (0, length key)]"
  shows "transform t key = key"
proof -
  note t = newKeyTransformation_Inr [OF assms(1), simplified]
  show ?thesis
    using assms(2)
    by (simp add: transform_def t(1,3) KeyReplace_def extract_name_def name_char_def
      is_digit_def name_number_def digit_val_def group_text_def text_or_empty_def)
qed

text \<open>An expression library with the one expression that matches everything, for the witnesses.\<close>

definition sample_compile :: "string \<Rightarrow> go_error + regex" where
  "sample_compile s =
     Inr \<lparr>rx_find = (\<lambda>k. if s = ''(.*)'' \<or> take (length s) k = s
            then Some [Some (0, length k), Some (0, length k)] else None), rx_names = [[], []]\<rparr>"

theorem drop_is_keep_witness:
  "\<exists>t. newKeyTransformation sample_compile
      \<lparr>kc_Action = ''drop'', kc_Regex = ''ns/'', kc_Replacement = ''''\<rparr> = Inr t \<and>
    transform t ''ns/web'' \<noteq> '''' \<and> transform t ''other/web'' = ''''"
proof -
  let ?c = "\<lparr>kc_Action = ''drop'', kc_Regex = ''ns/'', kc_Replacement = ''''\<rparr>"
  let ?d = "\<lparr>kc_Action = ''keep'', kc_Regex = ''ns/'', kc_Replacement = ''''\<rparr>"
  obtain t u where tu: "newKeyTransformation sample_compile ?c = Inr t" "newKeyTransformation sample_compile ?d = Inr u"
    by (simp add: newKeyTransformation_def sample_compile_def)
  have "Inr (kt_regex t) = sample_compile ''ns/''"
    using newKeyTransformation_Inr(2) [OF tu(1)] by simp
  then have rx: "kt_regex t = projr (sample_compile ''ns/'')" by (metis sum.sel(2))
  have none: "rx_find (kt_regex t) ''other/web'' = None" and some: "rx_find (kt_regex t) ''ns/web'' \<noteq> None"
    by (simp_all add: rx sample_compile_def)
  note d = drop_is_keep [OF tu]
  have "transform t ''other/web'' = ''''"
    using d [of "''other/web''"] none by (auto simp: KeyDrop_def KeyKeep_def)
  moreover have "transform t ''ns/web'' \<noteq> ''''"
    using d [of "''ns/web''"] some by (auto simp: KeyDrop_def KeyKeep_def)
  ultimately show ?thesis using tu(1) by blast
qed

theorem default_transformation_is_identity_witness:
  "\<exists>t. newKeyTransformation sample_compile \<lparr>kc_Action = '''', kc_Regex = '''', kc_Replacement = ''''\<rparr> = Inr t \<and>
    transform t ''ns/web'' = ''ns/web''"
proof -
  obtain t where t: "newKeyTransformation sample_compile
      \<lparr>kc_Action = '''', kc_Regex = '''', kc_Replacement = ''''\<rparr> = Inr t"
    by (simp add: newKeyTransformation_def sample_compile_def)
  have "rx_find (kt_regex t) ''ns/web'' = Some [Some (0, length ''ns/web''), Some (0, length ''ns/web'')]"
    using t by (auto simp: newKeyTransformation_def sample_compile_def)
  from default_transformation_is_identity [OF t this] t show ?thesis by blast
qed

end
