(* ===== verification/ResTrigger.thy ===== *)
theory ResTrigger
  imports Keys Trigger
begin

text \<open>
  The resource trigger of trigger/resource: the event handlers (handlers.go), the informers, the
  work queue and the synchronisation of a key (resource.go). Informers and the work queue are
  parameters.
\<close>

section \<open>The work queue and the handlers\<close>

text \<open>
  The work queue of client-go, over its state \<open>'q\<close>. \<open>wq_Get\<close> gives nothing when the queue has been
  shut down. \<open>il_keyFunc\<close> is \<^verbatim>\<open>cache.DeletionHandlingMetaNamespaceKeyFunc\<close>, \<open>il_version\<close> the
  resource version that the accessor of \<^verbatim>\<open>meta\<close> finds, if it finds one.
\<close>

record 'q workqueue =
  wq_Add :: "string \<Rightarrow> 'q \<Rightarrow> 'q"
  wq_Get :: "'q \<Rightarrow> string option \<times> 'q"
  wq_Done :: "string \<Rightarrow> 'q \<Rightarrow> 'q"
  wq_Forget :: "string \<Rightarrow> 'q \<Rightarrow> 'q"
  wq_AddRateLimited :: "string \<Rightarrow> 'q \<Rightarrow> 'q"
  wq_ShutDown :: "'q \<Rightarrow> 'q"

record informer_lib =
  il_keyFunc :: "obj \<Rightarrow> string option"
  il_version :: "obj \<Rightarrow> string option"

text \<open>What is given to \<^verbatim>\<open>enqueue\<close>: nil, a key, or an object.\<close>

datatype enqueued = EnqueueNil | EnqueueKey string | EnqueueObject obj

definition enqueue :: "informer_lib \<Rightarrow> 'q workqueue \<Rightarrow> enqueued \<Rightarrow> 'q \<Rightarrow> 'q" where
  "enqueue I W x q =
     (case x of
        EnqueueNil \<Rightarrow> q
      | EnqueueKey key \<Rightarrow> wq_Add W key q
      | EnqueueObject u \<Rightarrow> (case il_keyFunc I u of None \<Rightarrow> q | Some key \<Rightarrow> wq_Add W key q))"

text \<open>The end that the three handlers share: transform the key, and enqueue it unless it is empty.\<close>

definition handle_key :: "informer_lib \<Rightarrow> 'q workqueue \<Rightarrow> keyTransformation list \<Rightarrow> string \<Rightarrow> 'q \<Rightarrow> 'q" where
  "handle_key I W ts key q =
     (let newKey = transform_all ts key in
      if newKey = '''' then q else enqueue I W (EnqueueKey newKey) q)"

definition OnAdd :: "informer_lib \<Rightarrow> 'q workqueue \<Rightarrow> keyTransformation list \<Rightarrow> obj \<Rightarrow> 'q \<Rightarrow> 'q" where
  "OnAdd I W ts u q = (case il_keyFunc I u of None \<Rightarrow> q | Some key \<Rightarrow> handle_key I W ts key q)"

definition OnDelete :: "informer_lib \<Rightarrow> 'q workqueue \<Rightarrow> keyTransformation list \<Rightarrow> obj \<Rightarrow> 'q \<Rightarrow> 'q" where
  "OnDelete I W ts u q = (case il_keyFunc I u of None \<Rightarrow> q | Some key \<Rightarrow> handle_key I W ts key q)"

definition OnUpdate ::
  "informer_lib \<Rightarrow> 'q workqueue \<Rightarrow> keyTransformation list \<Rightarrow> obj option \<Rightarrow> obj \<Rightarrow> 'q \<Rightarrow> 'q" where
  "OnUpdate I W ts old cur q =
     (case il_keyFunc I cur of
        None \<Rightarrow> q
      | Some curKey \<Rightarrow>
          (case (Option.bind old (il_version I), il_version I cur) of
             (Some a, Some b) \<Rightarrow> (if a = b then q else handle_key I W ts curKey q)
           | _ \<Rightarrow> handle_key I W ts curKey q))"

section \<open>The informers\<close>

text \<open>
  An informer lists and watches with the client made for its resource; its closures read the label
  selector of a request from the loop variable, when the request is made. With the Go version of the
  repository the iterations share one variable: \<open>rg_r\<close> is what it holds when the trigger is made.
\<close>

record resourceTriggerConfig =
  rs_Name :: string
  rs_Kind :: string
  rs_APIVersion :: string
  rs_Namespace :: string
  rs_MatchLabels :: "(string \<times> string) list option"
  rs_KeyTransformationConfigs :: "keyTransformationConfig list"

record resourcesTriggerConfig =
  rsc_MainResource :: string
  rsc_Resources :: "resourceTriggerConfig list"

record informer =
  inf_client :: resourceClient
  inf_selector :: "resourceTriggerConfig option \<Rightarrow> string"  \<comment> \<open>from the loop variable\<close>
  inf_handlers :: "keyTransformation list"

record resource_trigger =
  rg_infs :: "(string \<times> informer) list"
  rg_inf :: "informer option"
  rg_writeStatus :: bool
  rg_r :: "resourceTriggerConfig option"

text \<open>The selector that a list or watch request carries, given the loop variable it reads.\<close>

definition list_selector :: "((string \<times> string) list \<Rightarrow> string) \<Rightarrow> resourceTriggerConfig option \<Rightarrow> string" where
  "list_selector labels_String r =
     (case Option.bind r rs_MatchLabels of None \<Rightarrow> '''' | Some m \<Rightarrow> labels_String m)"

definition request_selector :: "resource_trigger \<Rightarrow> informer \<Rightarrow> string" where
  "request_selector t i = inf_selector i (rg_r t)"

text \<open>An iteration assigns the variable and makes an informer whose closures refer to it.\<close>

fun new_informers ::
  "'w kube \<Rightarrow> client \<Rightarrow> (string \<Rightarrow> go_error + regex) \<Rightarrow> ((string \<times> string) list \<Rightarrow> string) \<Rightarrow>
     resourceTriggerConfig list \<Rightarrow> resourceTriggerConfig option \<Rightarrow> (string \<times> informer) list \<Rightarrow>
     ('w, resourceTriggerConfig option \<times> (string \<times> informer) list) io" where
  "new_informers K cl compile labels_String [] var infs w = (Ok (var, infs), w)"
| "new_informers K cl compile labels_String (r # rs) var infs w =
     andThen (on_err (CreateResourceClient (rs_Kind r) (rs_APIVersion r))
        (lib (ClientFor K cl (rs_APIVersion r) (rs_Kind r) (rs_Namespace r) w))) (\<lambda>c w1.
       case new_transformations compile (rs_KeyTransformationConfigs r) of
         Inl e \<Rightarrow> (Err (CreateResourceHandlers (rs_Kind r) (rs_APIVersion r) e), w1)
       | Inr ts \<Rightarrow>
           new_informers K cl compile labels_String rs (Some r)
             (AList.update (rs_Name r)
                \<lparr>inf_client = c, inf_selector = list_selector labels_String, inf_handlers = ts\<rparr> infs) w1)"

definition NewResourceTrigger ::
  "'w kube \<Rightarrow> client \<Rightarrow> 'w fslib \<Rightarrow> (string \<Rightarrow> go_error + resourcesTriggerConfig) \<Rightarrow>
     (string \<Rightarrow> go_error + regex) \<Rightarrow> ((string \<times> string) list \<Rightarrow> string) \<Rightarrow> string \<Rightarrow> bool \<Rightarrow>
     ('w, resource_trigger) io" where
  "NewResourceTrigger K cl F decode compile labels_String configFile writeStatus w =
     (case fs_ReadFile F configFile w of
        (Inl e, w1) \<Rightarrow> (Err (OpenConfigFile e), w1)
      | (Inr content, w1) \<Rightarrow>
          (case decode content of
             Inl e \<Rightarrow> (Err (ParseConfigFile e), w1)
           | Inr config \<Rightarrow>
               andThen (new_informers K cl compile labels_String (rsc_Resources config) None [] w1)
                 (\<lambda>(var, infs) w2.
                    (Ok \<lparr>rg_infs = infs, rg_inf = map_of infs (rsc_MainResource config),
                         rg_writeStatus = writeStatus, rg_r = var\<rparr>, w2))))"

text \<open>The dynamic imports of the resources: the stored objects of each informer, as JSON.\<close>

definition Resource_InputSources ::
  "(informer \<Rightarrow> 'src) \<Rightarrow> resource_trigger \<Rightarrow> (string \<times> 'src) list" where
  "Resource_InputSources marshalInformer t =
     map (\<lambda>(resource, i). (resource @ ''/list'', marshalInformer i)) (rg_infs t)"

definition marshalInformerFunc ::
  "(informer \<Rightarrow> 's \<Rightarrow> obj list) \<Rightarrow> (obj list \<Rightarrow> go_error + string) \<Rightarrow> informer \<Rightarrow> ('s, string) eff" where
  "marshalInformerFunc storeList marshal i s = (marshal (storeList i s), s)"

section \<open>Synchronising a key\<close>

text \<open>
  \<open>getByKey\<close> is the lookup in the store of the main informer, which is nil when no resource has the
  configured name; \<open>marshal\<close> is the JSON of an object.
\<close>

definition sync ::
  "ulib \<Rightarrow> client \<Rightarrow> (informer \<Rightarrow> string \<Rightarrow> 's \<Rightarrow> go_error + obj option) \<Rightarrow> (obj \<Rightarrow> go_error + string) \<Rightarrow>
     's executionRegister \<Rightarrow> resource_trigger \<Rightarrow> string \<Rightarrow> ('s, unit) io" where
  "sync U cl getByKey marshal es t key s =
     (case rg_inf t of
        None \<Rightarrow> (Panic NilDereference, s)
      | Some i \<Rightarrow>
          (case getByKey i key s of
             Inl e \<Rightarrow> (Err e, s)
           | Inr None \<Rightarrow> (Ok (), s)
           | Inr (Some u) \<Rightarrow>
               (case marshal u of
                  Inl e \<Rightarrow> (Err e, s)
                | Inr cfg \<Rightarrow>
                    (let f = (if rg_writeStatus t then Some (NewFeedback U cl u) else None);
                         (x, _, s1) = Register_Execute es (Some \<lparr>cf_RawConfig = cfg, cf_Feedback = f\<rparr>) s
                     in (x, s1)))))"

text \<open>
  One turn of the worker: whether it goes on, after a key was synchronised. \<^verbatim>\<open>Done\<close> is deferred, so
  it is called on a panic as well.
\<close>

definition processNextWorkItem ::
  "'q workqueue \<Rightarrow> (string \<Rightarrow> ('s, unit) io) \<Rightarrow> ('q \<times> 's, bool) io" where
  "processNextWorkItem W syncKey st =
     (let (q, s) = st in
      case wq_Get W q of
        (None, q1) \<Rightarrow> (Ok False, q1, s)
      | (Some key, q1) \<Rightarrow>
          (case syncKey key s of
             (Ok _, s1) \<Rightarrow> (Ok True, wq_Done W key (wq_Forget W key q1), s1)
           | (Err e, s1) \<Rightarrow> (Ok True, wq_Done W key (wq_AddRateLimited W key q1), s1)
           | (Panic p, s1) \<Rightarrow> (Panic p, wq_Done W key q1, s1)
           | (Diverge, s1) \<Rightarrow> (Diverge, q1, s1)))"

text \<open>The worker, for at most so many turns; it does not return before the queue is shut down.\<close>

fun worker :: "nat \<Rightarrow> 'q workqueue \<Rightarrow> (string \<Rightarrow> ('s, unit) io) \<Rightarrow> ('q \<times> 's, unit) io" where
  "worker 0 W syncKey st = (Diverge, st)"
| "worker (Suc n) W syncKey st =
     andThen (processNextWorkItem W syncKey st) (\<lambda>more st1.
       if more then worker n W syncKey st1 else (Ok (), st1))"

section \<open>Running the trigger\<close>

text \<open>
  \<^verbatim>\<open>Run\<close> starts the worker and the informers and waits for the end of the context; the queue is shut
  down when it returns. What happens meanwhile is a list of events: an informer reports an object
  to its handlers, or the worker gets its turn. A worker that has left its loop, or hangs in a
  synchronisation, gets no more turns.
\<close>

datatype object_event = Added obj | Updated "obj option" obj | Deleted obj

datatype resource_event = Informed string object_event | WorkerTurn | ContextDone

fun event_object :: "object_event \<Rightarrow> obj" where
  "event_object (Added u) = u"
| "event_object (Updated old u) = u"
| "event_object (Deleted u) = u"

fun handle_event ::
  "informer_lib \<Rightarrow> 'q workqueue \<Rightarrow> keyTransformation list \<Rightarrow> object_event \<Rightarrow> 'q \<Rightarrow> 'q" where
  "handle_event I W ts (Added u) = OnAdd I W ts u"
| "handle_event I W ts (Updated old u) = OnUpdate I W ts old u"
| "handle_event I W ts (Deleted u) = OnDelete I W ts u"

fun resource_loop ::
  "informer_lib \<Rightarrow> 'q workqueue \<Rightarrow> (string \<Rightarrow> ('s, unit) io) \<Rightarrow> resource_trigger \<Rightarrow> bool \<Rightarrow>
     resource_event list \<Rightarrow> ('q \<times> 's, unit) io" where
  "resource_loop I W syncKey t working [] st = (Diverge, st)"
| "resource_loop I W syncKey t working (ContextDone # evs) st = (Ok (), wq_ShutDown W (fst st), snd st)"
| "resource_loop I W syncKey t working (Informed n ev # evs) st =
     resource_loop I W syncKey t working evs
       (case map_of (rg_infs t) n of
          None \<Rightarrow> st
        | Some i \<Rightarrow> (handle_event I W (inf_handlers i) ev (fst st), snd st))"
| "resource_loop I W syncKey t working (WorkerTurn # evs) st =
     (if \<not> working then resource_loop I W syncKey t False evs st
      else
        let (x, st1) = processNextWorkItem W syncKey st in
        case x of
          Ok goOn \<Rightarrow> resource_loop I W syncKey t goOn evs st1
        | Diverge \<Rightarrow> resource_loop I W syncKey t False evs st1
        | Err e \<Rightarrow> (Err e, st1)
        | Panic p \<Rightarrow> (Panic p, st1))"

definition Resource_Run ::
  "informer_lib \<Rightarrow> 'q workqueue \<Rightarrow> (string \<Rightarrow> ('s, unit) io) \<Rightarrow> resource_trigger \<Rightarrow>
     resource_event list \<Rightarrow> ('q \<times> 's, unit) io" where
  "Resource_Run I W syncKey t evs st = resource_loop I W syncKey t True evs st"

section \<open>Properties\<close>

text \<open>
  An event on an object enqueues exactly the object's key after all transformations, when there is
  one and it is not empty; an update in which the resource version stays the same enqueues
  nothing, and one in which a version is not known counts as a change.
\<close>

theorem events_enqueue_the_transformed_key:
  "(let key = map_option (transform_all ts) (il_keyFunc I u);
        add = (\<lambda>q. case key of None \<Rightarrow> q | Some k \<Rightarrow> if k = '''' then q else wq_Add W k q)
    in OnAdd I W ts u q = add q \<and> OnDelete I W ts u q = add q \<and>
       OnUpdate I W ts old u q =
         (if Option.bind old (il_version I) \<noteq> None \<and> Option.bind old (il_version I) = il_version I u
          then q else add q))"
  by (cases "il_keyFunc I u")
    (auto simp: OnAdd_def OnDelete_def OnUpdate_def handle_key_def enqueue_def Let_def split: option.splits)

lemma set_update_subset: "set (AList.update k v xs) \<subseteq> insert (k, v) (set xs)"
  by (induction xs) auto

lemma new_informers_ConsE:
  assumes "new_informers K cl compile labels_String (r # rs) var infs w = (Ok (var', infs'), w')"
  obtains c ts w1 where "new_informers K cl compile labels_String rs (Some r)
    (AList.update (rs_Name r) \<lparr>inf_client = c, inf_selector = list_selector labels_String, inf_handlers = ts\<rparr> infs) w1 =
      (Ok (var', infs'), w')"
  using assms
  by (cases "new_transformations compile (rs_KeyTransformationConfigs r)") (auto simp: andThen_Ok_iff)

lemma new_informers_Ok:
  assumes "new_informers K cl compile labels_String rs var infs w = (Ok (var', infs'), w')"
  shows "fst ` set infs' = fst ` set infs \<union> rs_Name ` set rs \<and> var' = (if rs = [] then var else Some (last rs)) \<and>
    (\<forall>n i. (n, i) \<in> set infs' \<longrightarrow> (n, i) \<in> set infs \<or> inf_selector i = list_selector labels_String)"
  using assms
proof (induction rs arbitrary: var infs w)
  case (Cons r rs)
  from Cons.prems obtain c ts w1 where r: "new_informers K cl compile labels_String rs (Some r)
      (AList.update (rs_Name r) \<lparr>inf_client = c, inf_selector = list_selector labels_String, inf_handlers = ts\<rparr> infs) w1 =
        (Ok (var', infs'), w')"
    by (rule new_informers_ConsE)
  note IH = Cons.IH [OF r]
  show ?case
  proof (intro conjI allI impI)
    show "fst ` set infs' = fst ` set infs \<union> rs_Name ` set (r # rs)"
      using IH [THEN conjunct1] by (auto simp: dom_update)
    show "var' = (if r # rs = [] then var else Some (last (r # rs)))" using IH by simp
    show "(n, i) \<in> set infs \<or> inf_selector i = list_selector labels_String" if "(n, i) \<in> set infs'" for n i
      using IH [THEN conjunct2, THEN conjunct2, rule_format, OF that] set_update_subset by fastforce
  qed
qed auto

text \<open>
  C39: When the trigger is made, there is an informer under exactly the names of the resources, the
  main informer is missing exactly when no resource has its name, and the list and watch requests
  of all of them carry the label selector of the last resource: the selectors of the others are
  never used.
\<close>

theorem informers_use_the_last_selector:
  assumes "NewResourceTrigger K cl F decode compile labels_String path writeStatus w = (Ok t, w')"
    and "fs_ReadFile F path w = (Inr content, w1)" "decode content = Inr config"
  shows "fst ` set (rg_infs t) = rs_Name ` set (rsc_Resources config) \<and>
    (rg_inf t = None \<longleftrightarrow> rsc_MainResource config \<notin> rs_Name ` set (rsc_Resources config)) \<and>
    (\<forall>n i. (n, i) \<in> set (rg_infs t) \<longrightarrow>
       request_selector t i = list_selector labels_String (Some (last (rsc_Resources config))))"
proof -
  let ?rs = "rsc_Resources config"
  obtain var infs w2 where n: "new_informers K cl compile labels_String ?rs None [] w1 = (Ok (var, infs), w2)"
    and t: "t = \<lparr>rg_infs = infs, rg_inf = map_of infs (rsc_MainResource config), rg_writeStatus = writeStatus, rg_r = var\<rparr>"
    using assms by (auto simp: NewResourceTrigger_def andThen_Ok_iff)
  note ok = new_informers_Ok [OF n]
  have "request_selector t i = list_selector labels_String (Some (last ?rs))" if "(n, i) \<in> set infs" for n i
  proof -
    have "?rs \<noteq> []" using that ok by auto
    then show ?thesis using that ok by (auto simp: request_selector_def t)
  qed
  then show ?thesis using ok by (auto simp: t map_of_eq_None_iff)
qed

text \<open>
  A key whose object is gone, or whose rollout succeeds, is forgotten, and one whose rollout fails
  comes back rate limited; in each case it is marked as done, last, and the worker goes on. The
  rollout gets the object as raw configuration, and feedback on it when the status is to be written.
\<close>

theorem failed_key_is_retried:
  assumes get: "wq_Get W q = (Some key, q1)" and main: "rg_inf t = Some i"
    and look: "getByKey i key s = Inr u" and json: "\<And>v. u = Some v \<Longrightarrow> marshal v = Inr (cfg v)"
  shows "processNextWorkItem W (sync U cl getByKey marshal es t) (q, s) =
    (case u of
       None \<Rightarrow> (Ok True, wq_Done W key (wq_Forget W key q1), s)
     | Some v \<Rightarrow>
         (let (x, c', s1) = Register_Execute es
                (Some \<lparr>cf_RawConfig = cfg v,
                       cf_Feedback = if rg_writeStatus t then Some (NewFeedback U cl v) else None\<rparr>) s
          in case x of
               Ok _ \<Rightarrow> (Ok True, wq_Done W key (wq_Forget W key q1), s1)
             | Err e \<Rightarrow> (Ok True, wq_Done W key (wq_AddRateLimited W key q1), s1)
             | Panic p \<Rightarrow> (Panic p, wq_Done W key q1, s1)
             | Diverge \<Rightarrow> (Diverge, q1, s1)))"
  using get main look json
  by (cases u) (auto simp: processNextWorkItem_def sync_def Let_def split: prod.splits outcome.splits)

text \<open>
  What is assumed of a queue with the keys \<open>keys q\<close> waiting or being processed: a call adds at most
  the key that it is given, and only such keys are handed out.
\<close>

definition queue_law :: "'q workqueue \<Rightarrow> ('q \<Rightarrow> string set) \<Rightarrow> bool" where
  "queue_law W keys \<longleftrightarrow>
     (\<forall>k q. keys (wq_Add W k q) \<subseteq> insert k (keys q) \<and> keys (wq_AddRateLimited W k q) \<subseteq> insert k (keys q) \<and>
        keys (wq_Done W k q) \<subseteq> keys q \<and> keys (wq_Forget W k q) \<subseteq> keys q \<and>
        keys (snd (wq_Get W q)) \<subseteq> keys q \<and> (fst (wq_Get W q) = Some k \<longrightarrow> k \<in> keys q))"

definition event_keys :: "informer_lib \<Rightarrow> resource_trigger \<Rightarrow> resource_event list \<Rightarrow> string set" where
  "event_keys I t evs =
     {k. k \<noteq> '''' \<and> (\<exists>n ev i key. Informed n ev \<in> set evs \<and> map_of (rg_infs t) n = Some i \<and>
        il_keyFunc I (event_object ev) = Some key \<and> k = transform_all (inf_handlers i) key)}"

lemma handle_event_keys:
  assumes "queue_law W keys"
  shows "keys (handle_event I W ts ev q) \<subseteq>
    keys q \<union> {k. k \<noteq> '''' \<and> (\<exists>key. il_keyFunc I (event_object ev) = Some key \<and> k = transform_all ts key)}"
proof -
  have add: "keys (wq_Add W k q) \<subseteq> insert k (keys q)" for k using assms by (simp add: queue_law_def)
  have "keys (handle_key I W ts key q) \<subseteq> keys q \<union> {k. k \<noteq> '''' \<and> k = transform_all ts key}" for key
    using add [of "transform_all ts key"] by (auto simp: handle_key_def enqueue_def Let_def)
  note key = this
  have "handle_event I W ts ev q = q \<or>
      (\<exists>key. il_keyFunc I (event_object ev) = Some key \<and> handle_event I W ts ev q = handle_key I W ts key q)"
    by (cases ev) (auto simp: OnAdd_def OnUpdate_def OnDelete_def split: option.splits)
  then show ?thesis
  proof (elim disjE exE conjE)
    fix k
    assume "il_keyFunc I (event_object ev) = Some k" "handle_event I W ts ev q = handle_key I W ts k q"
    then show ?thesis using key [of k] by auto
  qed simp
qed

lemma processNextWorkItem_keys:
  assumes L: "queue_law W keys" and q: "keys q \<subseteq> P"
  shows "processNextWorkItem W syncKey (q, s) =
      processNextWorkItem W (\<lambda>k s. if k \<in> P then syncKey k s else fault s) (q, s)"
    and "processNextWorkItem W syncKey (q, s) = (x, (q', s')) \<Longrightarrow> keys q' \<subseteq> P"
proof -
  obtain g q1 where g: "wq_Get W q = (g, q1)" by (rule prod.exhaust)
  note law = L [unfolded queue_law_def, rule_format]
  have q1: "keys q1 \<subseteq> keys q" using law [of _ q] g by simp
  have k: "g = Some k \<Longrightarrow> k \<in> P" for k using law [of k q] g q by auto
  have dn: "keys (wq_Done W k q) \<subseteq> keys q" "keys (wq_Forget W k q) \<subseteq> keys q"
    "keys (wq_AddRateLimited W k q) \<subseteq> insert k (keys q)" for k q
    using law [of k q] by simp_all
  have step: "keys (wq_Done W k (wq_Forget W k q1)) \<subseteq> P" "keys (wq_Done W k q1) \<subseteq> P" for k
    using order_trans [OF dn(1) dn(2)] dn(1) q1 q by (meson order_trans)+
  have retry: "keys (wq_Done W k (wq_AddRateLimited W k q1)) \<subseteq> P" if "k \<in> P" for k
  proof -
    have "insert k (keys q1) \<subseteq> P" using that q1 q by blast
    then show ?thesis using order_trans [OF dn(1) dn(3)] by (rule order_trans [rotated])
  qed
  show "processNextWorkItem W syncKey (q, s) =
      processNextWorkItem W (\<lambda>k s. if k \<in> P then syncKey k s else fault s) (q, s)"
    using g k by (cases g) (simp_all add: processNextWorkItem_def)
  show "keys q' \<subseteq> P" if "processNextWorkItem W syncKey (q, s) = (x, (q', s'))"
  proof (cases g)
    case (Some key)
    obtain y s1 where y: "syncKey key s = (y, s1)" by (rule prod.exhaust)
    have "key \<in> P" using k Some by simp
    then show ?thesis
      using that g Some y step retry [of key] order_trans [OF q1 q]
      by (cases y) (auto simp: processNextWorkItem_def simp del: subset_iff)
  qed (use that g q1 q in \<open>auto simp: processNextWorkItem_def\<close>)
qed

lemma resource_loop_keys:
  assumes L: "queue_law W keys"
  shows "keys q \<subseteq> P \<Longrightarrow> event_keys I t evs \<subseteq> P \<Longrightarrow>
    resource_loop I W syncKey t working evs (q, s) =
    resource_loop I W (\<lambda>k s. if k \<in> P then syncKey k s else fault s) t working evs (q, s)"
proof (induction evs arbitrary: q s working)
  case (Cons ev evs)
  have evs: "event_keys I t evs \<subseteq> P" using Cons.prems(2) unfolding event_keys_def list.set by blast
  show ?case
  proof (cases ev)
    case (Informed n e)
    show ?thesis
    proof (cases "map_of (rg_infs t) n")
      case (Some i)
      have "keys (handle_event I W (inf_handlers i) e q) \<subseteq> P"
      proof
        fix k
        assume "k \<in> keys (handle_event I W (inf_handlers i) e q)"
        then consider "k \<in> keys q" | key where "k \<noteq> ''''" "il_keyFunc I (event_object e) = Some key"
          "k = transform_all (inf_handlers i) key"
          using handle_event_keys [OF L, of I "inf_handlers i" e q] by blast
        then show "k \<in> P"
        proof cases
          case 2
          then have "k \<in> event_keys I t (ev # evs)" using Informed Some by (auto simp: event_keys_def)
          then show ?thesis using Cons.prems(2) by blast
        qed (use Cons.prems(1) in blast)
      qed
      then show ?thesis using Cons.IH evs Informed Some by simp
    qed (use Cons evs Informed in simp)
  next
    case WorkerTurn
    obtain x q1 s1 where p: "processNextWorkItem W syncKey (q, s) = (x, (q1, s1))" by (rule prod_cases3)
    have q1: "keys q1 \<subseteq> P" by (rule processNextWorkItem_keys(2) [OF L Cons.prems(1) p])
    have p': "processNextWorkItem W (\<lambda>k s. if k \<in> P then syncKey k s else fault s) (q, s) = (x, (q1, s1))"
      using processNextWorkItem_keys(1) [OF L Cons.prems(1), of syncKey s fault] p by simp
    show ?thesis
      using Cons.IH [OF q1 evs] Cons.IH [OF Cons.prems(1) evs] WorkerTurn p p' by (cases x) simp_all
  qed simp
qed simp

text \<open>
  C21: Whatever the informers report and however often the worker gets its turn, only keys are
  synchronised that the transformations of an informer make of the key of an object which that
  informer has reported, and never the empty key: with a queue that starts empty, a run is the same
  when the synchronisation of any other key is replaced by a panic.
\<close>

theorem only_reported_keys_are_synced:
  assumes "queue_law W keys" "keys q = {}"
  shows "Resource_Run I W syncKey t evs (q, s) =
    Resource_Run I W (\<lambda>k s. if k \<in> event_keys I t evs then syncKey k s else (Panic NilDereference, s)) t evs (q, s)"
  unfolding Resource_Run_def using assms by (intro resource_loop_keys) auto

section \<open>Witnesses\<close>

text \<open>A queue that is a list of waiting keys.\<close>

definition list_queue :: "string list workqueue" where
  "list_queue =
     \<lparr>wq_Add = (\<lambda>k q. if k \<in> set q then q else q @ [k]),
      wq_Get = (\<lambda>q. case q of [] \<Rightarrow> (None, []) | k # q' \<Rightarrow> (Some k, q')),
      wq_Done = (\<lambda>k q. q), wq_Forget = (\<lambda>k q. q), wq_AddRateLimited = (\<lambda>k q. q @ [k]),
      wq_ShutDown = (\<lambda>q. [])\<rparr>"

lemma list_queue_law: "queue_law list_queue set"
  by (auto simp: queue_law_def list_queue_def split: list.splits)

theorem only_reported_keys_are_synced_witness:
  "Resource_Run \<lparr>il_keyFunc = (\<lambda>u. Some ''ns/web''), il_version = (\<lambda>u. None)\<rparr> list_queue
     (\<lambda>k s. (Ok (), s @ [k]))
     \<lparr>rg_infs = [(''main'', \<lparr>inf_client = sample_target, inf_selector = (\<lambda>r. ''''), inf_handlers = []\<rparr>)],
      rg_inf = None, rg_writeStatus = False, rg_r = None\<rparr>
     [Informed ''main'' (Added []), WorkerTurn, ContextDone] ([], []) = (Ok (), [], [''ns/web''])"
  by (subst only_reported_keys_are_synced [OF list_queue_law])
    (auto simp: Resource_Run_def list_queue_def OnAdd_def handle_key_def enqueue_def processNextWorkItem_def
      event_keys_def)


definition sample_files2 :: "sworld fslib" where
  "sample_files2 = \<lparr>fs_ReadFile = (\<lambda>f w. (Inr f, w))\<rparr>"

definition sample_resource :: "string \<Rightarrow> (string \<times> string) list option \<Rightarrow> resourceTriggerConfig" where
  "sample_resource n m = \<lparr>rs_Name = n, rs_Kind = ''Service'', rs_APIVersion = ''v1'', rs_Namespace = ''ns'',
     rs_MatchLabels = m, rs_KeyTransformationConfigs = []\<rparr>"

definition sample_resources :: resourcesTriggerConfig where
  "sample_resources = \<lparr>rsc_MainResource = ''main'',
     rsc_Resources = [sample_resource ''main'' (Some [(''app'', ''db'')]), sample_resource ''all'' None]\<rparr>"

theorem informers_use_the_last_selector_witness:
  "\<exists>t w' i. NewResourceTrigger sample_kube (NewClient sample_cfg) sample_files2 (\<lambda>s. Inr sample_resources)
      sample_compile (concat \<circ> map fst) ''f'' True empty_world = (Ok t, w') \<and>
    (''main'', i) \<in> set (rg_infs t) \<and> request_selector t i = ''''"
proof -
  obtain t w' where t: "NewResourceTrigger sample_kube (NewClient sample_cfg) sample_files2 (\<lambda>s. Inr sample_resources)
      sample_compile (concat \<circ> map fst) ''f'' True empty_world = (Ok t, w')"
    by (simp add: NewResourceTrigger_def sample_files2_def sample_resources_def sample_resource_def
        ClientFor_def newForConfig_def setConfigDefaults_def sample_kube_def NewClient_def)
  have f: "fs_ReadFile sample_files2 ''f'' empty_world = (Inr ''f'', empty_world)"
    by (simp add: sample_files2_def)
  note p = informers_use_the_last_selector [OF t f refl]
  then have "''main'' \<in> fst ` set (rg_infs t)" by (simp add: sample_resources_def sample_resource_def)
  then obtain i where i: "(''main'', i) \<in> set (rg_infs t)" by auto
  then have "request_selector t i = ''''"
    using p by (auto simp: sample_resources_def sample_resource_def list_selector_def)
  with t i show ?thesis by blast
qed

text \<open>A queue that records its calls, newest first.\<close>

definition sample_queue :: "string list workqueue" where
  "sample_queue =
     \<lparr>wq_Add = (\<lambda>k q. (''add '' @ k) # q), wq_Get = (\<lambda>q. (Some ''k'', q)),
      wq_Done = (\<lambda>k q. (''done '' @ k) # q), wq_Forget = (\<lambda>k q. (''forget '' @ k) # q),
      wq_AddRateLimited = (\<lambda>k q. (''retry '' @ k) # q),
      wq_ShutDown = (\<lambda>q. ''shut down'' # q)\<rparr>"

definition sample_trigger :: resource_trigger where
  "sample_trigger = \<lparr>rg_infs = [],
     rg_inf = Some \<lparr>inf_client = sample_target, inf_selector = (\<lambda>r. ''''), inf_handlers = []\<rparr>, rg_writeStatus = True, rg_r = None\<rparr>"

theorem failed_key_is_retried_witness:
  "processNextWorkItem sample_queue (sync sample_ulib (NewClient sample_cfg) (\<lambda>i k s. Inr (Some sample_service))
     (\<lambda>u. Inr ''{}'') [\<lambda>c s. (Err ErrNotAJob, c, s)] sample_trigger) ([], empty_world) =
   (Ok True, [''done k'', ''retry k''], empty_world)"
proof -
  have main: "rg_inf sample_trigger = Some \<lparr>inf_client = sample_target, inf_selector = (\<lambda>r. ''''), inf_handlers = []\<rparr>"
    by (simp add: sample_trigger_def)
  have get: "wq_Get sample_queue [] = (Some ''k'', [])" by (simp add: sample_queue_def)
  show ?thesis
    by (subst failed_key_is_retried [OF get main, where u = "Some sample_service" and cfg = "\<lambda>v. ''{}''"])
      (simp_all add: sample_queue_def)
qed

end
