(* ===== verification/ResTrigger_Live.thy ===== *)
theory ResTrigger_Live
  imports ResTrigger
begin

text \<open>
  Progress of the resource trigger: a key that an informer's event puts on the queue is
  synchronised, after at most as many turns of the worker as keys were waiting.
\<close>

section \<open>A fair queue\<close>

text \<open>
  What is assumed of the queue while it is open: its keys wait in a line; an added key goes to the end
  unless it is in the line, the first key is handed out, and the other calls add keys at
  the end, if any (a retry).
\<close>

definition extended :: "('q \<Rightarrow> bool) \<Rightarrow> ('q \<Rightarrow> string list) \<Rightarrow> 'q \<Rightarrow> 'q \<Rightarrow> bool" where
  "extended open_queue waiting q q' \<longleftrightarrow> open_queue q' \<and> (\<exists>ks. waiting q' = waiting q @ ks)"

definition fair_queue :: "'q workqueue \<Rightarrow> ('q \<Rightarrow> bool) \<Rightarrow> ('q \<Rightarrow> string list) \<Rightarrow> bool" where
  "fair_queue W open_queue waiting \<longleftrightarrow> (\<forall>q k. open_queue q \<longrightarrow>
     open_queue (wq_Add W k q) \<and>
     waiting (wq_Add W k q) = (if k \<in> set (waiting q) then waiting q else waiting q @ [k]) \<and>
     (waiting q \<noteq> [] \<longrightarrow> (\<exists>q'. wq_Get W q = (Some (hd (waiting q)), q') \<and> open_queue q' \<and>
        waiting q' = tl (waiting q))) \<and>
     extended open_queue waiting q (wq_Done W k q) \<and> extended open_queue waiting q (wq_Forget W k q) \<and>
     extended open_queue waiting q (wq_AddRateLimited W k q))"

lemma fair_queueD:
  assumes "fair_queue W open_queue waiting" "open_queue q"
  shows "open_queue (wq_Add W k q)"
    and "waiting (wq_Add W k q) = (if k \<in> set (waiting q) then waiting q else waiting q @ [k])"
    and "waiting q = k' # ks \<Longrightarrow> \<exists>q'. wq_Get W q = (Some k', q') \<and> open_queue q' \<and> waiting q' = ks"
    and "extended open_queue waiting q (wq_Done W k q)" "extended open_queue waiting q (wq_Forget W k q)"
    and "extended open_queue waiting q (wq_AddRateLimited W k q)"
  using assms unfolding fair_queue_def by auto

lemma extended_refl: "open_queue q \<Longrightarrow> extended open_queue waiting q q"
  by (simp add: extended_def)

lemma extended_trans: "extended op wt a b \<Longrightarrow> extended op wt b c \<Longrightarrow> extended op wt a c"
  by (auto simp: extended_def)

lemma extended_add:
  "fair_queue W open_queue waiting \<Longrightarrow> open_queue q \<Longrightarrow> extended open_queue waiting q (wq_Add W k q)"
  by (simp add: extended_def fair_queueD)

lemma extended_then_done:
  assumes Q: "fair_queue W open_queue waiting" and q: "open_queue q"
  shows "extended open_queue waiting q (wq_Done W k (wq_Forget W k q))"
    and "extended open_queue waiting q (wq_Done W k (wq_AddRateLimited W k q))"
proof -
  have "extended open_queue waiting q (wq_Done W k q')" if "extended open_queue waiting q q'" for q'
    using extended_trans [OF that] fair_queueD(4) [OF Q] that by (simp add: extended_def)
  then show "extended open_queue waiting q (wq_Done W k (wq_Forget W k q))"
    "extended open_queue waiting q (wq_Done W k (wq_AddRateLimited W k q))"
    using fair_queueD(5,6) [OF Q q] by blast+
qed

lemma handle_event_extended:
  "fair_queue W open_queue waiting \<Longrightarrow> open_queue q \<Longrightarrow>
   extended open_queue waiting q (handle_event I W ts ev q)"
  by (cases ev) (auto simp: OnAdd_def OnUpdate_def OnDelete_def handle_key_def enqueue_def Let_def extended_refl
      extended_add split: option.split)

section \<open>Turns of the worker\<close>

definition is_turn :: "resource_event \<Rightarrow> bool" where
  "is_turn ev = (case ev of WorkerTurn \<Rightarrow> True | _ \<Rightarrow> False)"

definition is_end :: "resource_event \<Rightarrow> bool" where
  "is_end ev = (case ev of ContextDone \<Rightarrow> True | _ \<Rightarrow> False)"

text \<open>The worker's turns before the end of the context.\<close>

definition turns :: "resource_event list \<Rightarrow> nat" where
  "turns evs = length (filter is_turn (takeWhile (\<lambda>e. \<not> is_end e) evs))"

lemma turns_simps [simp]:
  "turns [] = 0" "turns (ContextDone # evs) = 0" "turns (WorkerTurn # evs) = Suc (turns evs)"
  "turns (Informed n ev # evs) = turns evs"
  by (simp_all add: turns_def is_turn_def is_end_def)

definition returns :: "(string \<Rightarrow> ('s, unit) io) \<Rightarrow> bool" where
  "returns syncKey \<longleftrightarrow> (\<forall>k s. fst (syncKey k s) = Ok () \<or> (\<exists>e. fst (syncKey k s) = Err e))"

text \<open>The synchronisation, with a panic in the place of that of one key.\<close>

definition trap :: "string \<Rightarrow> go_panic \<Rightarrow> (string \<Rightarrow> ('s, unit) io) \<Rightarrow> string \<Rightarrow> ('s, unit) io" where
  "trap k p syncKey k' s = (if k' = k then (Panic p, s) else syncKey k' s)"

lemma turn_other:
  assumes Q: "fair_queue W open_queue waiting" and q: "open_queue q" "waiting q = k' # ks" and k: "k' \<noteq> k" and r: "returns syncKey"
  shows "\<exists>q' s'. processNextWorkItem W (trap k p syncKey) (q, s) = (Ok True, q', s') \<and> open_queue q' \<and>
    (\<exists>ys. waiting q' = ks @ ys)"
proof -
  obtain q1 where g: "wq_Get W q = (Some k', q1)" "open_queue q1" "waiting q1 = ks" using fair_queueD(3) [OF Q q] by blast
  obtain x s1 where x: "syncKey k' s = (x, s1)" by (rule prod.exhaust)
  then have "x = Ok () \<or> (\<exists>e. x = Err e)" using r by (metis returns_def fst_conv)
  then show ?thesis
    using g extended_then_done [OF Q g(2), of k'] k x
    by (auto simp: processNextWorkItem_def trap_def extended_def)
qed

lemma key_in_line_is_synced:
  assumes Q: "fair_queue W open_queue waiting" and r: "returns syncKey"
  shows "open_queue q \<Longrightarrow> waiting q = xs @ k # ys \<Longrightarrow> k \<notin> set xs \<Longrightarrow> length xs < turns evs \<Longrightarrow>
    fst (resource_loop I W (trap k p syncKey) t True evs (q, s)) = Panic p"
proof (induction evs arbitrary: q s xs ys)
  case (Cons ev evs)
  show ?case
  proof (cases ev)
    case (Informed n e)
    define q' where "q' = (case map_of (rg_infs t) n of None \<Rightarrow> q | Some i \<Rightarrow> handle_event I W (inf_handlers i) e q)"
    have "extended open_queue waiting q q'"
      using handle_event_extended [OF Q Cons.prems(1)] extended_refl [of open_queue, OF Cons.prems(1)]
      by (auto simp: q'_def split: option.split)
    then obtain zs where q': "open_queue q'" "waiting q' = xs @ k # ys @ zs" using Cons.prems(2) by (auto simp: extended_def)
    have "resource_loop I W (trap k p syncKey) t True (ev # evs) (q, s) =
        resource_loop I W (trap k p syncKey) t True evs (q', s)"
      by (simp add: Informed q'_def split: option.split)
    then show ?thesis using Cons.IH [OF q' Cons.prems(3)] Cons.prems(4) by (simp add: Informed)
  next
    case WorkerTurn
    show ?thesis
    proof (cases xs)
      case Nil
      then obtain q1 where "wq_Get W q = (Some k, q1)" using fair_queueD(3) [OF Q Cons.prems(1)] Cons.prems(2) by auto
      then show ?thesis by (simp add: WorkerTurn processNextWorkItem_def trap_def)
    next
      case (Cons x xs')
      then have w: "waiting q = x # xs' @ k # ys" "x \<noteq> k" using Cons.prems(2,3) by auto
      from turn_other [OF Q Cons.prems(1) w r, of p s] obtain q' s' zs
        where p: "processNextWorkItem W (trap k p syncKey) (q, s) = (Ok True, q', s')"
          and q': "open_queue q'" "waiting q' = xs' @ k # ys @ zs" by auto
      have "k \<notin> set xs'" "length xs' < turns evs" using Cons.prems(3,4) by (simp_all add: Cons WorkerTurn)
      from Cons.IH [OF q' this] show ?thesis by (simp add: WorkerTurn p)
    qed
  qed (use Cons.prems in simp)
qed simp

section \<open>The reported key\<close>

text \<open>An event that the handlers take for a change.\<close>

fun is_change :: "informer_lib \<Rightarrow> object_event \<Rightarrow> bool" where
  "is_change I (Updated old u) \<longleftrightarrow>
     \<not> (Option.bind old (il_version I) \<noteq> None \<and> Option.bind old (il_version I) = il_version I u)"
| "is_change I _ \<longleftrightarrow> True"

lemma handle_event_change:
  assumes "is_change I ev" "il_keyFunc I (event_object ev) = Some key" "transform_all ts key \<noteq> ''''"
  shows "handle_event I W ts ev q = wq_Add W (transform_all ts key) q"
  using assms
  by (cases ev) (auto simp: OnAdd_def OnUpdate_def OnDelete_def handle_key_def enqueue_def Let_def split: option.split)

text \<open>
  C22: Every change is rolled out: when an informer reports a change of an object while the trigger
  runs, the key that its transformations make of the object's key is synchronised after the
  report, within one turn of the worker more than there were keys waiting, whatever else the
  informers report meanwhile and whether the rollouts of the other keys succeed or fail. (A panic put
  in the place of that synchronisation ends the run.) The rollouts of the other keys have to return.
\<close>

theorem reported_key_is_synced:
  assumes "fair_queue W open_queue waiting" "open_queue q" "returns syncKey"
    and "map_of (rg_infs t) n = Some i" "is_change I ev" "il_keyFunc I (event_object ev) = Some key"
    and k: "k = transform_all (inf_handlers i) key" "k \<noteq> ''''"
    and "length (waiting q) < turns evs"
  shows "fst (resource_loop I W (trap k p syncKey) t True (Informed n ev # evs) (q, s)) = Panic p"
proof -
  let ?q = "wq_Add W k q"
  note q = fair_queueD(1,2) [OF assms(1,2), of k]
  then have "k \<in> set (waiting ?q)" by simp
  then obtain xs ys where xs: "waiting ?q = xs @ k # ys" "k \<notin> set xs" using split_list_first by metis
  have "length (xs @ k # ys) \<le> Suc (length (waiting q))" unfolding xs(1) [symmetric] q(2) by simp
  then have "length xs < turns evs" using assms(9) by simp
  from key_in_line_is_synced [OF assms(1,3) q(1) xs this] show ?thesis
    using handle_event_change [OF assms(5,6), of "inf_handlers i" W q] k assms(4) by simp
qed

text \<open>The witness: two keys wait, the first fails; a third one is reported, and gets its turn.\<close>

lemma list_queue_fair: "fair_queue list_queue (\<lambda>q. True) (\<lambda>q. q)"
  by (auto simp: fair_queue_def extended_def list_queue_def neq_Nil_conv)

theorem reported_key_is_synced_witness:
  "fst (resource_loop \<lparr>il_keyFunc = (\<lambda>u. Some ''ns/web''), il_version = (\<lambda>u. None)\<rparr> list_queue
     (trap ''ns/web'' NilDereference (\<lambda>k s. if k = ''a'' then (Err ErrNotAJob, s) else (Ok (), s @ [k])))
     \<lparr>rg_infs = [(''main'', \<lparr>inf_client = sample_target, inf_selector = (\<lambda>r. ''''), inf_handlers = []\<rparr>)],
      rg_inf = None, rg_writeStatus = False, rg_r = None\<rparr> True
     [Informed ''main'' (Added []), WorkerTurn, Informed ''other'' (Added []), WorkerTurn, WorkerTurn, ContextDone]
     ([''a'', ''b''], [])) = Panic NilDereference"
  by (rule reported_key_is_synced [OF list_queue_fair, where key = "''ns/web''"
        and i = "\<lparr>inf_client = sample_target, inf_selector = (\<lambda>r. ''''), inf_handlers = []\<rparr>"])
    (simp_all add: returns_def)

end
