(* ===== verification/Http.thy ===== *)
theory Http
  imports Paths
begin

text \<open>
  The HTTP server of cli/cli.go: the handlers that \<^verbatim>\<open>Main\<close> registers, and how the standard library's
  \<^verbatim>\<open>ServeMux\<close> chooses one of them for the path of a request (Go 1.18: canonical paths, redirects, the
  longest matching pattern). What the handlers answer is not modelled. No pattern names a host, so
  hosts play no part.
\<close>

section \<open>The multiplexer\<close>

datatype handler =
    MetricsHandler | PprofIndex | PprofCmdline | PprofProfile | PprofSymbol | PprofTrace

datatype response = Redirect string | Handled handler | PageNotFound

text \<open>The patterns, and those among them that end with a slash, the longest first.\<close>

record serveMux =
  mux_m :: "(string \<times> handler) list"
  mux_es :: "(string \<times> handler) list"

definition NewServeMux :: serveMux where
  "NewServeMux = \<lparr>mux_m = [], mux_es = []\<rparr>"

definition ends_with_slash :: "string \<Rightarrow> bool" where
  "ends_with_slash s \<longleftrightarrow> s \<noteq> [] \<and> last s = slash"

definition appendSorted :: "(string \<times> handler) list \<Rightarrow> string \<times> handler \<Rightarrow> (string \<times> handler) list" where
  "appendSorted es e =
     takeWhile (\<lambda>x. length (fst e) \<le> length (fst x)) es @ e # dropWhile (\<lambda>x. length (fst e) \<le> length (fst x)) es"

definition mux_Handle :: "string \<Rightarrow> handler \<Rightarrow> serveMux \<Rightarrow> serveMux outcome" where
  "mux_Handle pattern h mux =
     (if pattern = [] \<or> map_of (mux_m mux) pattern \<noteq> None then Panic DuplicateRegistration
      else Ok \<lparr>mux_m = (pattern, h) # mux_m mux,
               mux_es = (if ends_with_slash pattern then appendSorted (mux_es mux) (pattern, h) else mux_es mux)\<rparr>)"

definition has_prefix :: "string \<Rightarrow> string \<Rightarrow> bool" where
  "has_prefix s p \<longleftrightarrow> take (length p) s = p"

definition mux_match :: "serveMux \<Rightarrow> string \<Rightarrow> handler option" where
  "mux_match mux path =
     (case map_of (mux_m mux) path of
        Some h \<Rightarrow> Some h
      | None \<Rightarrow> map_option snd (List.find (\<lambda>e. has_prefix path (fst e)) (mux_es mux)))"

definition cleanPath :: "string \<Rightarrow> string" where
  "cleanPath p0 =
     (if p0 = [] then ''/''
      else let p = (if hd p0 = slash then p0 else slash # p0); np = Clean p in
        if ends_with_slash p \<and> np \<noteq> ''/'' then np @ ''/'' else np)"

definition shouldRedirect :: "serveMux \<Rightarrow> string \<Rightarrow> bool" where
  "shouldRedirect mux path \<longleftrightarrow>
     map_of (mux_m mux) path = None \<and> path \<noteq> [] \<and> map_of (mux_m mux) (path @ ''/'') \<noteq> None \<and>
     \<not> ends_with_slash path"

text \<open>The path of a request with the method CONNECT is taken as it is.\<close>

definition mux_Handler :: "serveMux \<Rightarrow> bool \<Rightarrow> string \<Rightarrow> response" where
  "mux_Handler mux connect path0 =
     (let path = (if connect then path0 else cleanPath path0) in
      if shouldRedirect mux path then Redirect (path @ ''/'')
      else if path \<noteq> path0 then Redirect path
      else case mux_match mux path of Some h \<Rightarrow> Handled h | None \<Rightarrow> PageNotFound)"

text \<open>A client that follows at most so many redirects.\<close>

fun follow :: "nat \<Rightarrow> serveMux \<Rightarrow> string \<Rightarrow> response" where
  "follow 0 mux path = mux_Handler mux False path"
| "follow (Suc n) mux path =
     (case mux_Handler mux False path of Redirect path' \<Rightarrow> follow n mux path' | r \<Rightarrow> r)"

section \<open>The handlers of the program\<close>

fun handle_all :: "(string \<times> handler) list \<Rightarrow> serveMux \<Rightarrow> serveMux outcome" where
  "handle_all [] mux = Ok mux"
| "handle_all ((pattern, h) # hs) mux =
     (case mux_Handle pattern h mux of Ok mux' \<Rightarrow> handle_all hs mux' | x \<Rightarrow> x)"

definition server_routes :: "(string \<times> handler) list" where
  "server_routes =
     [(''/metrics'', MetricsHandler), (''/debug/pprof/'', PprofIndex), (''/debug/pprof/cmdline'', PprofCmdline),
      (''/debug/pprof/profile'', PprofProfile), (''/debug/pprof/symbol'', PprofSymbol),
      (''/debug/pprof/trace'', PprofTrace)]"

definition server_mux :: "serveMux outcome" where
  "server_mux = handle_all server_routes NewServeMux"

definition program_mux :: serveMux where
  "program_mux = \<lparr>mux_m = rev server_routes, mux_es = [(''/debug/pprof/'', PprofIndex)]\<rparr>"

lemma server_mux_Ok: "server_mux = Ok program_mux"
  by (simp add: server_mux_def server_routes_def mux_Handle_def NewServeMux_def ends_with_slash_def slash_def
      appendSorted_def program_mux_def)

section \<open>Canonical paths\<close>

lemma Clean_rooted_idem:
  assumes "p \<noteq> []" "hd p = slash"
  shows "Clean p \<noteq> [] \<and> hd (Clean p) = slash \<and> Clean (Clean p) = Clean p \<and>
    (Clean p \<noteq> ''/'' \<longrightarrow> \<not> ends_with_slash (Clean p) \<and> Clean (Clean p @ ''/'') = Clean p)"
proof -
  define es where "es = clean_elems p"
  have c: "clean_list True es" using clean_elems_list [of p] assms by (simp add: es_def)
  have p: "Clean p = render_path True es" using assms by (simp add: Clean_def es_def)
  have one: "Clean ''/'' = ''/''" by code_simp
  show ?thesis
  proof (cases "es = []")
    case True
    then have "Clean p = ''/''" by (simp add: p render_path_def slash_def)
    then show ?thesis using one by (simp add: slash_def)
  next
    case False
    note r = clean_elems_render [OF c False]
    have e: "clean_elems (Clean p @ ''/'') = es"
    proof -
      have "clean_elems (Clean p @ [slash]) = clean_elems (Clean p)"
        using r p by (simp add: clean_elems_def split_slash_append [where t = "[]", simplified] clean_step_def)
      then show ?thesis using r p by (simp add: slash_def)
    qed
    have "last es \<noteq> [] \<and> slash \<notin> set (last es)"
      using c last_in_set [OF False] by (auto simp: clean_list_def no_slash_def)
    moreover have "join_slash es \<noteq> [] \<and> last (join_slash es) = last (last es)" if "last es \<noteq> []"
      using False that by (induction es rule: join_slash.induct) auto
    moreover have "Clean p = slash # join_slash es" by (simp add: p render_path_def)
    ultimately have "\<not> ends_with_slash (Clean p)"
      by (auto simp: ends_with_slash_def) (metis last_in_set)
    then show ?thesis using r e p by (auto simp: Clean_def)
  qed
qed

lemma cleanPath_cases:
  obtains "cleanPath p = ''/''" | np where "cleanPath p = np" "np \<noteq> ''/''" "np \<noteq> []" "hd np = slash" "Clean np = np"
    "\<not> ends_with_slash np"
  | np where "cleanPath p = np @ ''/''" "np \<noteq> ''/''" "np \<noteq> []" "hd np = slash" "Clean (np @ ''/'') = np"
proof -
  define q where "q = (if hd p = slash then p else slash # p)"
  show ?thesis
  proof (cases "p = []")
    case True
    then show ?thesis using that(1) by (simp add: cleanPath_def)
  next
    case False
    then have q: "q \<noteq> []" "hd q = slash" by (simp_all add: q_def)
    note c = Clean_rooted_idem [OF q]
    have e: "cleanPath p = (if ends_with_slash q \<and> Clean q \<noteq> ''/'' then Clean q @ ''/'' else Clean q)"
      using False by (simp add: cleanPath_def q_def Let_def)
    show ?thesis
    proof (cases "Clean q = ''/''")
      case True
      then show ?thesis using that(1) e by simp
    next
      case False
      then show ?thesis using c e that(2,3) by (cases "ends_with_slash q") auto
    qed
  qed
qed

lemma cleanPath_idem: "cleanPath (cleanPath p) = cleanPath p"
proof (cases p rule: cleanPath_cases)
  case 1
  have "cleanPath ''/'' = ''/''" by code_simp
  then show ?thesis by (simp add: 1)
next
  case (2 np)
  then show ?thesis by (simp add: cleanPath_def)
next
  case (3 np)
  then show ?thesis by (simp add: cleanPath_def ends_with_slash_def slash_def)
qed

section \<open>Requests\<close>

text \<open>What a canonical path is to lead to, path by path.\<close>

definition route :: "string \<Rightarrow> response" where
  "route path =
     (if path = ''/metrics'' then Handled MetricsHandler
      else if path = ''/debug/pprof/cmdline'' then Handled PprofCmdline
      else if path = ''/debug/pprof/profile'' then Handled PprofProfile
      else if path = ''/debug/pprof/symbol'' then Handled PprofSymbol
      else if path = ''/debug/pprof/trace'' then Handled PprofTrace
      else if path = ''/debug/pprof'' \<or> has_prefix path ''/debug/pprof/'' then Handled PprofIndex
      else PageNotFound)"

lemma program_mux_m: "map_of (mux_m program_mux) = map_of server_routes"
  by (rule ext) (simp add: program_mux_def server_routes_def)

lemma program_mux_es: "mux_es program_mux = [(''/debug/pprof/'', PprofIndex)]"
  by (simp add: program_mux_def)

lemma redirect_iff: "shouldRedirect program_mux path \<longleftrightarrow> path = ''/debug/pprof''"
proof
  assume r: "shouldRedirect program_mux path"
  then have "path @ ''/'' \<in> fst ` set server_routes"
    by (auto simp: shouldRedirect_def program_mux_m map_of_eq_None_iff)
  then show "path = ''/debug/pprof''" by (auto simp: server_routes_def append_eq_Cons_conv)
qed (simp add: shouldRedirect_def program_mux_m server_routes_def ends_with_slash_def slash_def)

lemma match_route:
  "path \<noteq> ''/debug/pprof'' \<Longrightarrow>
   (case mux_match program_mux path of Some h \<Rightarrow> Handled h | None \<Rightarrow> PageNotFound) = route path"
  by (simp add: mux_match_def program_mux_m server_routes_def route_def program_mux_es has_prefix_def)

text \<open>
  C27: Registering the handlers does not panic, and a client that follows redirects gets, after at most
  one, what \<open>route\<close> says of the canonical path of its request: the metrics under \<^verbatim>\<open>/metrics\<close>, the command
  line, profile, symbol and trace handlers under exactly their four paths below \<^verbatim>\<open>/debug/pprof/\<close>, the
  index for everything else there and for \<^verbatim>\<open>/debug/pprof\<close> itself, and no page anywhere else.
\<close>

theorem requests_reach_their_handler:
  "\<exists>mux. server_mux = Ok mux \<and> (\<forall>path. follow 1 mux path = route (cleanPath path))"
proof -
  have idx: "mux_Handler program_mux False ''/debug/pprof/'' = route ''/debug/pprof''"
  proof -
    have "cleanPath ''/debug/pprof/'' = ''/debug/pprof/''" by code_simp
    then show ?thesis
      using match_route [of "''/debug/pprof/''"]
      by (simp add: mux_Handler_def redirect_iff) (simp add: route_def has_prefix_def)
  qed
  have "follow 1 program_mux path = route (cleanPath path)" for path
  proof (cases "cleanPath path = ''/debug/pprof''")
    case True
    then show ?thesis using idx by (simp add: mux_Handler_def redirect_iff)
  next
    case False
    then have r: "route (cleanPath path) \<noteq> Redirect q" for q
      by (simp add: route_def)
    have h: "mux_Handler program_mux False (cleanPath path) = route (cleanPath path)"
      using False match_route [OF False] by (simp add: mux_Handler_def redirect_iff cleanPath_idem)
    show ?thesis
    proof (cases "cleanPath path = path")
      case True
      then show ?thesis using h r by (cases "route (cleanPath path)") simp_all
    next
      case neq: False
      then have "mux_Handler program_mux False path = Redirect (cleanPath path)"
        using False by (simp add: mux_Handler_def redirect_iff)
      then show ?thesis using h by simp
    qed
  qed
  then show ?thesis using server_mux_Ok by blast
qed

end
