(* ===== verification/Flags.thy ===== *)
theory Flags
  imports Duration_Text
begin

text \<open>
  The command line of cli/cli.go: the flags that \<^verbatim>\<open>Main\<close> defines, their defaults, and the parsing of
  the standard library's \<^verbatim>\<open>flag\<close> and \<^verbatim>\<open>strconv\<close> packages, with the list flags of the type
  \<^verbatim>\<open>stringList\<close>.
\<close>

section \<open>The flags\<close>

record flags =
  fl_logLevel :: string
  fl_masterURL :: string
  fl_kubeconfig :: string
  fl_qps :: int
  fl_burst :: int
  fl_renderProviderName :: string
  fl_writeStatus :: bool
  fl_configFile :: string
  fl_renderOnly :: bool
  fl_oneOff :: bool
  fl_rendererFileDirectory :: string
  fl_rendererFileRollout :: string
  fl_rendererJsonnetJpaths :: "string list"
  fl_rendererJsonnetEntrypoint :: string
  fl_rendererJsonnetExtStrs :: "string list"
  fl_databaseConnectionsFile :: string
  fl_defaultDatabaseUrlFile :: string
  fl_sourceDatabaseFile :: string
  fl_triggerIntervalDuration :: duration
  fl_triggerResourceConfig :: string
  fl_triggerDatabaseConfig :: string

definition default_flags :: flags where
  "default_flags =
     \<lparr>fl_logLevel = ''info'', fl_masterURL = '''', fl_kubeconfig = '''', fl_qps = 5, fl_burst = 10,
      fl_renderProviderName = '''', fl_writeStatus = True, fl_configFile = '''', fl_renderOnly = False,
      fl_oneOff = False, fl_rendererFileDirectory = ''manifests/'',
      fl_rendererFileRollout = ''rollout.yaml'', fl_rendererJsonnetJpaths = [],
      fl_rendererJsonnetEntrypoint = ''jsonnet/main.jsonnet'', fl_rendererJsonnetExtStrs = [],
      fl_databaseConnectionsFile = '''', fl_defaultDatabaseUrlFile = '''', fl_sourceDatabaseFile = '''',
      fl_triggerIntervalDuration = 0, fl_triggerResourceConfig = '''', fl_triggerDatabaseConfig = ''''\<rparr>"

text \<open>A list flag appends (\<^verbatim>\<open>stringList.Set\<close>), and shows its values separated by commas.\<close>

definition stringList_Set :: "string list \<Rightarrow> string \<Rightarrow> string list" where
  "stringList_Set l v = l @ [v]"

fun stringList_String :: "string list \<Rightarrow> string" where
  "stringList_String [] = []"
| "stringList_String [s] = s"
| "stringList_String (s # ss) = s @ '','' @ stringList_String ss"

text \<open>The variable of a flag, by its kind.\<close>

datatype flag_var =
    StringVar "string \<Rightarrow> flags \<Rightarrow> flags"
  | IntVar "int \<Rightarrow> flags \<Rightarrow> flags"
  | BoolVar "bool \<Rightarrow> flags \<Rightarrow> flags"
  | DurationVar "duration \<Rightarrow> flags \<Rightarrow> flags"
  | ListVar "string \<Rightarrow> flags \<Rightarrow> flags"

definition formal :: "(string \<times> flag_var) list" where
  "formal =
     [(''log-level'', StringVar (\<lambda>v f. f\<lparr>fl_logLevel := v\<rparr>)),
      (''kubeconfig'', StringVar (\<lambda>v f. f\<lparr>fl_kubeconfig := v\<rparr>)),
      (''qps'', IntVar (\<lambda>v f. f\<lparr>fl_qps := v\<rparr>)),
      (''burst'', IntVar (\<lambda>v f. f\<lparr>fl_burst := v\<rparr>)),
      (''master'', StringVar (\<lambda>v f. f\<lparr>fl_masterURL := v\<rparr>)),
      (''renderer'', StringVar (\<lambda>v f. f\<lparr>fl_renderProviderName := v\<rparr>)),
      (''config-file'', StringVar (\<lambda>v f. f\<lparr>fl_configFile := v\<rparr>)),
      (''render-only'', BoolVar (\<lambda>v f. f\<lparr>fl_renderOnly := v\<rparr>)),
      (''one-off'', BoolVar (\<lambda>v f. f\<lparr>fl_oneOff := v\<rparr>)),
      (''database-connections-file'', StringVar (\<lambda>v f. f\<lparr>fl_databaseConnectionsFile := v\<rparr>)),
      (''default-database-url-file'', StringVar (\<lambda>v f. f\<lparr>fl_defaultDatabaseUrlFile := v\<rparr>)),
      (''renderer.file.dir'', StringVar (\<lambda>v f. f\<lparr>fl_rendererFileDirectory := v\<rparr>)),
      (''renderer.file.rollout'', StringVar (\<lambda>v f. f\<lparr>fl_rendererFileRollout := v\<rparr>)),
      (''renderer.jsonnet.entrypoint'', StringVar (\<lambda>v f. f\<lparr>fl_rendererJsonnetEntrypoint := v\<rparr>)),
      (''renderer.jsonnet.ext-str'', ListVar (\<lambda>v f.
         f\<lparr>fl_rendererJsonnetExtStrs := stringList_Set (fl_rendererJsonnetExtStrs f) v\<rparr>)),
      (''renderer.jsonnet.jpaths'', ListVar (\<lambda>v f.
         f\<lparr>fl_rendererJsonnetJpaths := stringList_Set (fl_rendererJsonnetJpaths f) v\<rparr>)),
      (''source.database.file'', StringVar (\<lambda>v f. f\<lparr>fl_sourceDatabaseFile := v\<rparr>)),
      (''trigger.interval.duration'', DurationVar (\<lambda>v f. f\<lparr>fl_triggerIntervalDuration := v\<rparr>)),
      (''trigger.resource.config'', StringVar (\<lambda>v f. f\<lparr>fl_triggerResourceConfig := v\<rparr>)),
      (''trigger.database.config'', StringVar (\<lambda>v f. f\<lparr>fl_triggerDatabaseConfig := v\<rparr>)),
      (''trigger.resource.write-status'', BoolVar (\<lambda>v f. f\<lparr>fl_writeStatus := v\<rparr>))]"

section \<open>Numbers and truth values\<close>

definition lower :: "char \<Rightarrow> char" where
  "lower c = char_of (Bit_Operations.or (of_char c) (32 :: nat))"

definition hex_val :: "char \<Rightarrow> nat option" where
  "hex_val c =
     (let l = (of_char (lower c) :: nat) in
      if is_digit c then Some (digit_val c)
      else if 97 \<le> l \<and> l \<le> 122 then Some (l - 97 + 10) else None)"

text \<open>\<^verbatim>\<open>underscoreOK\<close>: underscores only between digits; the base prefix counts as a digit.\<close>

datatype seen = SawStart | SawDigit | SawUnderscore | SawOther

fun underscores :: "bool \<Rightarrow> seen \<Rightarrow> string \<Rightarrow> bool" where
  "underscores hex saw [] = (saw \<noteq> SawUnderscore)"
| "underscores hex saw (c # s) =
     (if is_digit c \<or> hex \<and> 97 \<le> (of_char (lower c) :: nat) \<and> (of_char (lower c) :: nat) \<le> 102
      then underscores hex SawDigit s
      else if c = CHR ''_'' then (saw = SawDigit \<and> underscores hex SawUnderscore s)
      else if saw = SawUnderscore then False
      else underscores hex SawOther s)"

definition underscoreOK :: "string \<Rightarrow> bool" where
  "underscoreOK s0 =
     (let s = (case s0 of c # t \<Rightarrow> if c = CHR ''-'' \<or> c = CHR ''+'' then t else s0 | [] \<Rightarrow> []) in
      case s of
        z # b # t \<Rightarrow>
          (if z = CHR ''0'' \<and> lower b \<in> {CHR ''b'', CHR ''o'', CHR ''x''}
           then underscores (lower b = CHR ''x'') SawDigit t else underscores False SawStart s)
      | _ \<Rightarrow> underscores False SawStart s)"

text \<open>The digits of \<^verbatim>\<open>ParseUint\<close>, in any base up to 16 here; nothing when the value leaves 64 bits.\<close>

fun parse_digits :: "nat \<Rightarrow> nat \<Rightarrow> string \<Rightarrow> nat option" where
  "parse_digits base n [] = Some n"
| "parse_digits base n (c # s) =
     (if c = CHR ''_'' then parse_digits base n s
      else case hex_val c of
             None \<Rightarrow> None
           | Some d \<Rightarrow>
               (if base \<le> d \<or> 2 ^ 64 \<le> n * base + d then None else parse_digits base (n * base + d) s))"

text \<open>\<^verbatim>\<open>ParseUint(s, 0, 64)\<close>: the base is taken from the prefix.\<close>

definition parse_uint :: "string \<Rightarrow> nat option" where
  "parse_uint s =
     (let r = (case s of
                 z # b # t \<Rightarrow>
                   (if z \<noteq> CHR ''0'' then parse_digits 10 0 s
                    else if t \<noteq> [] \<and> lower b = CHR ''b'' then parse_digits 2 0 t
                    else if t \<noteq> [] \<and> lower b = CHR ''o'' then parse_digits 8 0 t
                    else if t \<noteq> [] \<and> lower b = CHR ''x'' then parse_digits 16 0 t
                    else parse_digits 8 0 (b # t))
               | [c] \<Rightarrow> (if c = CHR ''0'' then Some 0 else parse_digits 10 0 s)
               | [] \<Rightarrow> None)
      in if CHR ''_'' \<in> set s \<and> \<not> underscoreOK s then None else r)"

definition parse_int :: "string \<Rightarrow> int option" where
  "parse_int s =
     (let (neg, t) = (case s of c # t \<Rightarrow> if c = CHR ''-'' then (True, t) else if c = CHR ''+'' then (False, t)
                        else (False, s) | [] \<Rightarrow> (False, []))
      in case parse_uint t of
           None \<Rightarrow> None
         | Some n \<Rightarrow>
             (if \<not> neg \<and> 2 ^ 63 \<le> n then None else if neg \<and> 2 ^ 63 < n then None
              else Some (if neg then - int n else int n)))"

definition parse_bool :: "string \<Rightarrow> bool option" where
  "parse_bool s =
     (if s \<in> {''1'', ''t'', ''T'', ''true'', ''TRUE'', ''True''} then Some True
      else if s \<in> {''0'', ''f'', ''F'', ''false'', ''FALSE'', ''False''} then Some False else None)"

section \<open>Parsing the arguments\<close>

definition set_flag :: "(nat \<Rightarrow> nat \<Rightarrow> nat \<Rightarrow> nat) \<Rightarrow> flag_var \<Rightarrow> string \<Rightarrow> flags \<Rightarrow> flags option" where
  "set_flag frac var v f =
     (case var of
        StringVar assign \<Rightarrow> Some (assign v f)
      | ListVar assign \<Rightarrow> Some (assign v f)
      | IntVar assign \<Rightarrow> map_option (\<lambda>i. assign i f) (parse_int v)
      | BoolVar assign \<Rightarrow> map_option (\<lambda>b. assign b f) (parse_bool v)
      | DurationVar assign \<Rightarrow>
          (case ParseDuration frac v of Inl e \<Rightarrow> None | Inr d \<Rightarrow> Some (assign d f)))"

definition is_bool_var :: "flag_var \<Rightarrow> bool" where
  "is_bool_var var = (case var of BoolVar assign \<Rightarrow> True | _ \<Rightarrow> False)"

text \<open>The name and the value of \<open>name=value\<close>; the equals sign is not looked for at the front.\<close>

definition split_flag :: "string \<Rightarrow> string \<times> string option" where
  "split_flag s =
     (let n = takeWhile (\<lambda>c. c \<noteq> CHR ''='') (tl s); r = dropWhile (\<lambda>c. c \<noteq> CHR ''='') (tl s)
      in (hd s # n, if r = [] then None else Some (tl r)))"

text \<open>
  The flag set exits the process itself: with 0 after the help, with 2 after an error.
\<close>

datatype parse_result = Parsed flags | ExitHelp | ExitUsage

function parse_args :: "(nat \<Rightarrow> nat \<Rightarrow> nat \<Rightarrow> nat) \<Rightarrow> string list \<Rightarrow> flags \<Rightarrow> parse_result" where
  "parse_args frac [] f = Parsed f"
| "parse_args frac (s # args) f =
     (if length s < 2 \<or> hd s \<noteq> CHR ''-'' then Parsed f
      else if s = ''--'' then Parsed f
      else
        let rest = (if s ! 1 = CHR ''-'' then drop 2 s else drop 1 s) in
        if rest = [] \<or> hd rest = CHR ''-'' \<or> hd rest = CHR ''='' then ExitUsage
        else
          let (name, v) = split_flag rest in
          case map_of formal name of
            None \<Rightarrow> (if name = ''help'' \<or> name = ''h'' then ExitHelp else ExitUsage)
          | Some var \<Rightarrow>
              (if is_bool_var var then
                 (case set_flag frac var (case v of None \<Rightarrow> ''true'' | Some x \<Rightarrow> x) f of
                    None \<Rightarrow> ExitUsage | Some f' \<Rightarrow> parse_args frac args f')
               else case v of
                 Some x \<Rightarrow>
                   (case set_flag frac var x f of None \<Rightarrow> ExitUsage | Some f' \<Rightarrow> parse_args frac args f')
               | None \<Rightarrow>
                   (case args of
                      [] \<Rightarrow> ExitUsage
                    | x # args' \<Rightarrow>
                        (case set_flag frac var x f of
                           None \<Rightarrow> ExitUsage | Some f' \<Rightarrow> parse_args frac args' f'))))"
  by pat_completeness auto
termination
  by (relation "measure (\<lambda>(frac, args, f). length args)") auto

declare parse_args.simps(2) [simp del]

section \<open>Round trip\<close>

text \<open>Arguments that spell out every flag.\<close>

definition show_int :: "int \<Rightarrow> string" where
  "show_int i = (if i < 0 then CHR ''-'' # show_nat (nat (- i)) else show_nat (nat i))"

definition show_bool :: "bool \<Rightarrow> string" where
  "show_bool b = (if b then ''true'' else ''false'')"

definition flag_arg :: "string \<Rightarrow> string \<Rightarrow> string" where
  "flag_arg name v = ''-'' @ name @ ''='' @ v"

definition scalar_values :: "flags \<Rightarrow> (string \<times> string) list" where
  "scalar_values f =
     [(''log-level'', fl_logLevel f), (''kubeconfig'', fl_kubeconfig f),
      (''qps'', show_int (fl_qps f)), (''burst'', show_int (fl_burst f)),
      (''master'', fl_masterURL f), (''renderer'', fl_renderProviderName f),
      (''config-file'', fl_configFile f), (''render-only'', show_bool (fl_renderOnly f)),
      (''one-off'', show_bool (fl_oneOff f)),
      (''database-connections-file'', fl_databaseConnectionsFile f),
      (''default-database-url-file'', fl_defaultDatabaseUrlFile f),
      (''renderer.file.dir'', fl_rendererFileDirectory f),
      (''renderer.file.rollout'', fl_rendererFileRollout f),
      (''renderer.jsonnet.entrypoint'', fl_rendererJsonnetEntrypoint f),
      (''source.database.file'', fl_sourceDatabaseFile f),
      (''trigger.interval.duration'', duration_String (fl_triggerIntervalDuration f)),
      (''trigger.resource.config'', fl_triggerResourceConfig f),
      (''trigger.database.config'', fl_triggerDatabaseConfig f),
      (''trigger.resource.write-status'', show_bool (fl_writeStatus f))]"

definition to_args :: "flags \<Rightarrow> string list" where
  "to_args f =
     map (\<lambda>(n, v). flag_arg n v) (scalar_values f) @
     map (flag_arg ''renderer.jsonnet.ext-str'') (fl_rendererJsonnetExtStrs f) @
     map (flag_arg ''renderer.jsonnet.jpaths'') (fl_rendererJsonnetJpaths f)"

lemma digit_not_special: "is_digit c \<Longrightarrow> c \<noteq> CHR ''-'' \<and> c \<noteq> CHR ''+'' \<and> c \<noteq> CHR ''_''"
  by (auto simp: is_digit_def)

lemma parse_digits_show_nat:
  "n < 2 ^ 64 \<Longrightarrow> parse_digits 10 0 (show_nat n @ s) = parse_digits 10 n s"
proof (induction n arbitrary: s rule: show_nat.induct)
  case (1 n)
  have d: "parse_digits 10 m (char_of (48 + k) # t) = parse_digits 10 (m * 10 + k) t"
    if "k < 10" "m * 10 + k < 2 ^ 64" for m k :: nat and t
    using that is_digit_char_of [OF that(1)] digit_val_char_of [OF that(1)]
      digit_not_special [OF is_digit_char_of [OF that(1)]]
    by (simp add: hex_val_def Let_def not_le)
  show ?case
  proof (cases "n < 10")
    case True
    then show ?thesis using d [of n 0 s] by (subst show_nat.simps) simp
  next
    case False
    have "parse_digits 10 0 (show_nat n @ s) = parse_digits 10 (n div 10) (char_of (48 + n mod 10) # s)"
      using 1 False by (subst show_nat.simps) simp
    also have "\<dots> = parse_digits 10 n s" using d [of "n mod 10" "n div 10" s] "1.prems" by simp
    finally show ?thesis .
  qed
qed

lemma hd_show_nat_zero: "hd (show_nat n @ s) = CHR ''0'' \<longleftrightarrow> n = 0"
proof (induction n arbitrary: s rule: show_nat.induct)
  case (1 n)
  show ?case
  proof (cases "n < 10")
    case True
    have "char_of (48 + n) = CHR ''0'' \<longleftrightarrow> (of_char (char_of (48 + n) :: char) :: nat) = of_char (CHR ''0'')"
      by (simp only: of_char_eq_iff)
    then have "char_of (48 + n) = CHR ''0'' \<longleftrightarrow> n = 0" using True by simp
    then show ?thesis using True by (subst show_nat.simps) simp
  next
    case False
    then have "hd (show_nat n @ s) = hd (show_nat (n div 10) @ char_of (48 + n mod 10) # s)"
      by (subst show_nat.simps) simp
    then show ?thesis using 1 [OF False] False by simp
  qed
qed

lemma parse_uint_show_nat:
  assumes "n < 2 ^ 64"
  shows "parse_uint (show_nat n) = Some n"
proof (cases "n = 0")
  case True
  have "parse_uint (show_nat 0) = Some 0" by code_simp
  then show ?thesis using True by simp
next
  case False
  obtain c r where cr: "show_nat n = c # r" using show_nat_not_Nil by (cases "show_nat n") auto
  have c: "c \<noteq> CHR ''0''" using hd_show_nat_zero [of n "[]"] False cr by simp
  have u: "CHR ''_'' \<notin> set (show_nat n)" using show_nat_digits [of "CHR ''_''" n] by (auto simp: is_digit_def)
  have "parse_digits 10 0 (c # r) = Some n" using parse_digits_show_nat [OF assms, of "[]"] cr by simp
  then show ?thesis using c u cr by (cases r) (auto simp: parse_uint_def)
qed

lemma parse_int_show_int:
  assumes "- (2 ^ 63) \<le> i" "i < 2 ^ 63"
  shows "parse_int (show_int i) = Some i"
proof (cases "i < 0")
  case True
  then have "nat (- i) < 2 ^ 64" "\<not> 2 ^ 63 < nat (- i)" using assms by auto
  then show ?thesis using True parse_uint_show_nat [of "nat (- i)"] by (simp add: show_int_def parse_int_def)
next
  case False
  then have n: "nat i < 2 ^ 64" "\<not> 2 ^ 63 \<le> nat i" using assms by auto
  obtain c r where cr: "show_nat (nat i) = c # r" using show_nat_not_Nil by (cases "show_nat (nat i)") auto
  then have "c \<noteq> CHR ''-''" "c \<noteq> CHR ''+''" using show_nat_digits [of c "nat i"] digit_not_special by auto
  then show ?thesis using False n cr parse_uint_show_nat [of "nat i"] by (simp add: show_int_def parse_int_def)
qed

lemma parse_flag_arg:
  assumes "map_of formal name = Some var" "name \<noteq> []" "CHR ''='' \<notin> set name" "hd name \<noteq> CHR ''-''"
    and "set_flag frac var v f = Some f'"
  shows "parse_args frac (flag_arg name v # args) f = parse_args frac args f'"
proof -
  obtain c n where name: "name = c # n" using assms(2) by (cases name) auto
  then have c: "c \<noteq> CHR ''=''" using assms(3) by auto
  have "takeWhile (\<lambda>c. c \<noteq> CHR ''='') (n @ CHR ''='' # v) = n"
    "dropWhile (\<lambda>c. c \<noteq> CHR ''='') (n @ CHR ''='' # v) = CHR ''='' # v"
    using assms(3) name by (auto simp: takeWhile_append dropWhile_append)
  then have "split_flag (c # n @ CHR ''='' # v) = (name, Some v)" by (simp add: split_flag_def name)
  then show ?thesis
    using assms name c by (simp add: parse_args.simps(2) flag_arg_def Let_def)
qed

lemma formal_names:
  "list_all (\<lambda>n. n \<noteq> [] \<and> CHR ''='' \<notin> set n \<and> hd n \<noteq> CHR ''-'') (map fst formal)"
  by (simp add: formal_def)

fun apply_flags :: "(nat \<Rightarrow> nat \<Rightarrow> nat \<Rightarrow> nat) \<Rightarrow> (string \<times> string) list \<Rightarrow> flags \<Rightarrow> flags option" where
  "apply_flags frac [] f = Some f"
| "apply_flags frac ((n, v) # xs) f =
     (case map_of formal n of None \<Rightarrow> None
      | Some var \<Rightarrow> (case set_flag frac var v f of None \<Rightarrow> None | Some f' \<Rightarrow> apply_flags frac xs f'))"

lemma parse_apply_flags:
  "apply_flags frac xs f = Some f' \<Longrightarrow>
   parse_args frac (map (\<lambda>(n, v). flag_arg n v) xs @ args) f = parse_args frac args f'"
proof (induction frac xs f rule: apply_flags.induct)
  case (2 frac n v xs f)
  then obtain var f1 where m: "map_of formal n = Some var" "set_flag frac var v f = Some f1"
    and r: "apply_flags frac xs f1 = Some f'"
    by (auto split: option.splits)
  have "n \<in> set (map fst formal)" using m(1) map_of_None_iff_notin [of formal n] by simp
  then have n: "n \<noteq> []" "CHR ''='' \<notin> set n" "hd n \<noteq> CHR ''-''"
    using formal_names unfolding list_all_iff by blast+
  show ?case using parse_flag_arg [OF m(1) n m(2)] 2(1) [OF m r] by simp
qed simp

lemma parse_bool_show_bool: "parse_bool (show_bool b) = Some b"
  by (cases b) (simp_all add: show_bool_def parse_bool_def)

text \<open>
  C15: The command line can express every setting: for flags with any values (numbers within 64
  bits), the arguments that spell them out are parsed back to these flags, starting from the
  defaults, with the values of the list flags in their order.
\<close>

theorem flags_round_trip:
  assumes E: "frac_exact frac"
    and "- (2 ^ 63) \<le> fl_qps f" "fl_qps f < 2 ^ 63" "- (2 ^ 63) \<le> fl_burst f" "fl_burst f < 2 ^ 63"
  shows "parse_args frac (to_args f) default_flags = Parsed f"
proof -
  have d: "ParseDuration frac (duration_String x) = Inr x" for x
    by (rule ParseDuration_String [OF E])
  have i: "parse_int (show_int (fl_qps f)) = Some (fl_qps f)" "parse_int (show_int (fl_burst f)) = Some (fl_burst f)"
    using assms by (simp_all add: parse_int_show_int)
  let ?f0 = "f\<lparr>fl_rendererJsonnetExtStrs := [], fl_rendererJsonnetJpaths := []\<rparr>"
  let ?f1 = "f\<lparr>fl_rendererJsonnetJpaths := []\<rparr>"
  have scalars: "apply_flags frac (scalar_values f) default_flags = Some ?f0"
    by (simp add: scalar_values_def formal_def set_flag_def d i parse_bool_show_bool default_flags_def)
  have exts: "apply_flags frac (map (\<lambda>v. (''renderer.jsonnet.ext-str'', v)) vs) g =
      Some (g\<lparr>fl_rendererJsonnetExtStrs := fl_rendererJsonnetExtStrs g @ vs\<rparr>)" for vs g
    by (induction vs arbitrary: g) (simp_all add: formal_def set_flag_def stringList_Set_def)
  have jpaths: "apply_flags frac (map (\<lambda>v. (''renderer.jsonnet.jpaths'', v)) vs) g =
      Some (g\<lparr>fl_rendererJsonnetJpaths := fl_rendererJsonnetJpaths g @ vs\<rparr>)" for vs g
    by (induction vs arbitrary: g) (simp_all add: formal_def set_flag_def stringList_Set_def)
  have m: "map (flag_arg n) vs = map (\<lambda>(n, v). flag_arg n v) (map (\<lambda>v. (n, v)) vs)" for n vs
    by simp
  show ?thesis
    using parse_apply_flags [OF scalars]
      parse_apply_flags [OF exts [where g = ?f0 and vs = "fl_rendererJsonnetExtStrs f"]]
      parse_apply_flags [OF jpaths [where g = ?f1 and vs = "fl_rendererJsonnetJpaths f"], of "[]"]
    unfolding to_args_def m by simp
qed

theorem flags_round_trip_witness:
  "parse_args (\<lambda>f unit n. f * (unit div 10 ^ n))
     (to_args (default_flags\<lparr>fl_qps := - 7, fl_oneOff := True, fl_rendererJsonnetExtStrs := [''a=b'', ''a=c'']\<rparr>))
     default_flags =
   Parsed (default_flags\<lparr>fl_qps := - 7, fl_oneOff := True, fl_rendererJsonnetExtStrs := [''a=b'', ''a=c'']\<rparr>)"
  by (rule flags_round_trip) (simp_all add: frac_exact_def default_flags_def)

section \<open>The README\<close>

text \<open>
  The README starts the program with \<^verbatim>\<open>--trigger=oneoff\<close>. There is no such flag: the flag set exits with
  the usage.
\<close>

lemma readme_trigger_flag_is_refused:
  "parse_args frac [''--renderer=file'', ''--trigger=oneoff'', ''--render-only''] default_flags = ExitUsage"
  by (simp add: parse_args.simps(2) split_flag_def formal_def is_bool_var_def set_flag_def)

end
