(* ===== verification/Cli.thy ===== *)
theory Cli
  imports Flags Http Renderers_Props DbTrigger ResTrigger
begin

text \<open>
  The program of cli/cli.go: how \<^verbatim>\<open>Main\<close> puts the components together from the flags, and its exit
  code. The API client libraries, the decoders of the configuration files, the listener, and the
  group of \<^verbatim>\<open>oklog/run\<close> that runs the actors are parameters.
\<close>

section \<open>Parameters and results\<close>

record 'w cli_lib =
  cli_BuildConfig :: "string \<Rightarrow> string \<Rightarrow> ('w, rest_config) eff"
  cli_NewClientset :: "rest_config \<Rightarrow> int \<Rightarrow> int \<Rightarrow> go_error + unit"
  cli_FromUnstructured :: "obj \<Rightarrow> go_error + serviceAccountMeta"
  cli_Listen :: "('w, unit) eff"
  cli_F :: "'w fslib"
  cli_tree :: "string \<Rightarrow> 'w \<Rightarrow> fsnode"
  cli_V :: "'w jsonnet_vm"
  cli_D :: "(row list \<times> 'w) dblib"
  cli_X :: "'w txlib"
  cli_compile :: "string \<Rightarrow> go_error + regex"
  cli_labels :: "(string \<times> string) list \<Rightarrow> string"
  cli_stored :: "informer \<Rightarrow> 'w \<Rightarrow> obj list"
  cli_marshalList :: "obj list \<Rightarrow> go_error + string"
  cli_decodeResources :: "string \<Rightarrow> go_error + resourcesTriggerConfig"
  cli_decodeConnections :: "string \<Rightarrow> go_error + connectionConfig list"
  cli_decodeQueries :: "string \<Rightarrow> go_error + databaseSourceConfigQuery list"
  cli_decodeTriggers :: "string \<Rightarrow> go_error + triggerConfig list"
  cli_decodeObject :: "string \<Rightarrow> go_error + obj"
  cli_decodeRollout :: "string \<Rightarrow> go_error + rollout"

datatype trigger =
    ResourceTrigger resource_trigger
  | IntervalTrigger duration
  | DatabaseTrigger "triggerConfig list" db_trigger
  | OneOffTrigger

datatype actor = ServerActor | TriggerActor trigger | SignalActor

record 'w program =
  pg_connections :: "connections option"
  pg_sources :: "string \<rightharpoonup> 'w source"
  pg_runner :: "'w runner"
  pg_triggers :: "trigger list"
  pg_register :: "'w proc executionRegister"  \<comment> \<open>what is registered with each trigger\<close>
  pg_mux :: serveMux  \<comment> \<open>what the server's actor serves\<close>
  pg_actors :: "actor list"

section \<open>The logger\<close>

datatype log_filter = AllowAll | AllowDebug | AllowInfo | AllowWarn | AllowError | AllowNone

definition logger :: "string \<Rightarrow> go_error + log_filter" where
  "logger logLevel =
     (if logLevel = ''all'' then Inr AllowAll
      else if logLevel = ''debug'' then Inr AllowDebug
      else if logLevel = ''info'' then Inr AllowInfo
      else if logLevel = ''warn'' then Inr AllowWarn
      else if logLevel = ''error'' then Inr AllowError
      else if logLevel = ''none'' then Inr AllowNone
      else Inl (LogLevelUnknown logLevel))"

section \<open>Setting up\<close>

text \<open>
  The collectors of the Go runtime and of the process are registered first, each under a name that
  stands for its metrics. The handler of the metrics page registers its own, and uses the metrics of
  these names when there are any.
\<close>

definition setup_registry :: "'w env \<Rightarrow> ('w, unit) io" where
  "setup_registry E w = must_register (e_D E) [''go_collector'', ''process_collector''] w"

definition InstrumentMetricHandler :: "'w env \<Rightarrow> 'w \<Rightarrow> 'w" where
  "InstrumentMetricHandler E w =
     snd (dl_Register (e_D E) ''promhttp_metric_handler_requests_in_flight''
       (snd (dl_Register (e_D E) ''promhttp_metric_handler_requests_total'' w)))"

text \<open>
  Each part of \<^verbatim>\<open>Main\<close> that can fail logs its error and ends the process with 1; here the error is
  returned. The Kubernetes client gets the default preparations and checks.
\<close>

definition setup_client :: "'w cli_lib \<Rightarrow> flags \<Rightarrow> ('w, client) io" where
  "setup_client L f w =
     andThen (lib (cli_BuildConfig L (fl_masterURL f) (fl_kubeconfig f) w)) (\<lambda>konfig w1.
     andThen (of_sum (cli_NewClientset L konfig (fl_qps f) (fl_burst f)), w1) (\<lambda>_ w2.
       (Ok (SetUpdateChecks (SetUpdatePreparations (NewClient konfig) DefaultUpdatePreparations)
          (DefaultUpdateChecks (cli_FromUnstructured L))), w2)))"

definition add_sources :: "(string \<times> 'w source) list \<Rightarrow> (string \<rightharpoonup> 'w source) \<Rightarrow> string \<rightharpoonup> 'w source" where
  "add_sources xs sources = foldl (\<lambda>m (name, sourceFunc). m(name \<mapsto> sourceFunc)) sources xs"

definition informer_source :: "'w cli_lib \<Rightarrow> informer \<Rightarrow> 'w source" where
  "informer_source L i w = lib (marshalInformerFunc (cli_stored L) (cli_marshalList L) i w)"

definition setup_resource ::
  "'w env \<Rightarrow> 'w cli_lib \<Rightarrow> flags \<Rightarrow> client \<Rightarrow> ('w, trigger list \<times> (string \<rightharpoonup> 'w source)) io" where
  "setup_resource E L f cl w =
     (if fl_triggerResourceConfig f = '''' then (Ok ([], Map.empty), w)
      else andThen (NewResourceTrigger (e_K E) cl (cli_F L) (cli_decodeResources L) (cli_compile L)
             (cli_labels L) (fl_triggerResourceConfig f) (fl_writeStatus f) w) (\<lambda>t w1.
           (Ok ([ResourceTrigger t],
              add_sources (Resource_InputSources (informer_source L) t) Map.empty), w1)))"

definition setup_connections :: "'w env \<Rightarrow> 'w cli_lib \<Rightarrow> flags \<Rightarrow> ('w, connections option) io" where
  "setup_connections E L f w =
     (if fl_databaseConnectionsFile f = '''' then (Ok None, w)
      else andThen (FromFile (e_D E) (cli_F L) (cli_decodeConnections L) (fl_databaseConnectionsFile f)
             (fl_defaultDatabaseUrlFile f) w) (\<lambda>conns w1. (Ok (Some conns), w1)))"

definition setup_sources ::
  "'w cli_lib \<Rightarrow> flags \<Rightarrow> connections option \<Rightarrow> (string \<rightharpoonup> 'w source) \<Rightarrow> ('w, string \<rightharpoonup> 'w source) io" where
  "setup_sources L f conns sources w =
     (if fl_sourceDatabaseFile f = '''' then (Ok sources, w)
      else andThen (NewDatabaseSources (cli_F L) (cli_decodeQueries L) conns (fl_sourceDatabaseFile f) w)
             (\<lambda>s w1.
           andThen (DatabaseSources_InputSources (cli_D L) (cli_X L) s, w1) (\<lambda>databaseSources w2.
             (Ok (sources ++ databaseSources), w2))))"

definition setup_database :: "'w cli_lib \<Rightarrow> flags \<Rightarrow> ('w, trigger list) io" where
  "setup_database L f w =
     (if fl_triggerDatabaseConfig f = '''' then (Ok [], w)
      else andThen (NewDbTrigger (cli_F L) (cli_decodeTriggers L) (fl_triggerDatabaseConfig f) w)
             (\<lambda>(config, t) w1. (Ok [DatabaseTrigger config t], w1)))"

definition setup_renderer ::
  "'w cli_lib \<Rightarrow> flags \<Rightarrow> (string \<rightharpoonup> 'w source) \<Rightarrow> (string \<Rightarrow> ('w, render_result) io) outcome" where
  "setup_renderer L f sources =
     (if fl_renderProviderName f = ''jsonnet'' then
        (case jsonnet_NewRenderer (fl_rendererJsonnetEntrypoint f) sources (fl_rendererJsonnetExtStrs f)
                (fl_rendererJsonnetJpaths f) of
           Inl e \<Rightarrow> Err e
         | Inr r \<Rightarrow> Ok (jsonnet_Render (cli_F L) (cli_V L) r))
      else if fl_renderProviderName f = ''file'' then
        Ok (file_Render (cli_tree L) (cli_F L) (cli_decodeObject L) (cli_decodeRollout L)
              (file_NewRenderer (fl_rendererFileDirectory f) (fl_rendererFileRollout f)))
      else Err RenderProviderNotFound)"

text \<open>The file system seen by an execution, whose state also has the metrics.\<close>

definition proc_files :: "'w fslib \<Rightarrow> 'w proc fslib" where
  "proc_files F =
     \<lparr>fs_ReadFile = (\<lambda>path p.
        (let (x, w) = fs_ReadFile F path (pr_world p) in (x, p\<lparr>pr_world := w\<rparr>)))\<rparr>"

text \<open>
  The loop that adds an actor for each trigger. An iteration assigns the loop variable, of which there is
  one with the Go version of the repository; the closure of the actor reads it when the group runs, which
  is after the loop.
\<close>

fun actor_loop ::
  "trigger list \<Rightarrow> trigger option \<times> (trigger option \<Rightarrow> actor option) list \<Rightarrow>
     trigger option \<times> (trigger option \<Rightarrow> actor option) list" where
  "actor_loop [] st = st"
| "actor_loop (t # ts) (var, actors) = actor_loop ts (Some t, actors @ [map_option TriggerActor])"

definition trigger_actors :: "trigger list \<Rightarrow> actor list" where
  "trigger_actors triggers =
     (let (var, actors) = actor_loop triggers (None, []) in List.map_filter (\<lambda>actor. actor var) actors)"

definition setup_runner ::
  "'w env \<Rightarrow> 'w cli_lib \<Rightarrow> flags \<Rightarrow> client \<Rightarrow> connections option \<Rightarrow> (string \<rightharpoonup> 'w source) \<Rightarrow>
     ('w, 'w runner) io" where
  "setup_runner E L f cl conns sources w =
     andThen (setup_renderer L f sources, w) (\<lambda>renderer w1.
     andThen (of_sum (NewChecks cl conns (DefaultChecks (e_U E) (e_K E))), w1) (\<lambda>c w2.
     andThen (NewRunner (e_D E) cl renderer c (fl_renderOnly f) w2) (\<lambda>runner w3.
       (Ok (SetObjectActions runner DefaultObjectActions), w3))))"

definition setup_triggers ::
  "flags \<Rightarrow> trigger list \<Rightarrow> trigger list \<Rightarrow> trigger list" where
  "setup_triggers f resource database =
     (let triggers =
            resource @
            (if 0 < fl_triggerIntervalDuration f then [IntervalTrigger (fl_triggerIntervalDuration f)] else []) @
            database
      in if fl_oneOff f then [OneOffTrigger] else triggers)"

definition assemble :: "'w env \<Rightarrow> 'w cli_lib \<Rightarrow> flags \<Rightarrow> ('w, 'w program) io" where
  "assemble E L f w =
     andThen (of_sum (logger (fl_logLevel f)), w) (\<lambda>_ w.
     andThen (setup_registry E w) (\<lambda>_ w0.
     andThen (setup_client L f w0) (\<lambda>cl w1.
     andThen (setup_resource E L f cl w1) (\<lambda>(resource, sources) w2.
     andThen (setup_connections E L f w2) (\<lambda>conns w3.
     andThen (setup_sources L f conns sources w3) (\<lambda>sources w4.
     andThen (setup_database L f w4) (\<lambda>database w5.
       let triggers = setup_triggers f resource database in
       if triggers = [] then (Err NoTriggersConfigured, w5)
       else
         andThen (setup_runner E L f cl conns sources w5) (\<lambda>runner w6.
         andThen (server_mux, InstrumentMetricHandler E w6) (\<lambda>mux w7.
         andThen (lib (cli_Listen L w7)) (\<lambda>_ w8.
           (Ok \<lparr>pg_connections = conns, pg_sources = sources, pg_runner = runner, pg_triggers = triggers,
                pg_register = Register [] (FileConfigPasser_Execute (proc_files (cli_F L))
                   (NewFileConfigPasser (fl_configFile f) (Execute E runner))),
                pg_mux = mux,
                pg_actors = ServerActor # trigger_actors triggers @ [SignalActor]\<rparr>, w8)))))))))))"

section \<open>The exit code\<close>

text \<open>
  \<open>rungroup\<close> runs the actors of the program. A command line that does not parse ends the process in
  the flag package.
\<close>

definition Main ::
  "'w env \<Rightarrow> 'w cli_lib \<Rightarrow> (nat \<Rightarrow> nat \<Rightarrow> nat \<Rightarrow> nat) \<Rightarrow> ('w program \<Rightarrow> ('w, unit) io) \<Rightarrow> string list \<Rightarrow>
     ('w, nat) io" where
  "Main E L frac rungroup args w =
     (case parse_args frac args default_flags of
        ExitHelp \<Rightarrow> (Ok 0, w)
      | ExitUsage \<Rightarrow> (Ok 2, w)
      | Parsed f \<Rightarrow>
          (case assemble E L f w of
             (Err e, w1) \<Rightarrow> (Ok 1, w1)
           | (Panic p, w1) \<Rightarrow> (Panic p, w1)
           | (Diverge, w1) \<Rightarrow> (Diverge, w1)
           | (Ok program, w1) \<Rightarrow>
               (case rungroup program w1 of
                  (Ok _, w2) \<Rightarrow> (Ok 0, w2)
                | (Err e, w2) \<Rightarrow> (Ok 1, w2)
                | (Panic p, w2) \<Rightarrow> (Panic p, w2)
                | (Diverge, w2) \<Rightarrow> (Diverge, w2))))"

end
