(* ===== verification/Cli_Props.thy ===== *)
theory Cli_Props
  imports Cli Client_Props
begin

text \<open>
  What \<^verbatim>\<open>Main\<close> puts together: the runner that the properties of the other theories are about, the
  triggers that run, the dynamic imports, the one-off rollout, and the exit code.
\<close>

section \<open>A program that was set up\<close>

lemma assemble_Ok:
  assumes "assemble E L f w = (Ok prog, w')"
  shows "\<exists>lvl cl res src0 conns src db runner w0 w1 w2 w3 w4 w5 w6.
    logger (fl_logLevel f) = Inr lvl \<and> setup_registry E w = (Ok (), w0) \<and> setup_client L f w0 = (Ok cl, w1) \<and>
    setup_resource E L f cl w1 = (Ok (res, src0), w2) \<and> setup_connections E L f w2 = (Ok conns, w3) \<and>
    setup_sources L f conns src0 w3 = (Ok src, w4) \<and> setup_database L f w4 = (Ok db, w5) \<and>
    setup_triggers f res db \<noteq> [] \<and> setup_runner E L f cl conns src w5 = (Ok runner, w6) \<and>
    prog = \<lparr>pg_connections = conns, pg_sources = src, pg_runner = runner,
      pg_triggers = setup_triggers f res db,
      pg_register = Register [] (FileConfigPasser_Execute (proc_files (cli_F L))
         (NewFileConfigPasser (fl_configFile f) (Execute E runner))),
      pg_mux = program_mux, pg_actors = ServerActor # trigger_actors (setup_triggers f res db) @ [SignalActor]\<rparr>"
  using assms
  by (auto simp: assemble_def andThen_Ok_iff Let_def server_mux_Ok split: if_splits prod.splits)

lemma setup_client_Ok:
  assumes "setup_client L f w = (Ok cl, w')"
  shows "cl_updatePreparations cl = DefaultUpdatePreparations \<and>
    cl_updateChecks cl = DefaultUpdateChecks (cli_FromUnstructured L)"
  using assms
  by (auto simp: setup_client_def andThen_Ok_iff SetUpdateChecks_def SetUpdatePreparations_def)

lemma setup_runner_Ok:
  assumes "setup_runner E L f cl conns src w = (Ok r, w')"
  shows "\<exists>render c. setup_renderer L f src = Ok render \<and> NewChecks cl conns (DefaultChecks (e_U E) (e_K E)) = Inr c \<and>
    r = SetObjectActions \<lparr>rn_client = cl, rn_actions = Map.empty, rn_checks = c, rn_provider = render,
      rn_renderOnly = fl_renderOnly f\<rparr> DefaultObjectActions"
  using assms by (auto simp: setup_runner_def andThen_Ok_iff NewRunner_def)

lemma SetObjectActions_simps [simp]:
  "rn_client (SetObjectActions r as) = rn_client r" "rn_checks (SetObjectActions r as) = rn_checks r"
  "rn_provider (SetObjectActions r as) = rn_provider r" "rn_renderOnly (SetObjectActions r as) = rn_renderOnly r"
  by (simp_all add: SetObjectActions_def)

lemma assembled_runner:
  assumes "assemble E L f w = (Ok prog, w')"
  shows "wired (pg_runner prog) \<and>
    cl_updateChecks (rn_client (pg_runner prog)) = DefaultUpdateChecks (cli_FromUnstructured L) \<and>
    rn_checks (pg_runner prog) =
      \<lparr>cks_client = rn_client (pg_runner prog), cks_databaseConnections = pg_connections prog,
       cks_knownChecks = [''JobOOMKilled'' \<mapsto> JobOOMKilledCheck (e_U E) (e_K E)]\<rparr> \<and>
    rn_renderOnly (pg_runner prog) = fl_renderOnly f"
proof -
  obtain cl w0 w1 conns src runner w5 w6 where cl: "setup_client L f w0 = (Ok cl, w1)"
    and r: "setup_runner E L f cl conns src w5 = (Ok runner, w6)"
    and prog: "pg_runner prog = runner" "pg_connections prog = conns"
    using assemble_Ok [OF assms] by auto
  have cl': "cl_updatePreparations cl = DefaultUpdatePreparations"
    "cl_updateChecks cl = DefaultUpdateChecks (cli_FromUnstructured L)"
    using setup_client_Ok [OF cl] by simp_all
  obtain render c where c: "NewChecks cl conns (DefaultChecks (e_U E) (e_K E)) = Inr c"
    and run: "runner = SetObjectActions \<lparr>rn_client = cl, rn_actions = Map.empty, rn_checks = c,
      rn_provider = render, rn_renderOnly = fl_renderOnly f\<rparr> DefaultObjectActions"
    using setup_runner_Ok [OF r] by blast
  have "wired runner" unfolding run using cl' by (intro wired_default) simp_all
  moreover have "c = \<lparr>cks_client = cl, cks_databaseConnections = conns,
      cks_knownChecks = [''JobOOMKilled'' \<mapsto> JobOOMKilledCheck (e_U E) (e_K E)]\<rparr>"
    using c by (simp add: NewChecks_def DefaultChecks_def JobOOMKilledCheck_def)
  ultimately show ?thesis using prog cl' by (simp add: run)
qed

text \<open>
  The runner of a program that was set up is the one that the theorems on actions, updates and
  checks are about: it has the default actions and no others, and its client the default update
  preparations and checks; its only failure check is the one of jobs, its checks use the same
  client and the configured database connections.
\<close>

theorem program_is_wired:
  assumes "assemble E L f w = (Ok prog, w')"
  shows "wired (pg_runner prog) \<and>
    cl_updateChecks (rn_client (pg_runner prog)) = DefaultUpdateChecks (cli_FromUnstructured L) \<and>
    rn_checks (pg_runner prog) =
      \<lparr>cks_client = rn_client (pg_runner prog), cks_databaseConnections = pg_connections prog,
       cks_knownChecks = [''JobOOMKilled'' \<mapsto> JobOOMKilledCheck (e_U E) (e_K E)]\<rparr> \<and>
    rn_renderOnly (pg_runner prog) = fl_renderOnly f"
  using assembled_runner [OF assms] .

section \<open>The triggers\<close>

lemma setup_resource_Ok:
  assumes "setup_resource E L f cl w = (Ok (res, src), w')"
  shows "(fl_triggerResourceConfig f = '''' \<longrightarrow> res = [] \<and> src = Map.empty) \<and>
    (fl_triggerResourceConfig f \<noteq> '''' \<longrightarrow> (\<exists>t. res = [ResourceTrigger t] \<and>
       NewResourceTrigger (e_K E) cl (cli_F L) (cli_decodeResources L) (cli_compile L)
         (cli_labels L) (fl_triggerResourceConfig f) (fl_writeStatus f) w = (Ok t, w') \<and>
       src = add_sources (Resource_InputSources (informer_source L) t) Map.empty))"
  using assms by (auto simp: setup_resource_def andThen_Ok_iff split: if_splits)

lemma setup_database_Ok:
  assumes "setup_database L f w = (Ok db, w')"
  shows "(fl_triggerDatabaseConfig f = '''' \<longrightarrow> db = []) \<and>
    (fl_triggerDatabaseConfig f \<noteq> '''' \<longrightarrow> (\<exists>config t. db = [DatabaseTrigger config t]))"
  using assms by (auto simp: setup_database_def andThen_Ok_iff split: if_splits prod.splits)

lemma configured_resource_trigger:
  assumes res: "setup_resource E L f cl w1 = (Ok (res, src0), w2)" and db: "setup_database L f w4 = (Ok db, w5)"
    and t: "ResourceTrigger t \<in> set (setup_triggers f res db)"
  shows "NewResourceTrigger (e_K E) cl (cli_F L) (cli_decodeResources L) (cli_compile L)
      (cli_labels L) (fl_triggerResourceConfig f) (fl_writeStatus f) w1 = (Ok t, w2)"
    and "src0 = add_sources (Resource_InputSources (informer_source L) t) Map.empty"
proof -
  have "ResourceTrigger t \<in> set res"
    using t setup_database_Ok [OF db]
    by (cases "fl_triggerDatabaseConfig f = ''''") (auto simp: setup_triggers_def Let_def split: if_splits)
  then have "NewResourceTrigger (e_K E) cl (cli_F L) (cli_decodeResources L) (cli_compile L)
      (cli_labels L) (fl_triggerResourceConfig f) (fl_writeStatus f) w1 = (Ok t, w2) \<and>
      src0 = add_sources (Resource_InputSources (informer_source L) t) Map.empty"
    using setup_resource_Ok [OF res] by (cases "fl_triggerResourceConfig f = ''''") auto
  then show "NewResourceTrigger (e_K E) cl (cli_F L) (cli_decodeResources L) (cli_compile L)
      (cli_labels L) (fl_triggerResourceConfig f) (fl_writeStatus f) w1 = (Ok t, w2)"
    and "src0 = add_sources (Resource_InputSources (informer_source L) t) Map.empty" by blast+
qed

lemma actor_loop_eq:
  "actor_loop ts (var, as) =
    (if ts = [] then var else Some (last ts), as @ replicate (length ts) (map_option TriggerActor))"
  by (induction ts arbitrary: var as) auto

lemma trigger_actors_eq: "trigger_actors ts = replicate (length ts) (TriggerActor (last ts))"
proof -
  have "List.map_filter (\<lambda>a. a (Some t)) (replicate n (map_option TriggerActor)) = replicate n (TriggerActor t)" for n t
    by (induction n) (simp_all add: map_filter_simps)
  then show ?thesis by (cases "ts = []") (simp_all add: trigger_actors_def actor_loop_eq map_filter_simps)
qed

text \<open>
  C10: Of several configured triggers only the last in the order resource, interval, database is ever
  run, once for each configured trigger: the loop that starts them captures its variable. A one-off
  run replaces them all.
\<close>

theorem only_the_last_trigger_runs:
  assumes "assemble E L f w = (Ok prog, w')"
  shows "\<exists>t. pg_actors prog = ServerActor # replicate (length (pg_triggers prog)) (TriggerActor t) @ [SignalActor] \<and>
    pg_triggers prog \<noteq> [] \<and>
    (if fl_oneOff f then t = OneOffTrigger \<and> pg_triggers prog = [OneOffTrigger]
     else if fl_triggerDatabaseConfig f \<noteq> '''' then \<exists>config d. t = DatabaseTrigger config d
     else if 0 < fl_triggerIntervalDuration f then t = IntervalTrigger (fl_triggerIntervalDuration f)
     else \<exists>r. t = ResourceTrigger r)"
proof -
  obtain cl res src0 db w1 w2 w4 w5 where res: "setup_resource E L f cl w1 = (Ok (res, src0), w2)"
    and db: "setup_database L f w4 = (Ok db, w5)" and ne: "setup_triggers f res db \<noteq> []"
    and prog: "pg_triggers prog = setup_triggers f res db"
      "pg_actors prog = ServerActor # trigger_actors (setup_triggers f res db) @ [SignalActor]"
    using assemble_Ok [OF assms] by auto
  show ?thesis
    using setup_resource_Ok [OF res] setup_database_Ok [OF db] ne
    by (intro exI [of _ "last (pg_triggers prog)"]) (auto simp: prog trigger_actors_eq setup_triggers_def Let_def)
qed

section \<open>Dynamic imports\<close>

lemma new_informers_distinct:
  "new_informers K cl compile labels rs var infs w = (Ok (var', infs'), w') \<Longrightarrow> distinct (map fst infs) \<Longrightarrow>
   distinct (map fst infs')"
proof (induction rs arbitrary: var infs w)
  case (Cons r rs)
  from Cons.prems(1) obtain c ts w1 where r: "new_informers K cl compile labels rs (Some r)
      (AList.update (rs_Name r) \<lparr>inf_client = c, inf_selector = list_selector labels, inf_handlers = ts\<rparr> infs) w1 =
        (Ok (var', infs'), w')"
    by (rule new_informers_ConsE)
  show ?case by (rule Cons.IH [OF r]) (simp add: Cons.prems(2) distinct_update)
qed simp

lemma NewResourceTrigger_distinct:
  assumes "NewResourceTrigger K cl F decode compile labels path writeStatus w = (Ok t, w')"
  shows "distinct (map fst (rg_infs t))"
  using assms new_informers_distinct
  by (fastforce simp: NewResourceTrigger_def Let_def andThen_Ok_iff split: prod.splits sum.splits)

lemma add_sources_distinct:
  "distinct (map fst xs) \<Longrightarrow> (k, s) \<in> set xs \<Longrightarrow> add_sources xs m k = Some s"
proof -
  have other: "k \<notin> fst ` set xs \<Longrightarrow> add_sources xs m k = m k" for xs m
    by (induction xs arbitrary: m) (auto simp: add_sources_def)
  show "distinct (map fst xs) \<Longrightarrow> (k, s) \<in> set xs \<Longrightarrow> add_sources xs m k = Some s"
  proof (induction xs arbitrary: m)
    case (Cons x xs)
    obtain n t where x: "x = (n, t)" by (cases x)
    have step: "add_sources (x # xs) m = add_sources xs (m(n \<mapsto> t))" by (simp add: add_sources_def x)
    show ?case
    proof (cases "(k, s) = x")
      case True
      then have "k \<notin> fst ` set xs" using Cons.prems(1) x by simp
      then show ?thesis using other [of xs "m(n \<mapsto> t)"] True x step by simp
    qed (use Cons step x in auto)
  qed simp
qed

lemma informer_import:
  assumes "NewResourceTrigger K cl F decode compile labels path writeStatus w = (Ok t, w')"
    and "(n, i) \<in> set (rg_infs t)"
  shows "add_sources (Resource_InputSources src t) Map.empty (n @ ''/list'') = Some (src i)"
proof (rule add_sources_distinct)
  have "distinct (map (\<lambda>n. n @ ''/list'') (map fst (rg_infs t)))"
    using NewResourceTrigger_distinct [OF assms(1)] unfolding distinct_map [of _ "map fst (rg_infs t)"]
    by (simp add: inj_on_def)
  then show "distinct (map fst (Resource_InputSources src t))"
    by (simp add: Resource_InputSources_def case_prod_beta comp_def)
  show "(n @ ''/list'', src i) \<in> set (Resource_InputSources src t)"
    using assms(2) by (force simp: Resource_InputSources_def)
qed

text \<open>
  C23: In a program with the Jsonnet renderer, a manifest that imports
  \<open>locutus-runtime/<name>/list\<close> gets the JSON of the objects stored by the informer of that name, as
  they are at the moment of the import, and one that imports \<open>generic-operator/config\<close> gets the
  configuration of the execution (without database sources, which could take the name).
\<close>

theorem dynamic_imports:
  assumes prog: "assemble E L f w = (Ok prog, w')" and jsonnet: "fl_renderProviderName f = ''jsonnet''"
    and no_db: "fl_sourceDatabaseFile f = ''''"
    and t: "ResourceTrigger t \<in> set (pg_triggers prog)" and i: "(n, i) \<in> set (rg_infs t)"
    and json: "cli_marshalList L (cli_stored L i v) = Inr stored"
  shows "\<exists>r. rn_provider (pg_runner prog) = jsonnet_Render (cli_F L) (cli_V L) r \<and>
    Import fi (jn_sources r) config dir (''locutus-runtime/'' @ n @ ''/list'') v =
      (Ok (stored, ''locutus-runtime/'' @ n @ ''/list''), v) \<and>
    Import fi (jn_sources r) config dir ''generic-operator/config'' v =
      (Ok (config, ''generic-operator/config''), v)"
proof -
  obtain cl res src0 conns src db runner w1 w2 w3 w4 w5 w6 where
      res: "setup_resource E L f cl w1 = (Ok (res, src0), w2)"
    and src: "setup_sources L f conns src0 w3 = (Ok src, w4)" and db: "setup_database L f w4 = (Ok db, w5)"
    and r: "setup_runner E L f cl conns src w5 = (Ok runner, w6)"
    and p: "pg_runner prog = runner" "pg_triggers prog = setup_triggers f res db"
    using assemble_Ok [OF prog] by auto
  have "src = src0" using src no_db by (simp add: setup_sources_def)
  obtain render c where "setup_renderer L f src = Ok render"
    and prov: "rn_provider runner = render"
    using setup_runner_Ok [OF r] by auto
  then obtain jr where jr: "render = jsonnet_Render (cli_F L) (cli_V L) jr" "jn_sources jr = src"
    using jsonnet by (auto simp: setup_renderer_def jsonnet_NewRenderer_def split: sum.splits)
  note nt = configured_resource_trigger [OF res db t [unfolded p(2)]]
  have look: "jn_sources jr (n @ ''/list'') = Some (informer_source L i)"
    using informer_import [OF nt(1) i, of "informer_source L"] jr(2) nt(2) \<open>src = src0\<close> by simp
  have "informer_source L i v = (Ok stored, v)" using json by (simp add: informer_source_def marshalInformerFunc_def)
  then show ?thesis
    using jr(1) prov p(1) Import_source [of "jn_sources jr", OF look, of fi config dir v]
      Import_config [of fi "jn_sources jr" config dir v]
    by (intro exI [of _ jr]) (simp add: runtimePrefix_def virtualConfigPath_def)
qed

section \<open>What the triggers execute\<close>

text \<open>
  What is registered with the triggers runs the rollout once, on the configuration of the trigger or,
  when there is a configuration file, on the file, and counts it.
\<close>

lemma registered_execution:
  assumes prog: "assemble E L f w = (Ok prog, w')"
    and cfg: "(own, fb) = (case c of None \<Rightarrow> ('''', None) | Some c \<Rightarrow> (cf_RawConfig c, cf_Feedback c))"
    and read: "(if fl_configFile f = '''' then (Inr own, pr_world p)
      else fs_ReadFile (cli_F L) (fl_configFile f) (pr_world p)) = (Inr raw, w1)"
    and body: "execute_body E (pg_runner prog) raw (fb, w1) = (x, fb', w2)"
  shows "\<exists>c'. Register_Execute (pg_register prog) c p =
    (x, c', \<lparr>pr_world = w2, pr_metrics = count_execution x (pr_metrics p)\<rparr>)"
proof -
  let ?passer = "NewFileConfigPasser (fl_configFile f) (Execute E (pg_runner prog))"
  let ?c = "\<lparr>cf_RawConfig = own, cf_Feedback = fb\<rparr>"
  have reg: "pg_register prog = Register [] (FileConfigPasser_Execute (proc_files (cli_F L)) ?passer)"
    using assemble_Ok [OF prog] by auto
  have c: "(case c of None \<Rightarrow> \<lparr>cf_RawConfig = '''', cf_Feedback = None\<rparr> | Some c \<Rightarrow> c) = ?c"
    using cfg by (cases c) auto
  have r: "readConfig (proc_files (cli_F L)) ?passer ?c p = (Inr raw, p\<lparr>pr_world := w1\<rparr>)"
    using read by (auto simp: readConfig_def NewFileConfigPasser_def proc_files_def split: if_splits)
  have e: "Execute E (pg_runner prog) (Some (?c\<lparr>cf_RawConfig := raw\<rparr>)) (p\<lparr>pr_world := w1\<rparr>) =
      (x, Some \<lparr>cf_RawConfig = raw, cf_Feedback = fb'\<rparr>, \<lparr>pr_world = w2, pr_metrics = count_execution x (pr_metrics p)\<rparr>)"
    using body by (simp add: Execute_def)
  show ?thesis
    using r e c by (simp add: reg Register_def FileConfigPasser_Execute_def NewFileConfigPasser_def)
qed

section \<open>The one-off rollout\<close>

text \<open>
  C24: The one-off trigger executes exactly one rollout, whose configuration is the configuration file
  (or empty, without one), and the outcome of the rollout is the outcome of the trigger.
\<close>

theorem one_off_runs_one_rollout:
  assumes prog: "assemble E L f w = (Ok prog, w')" and one: "fl_oneOff f"
    and read: "(if fl_configFile f = '''' then (Inr '''', pr_world p)
      else fs_ReadFile (cli_F L) (fl_configFile f) (pr_world p)) = (Inr raw, w1)"
    and body: "execute_body E (pg_runner prog) raw (None, w1) = (x, fb, w2)" and ret: "x \<noteq> Diverge"
  shows "\<exists>m. OneOff_Run (pg_register prog) p = (x, \<lparr>pr_world = w2, pr_metrics = m\<rparr>) \<and>
    mt_executions m = mt_executions (pr_metrics p) + 1 \<and>
    mt_executionsFailed m = mt_executionsFailed (pr_metrics p) + (if is_Err x then 1 else 0)"
proof -
  have "OneOff_Run (pg_register prog) p = (x, \<lparr>pr_world = w2, pr_metrics = count_execution x (pr_metrics p)\<rparr>)"
    using registered_execution [OF prog _ read body, where c = None] by (auto simp: OneOff_Run_def)
  then show ?thesis using ret by (simp add: count_execution_def)
qed

section \<open>The exit code\<close>

text \<open>
  C26: \<^verbatim>\<open>Main\<close> returns 0 only when help was asked for, or when the log level is known, at least one
  trigger and a known renderer are configured, the program was set up, and the group of its actors
  ended without error; the flags are those of the arguments.
\<close>

theorem exit_code_zero:
  assumes "Main E L frac rungroup args w = (Ok 0, w')"
  shows "parse_args frac args default_flags = ExitHelp \<or>
    (\<exists>f prog w1. parse_args frac args default_flags = Parsed f \<and> assemble E L f w = (Ok prog, w1) \<and>
       rungroup prog w1 = (Ok (), w') \<and> fl_logLevel f \<in> {''all'', ''debug'', ''info'', ''warn'', ''error'', ''none''} \<and>
       fl_renderProviderName f \<in> {''jsonnet'', ''file''} \<and>
       (fl_oneOff f \<or> 0 < fl_triggerIntervalDuration f \<or> fl_triggerResourceConfig f \<noteq> '''' \<or>
        fl_triggerDatabaseConfig f \<noteq> ''''))"
proof (cases "parse_args frac args default_flags")
  case (Parsed f)
  then obtain prog w1 where p: "assemble E L f w = (Ok prog, w1)" and g: "rungroup prog w1 = (Ok (), w')"
    using assms by (auto simp: Main_def split: prod.splits outcome.splits)
  obtain lvl cl res src0 conns src db runner w1' w2 w4 w5 w6 where l: "logger (fl_logLevel f) = Inr lvl"
    and res: "setup_resource E L f cl w1' = (Ok (res, src0), w2)" and db: "setup_database L f w4 = (Ok db, w5)"
    and ne: "setup_triggers f res db \<noteq> []" and r: "setup_runner E L f cl conns src w5 = (Ok runner, w6)"
    using assemble_Ok [OF p] by blast
  have "fl_logLevel f \<in> {''all'', ''debug'', ''info'', ''warn'', ''error'', ''none''}"
    using l by (auto simp: logger_def split: if_splits)
  moreover have "fl_renderProviderName f \<in> {''jsonnet'', ''file''}"
    using setup_runner_Ok [OF r] by (auto simp: setup_renderer_def split: if_splits)
  moreover have "fl_oneOff f \<or> 0 < fl_triggerIntervalDuration f \<or> fl_triggerResourceConfig f \<noteq> '''' \<or>
      fl_triggerDatabaseConfig f \<noteq> ''''"
    using ne setup_resource_Ok [OF res] setup_database_Ok [OF db]
    by (auto simp: setup_triggers_def Let_def split: if_splits)
  ultimately show ?thesis using Parsed p g by blast
qed (use assms in \<open>simp_all add: Main_def\<close>)

section \<open>Witnesses\<close>

definition sample_vm :: "sworld jsonnet_vm" where
  "sample_vm = \<lparr>vm_Evaluate = (\<lambda>ext imp name content w. (Ok content, w)),
     vm_FileImport = (\<lambda>jpaths dir path w. (Ok (path, path), w)),
     vm_Unmarshal = (\<lambda>s. Inr \<lparr>jres_Objects = [], jres_Rollout = None\<rparr>), vm_MarshalJSON = (\<lambda>u. Inr [])\<rparr>"

definition sample_cli :: "sworld cli_lib" where
  "sample_cli =
     \<lparr>cli_BuildConfig = (\<lambda>m k w. (Inr sample_cfg, w)), cli_NewClientset = (\<lambda>c q b. Inr ()),
      cli_FromUnstructured = sample_decodeSA, cli_Listen = (\<lambda>w. (Inr (), w)), cli_F = sample_renderer_files,
      cli_tree = (\<lambda>d w. sample_tree), cli_V = sample_vm,
      cli_D = sample_dead_dblib,
      cli_X = \<lparr>tx_Query = (\<lambda>p s w. (Inl (LibError s), w)), tx_MarshalRow = (\<lambda>r. Inr []), tx_MarshalRows = (\<lambda>r. Inr [])\<rparr>,
      cli_compile = sample_compile, cli_labels = concat \<circ> map fst,
      cli_stored = (\<lambda>i w. []), cli_marshalList = (\<lambda>us. Inr ''[]''),
      cli_decodeResources = (\<lambda>s. Inr sample_resources), cli_decodeConnections = (\<lambda>s. Inr []),
      cli_decodeQueries = (\<lambda>s. Inr []), cli_decodeTriggers = (\<lambda>s. Inr []),
      cli_decodeObject = sample_decode, cli_decodeRollout = (\<lambda>s. Inr sample_spec)\<rparr>"

lemmas assemble_eval = assemble_def setup_registry_def InstrumentMetricHandler_def server_mux_Ok setup_client_def setup_resource_def setup_connections_def
  setup_sources_def setup_database_def setup_triggers_def setup_runner_def setup_renderer_def logger_def
  sample_cli_def NewChecks_def DefaultChecks_def NewRunner_def default_flags_def jsonnet_NewRenderer_def
  sample_renderer_files_def Let_def sample_dead_dblib_def less_duration_def zero_duration_def

definition one_off_flags :: flags where
  "one_off_flags = default_flags\<lparr>fl_oneOff := True, fl_renderProviderName := ''file''\<rparr>"

lemma one_off_program:
  "\<exists>prog. assemble sample_env sample_cli one_off_flags empty_world = (Ok prog, empty_world)"
  by (simp add: one_off_flags_def assemble_eval)

theorem program_is_wired_witness:
  "\<exists>prog. assemble sample_env sample_cli one_off_flags empty_world = (Ok prog, empty_world) \<and> wired (pg_runner prog)"
proof -
  obtain prog where p: "assemble sample_env sample_cli one_off_flags empty_world = (Ok prog, empty_world)"
    using one_off_program ..
  show ?thesis using program_is_wired [OF p] p by blast
qed

text \<open>An interval and a database trigger: the interval trigger never runs.\<close>

definition two_trigger_flags :: flags where
  "two_trigger_flags = default_flags\<lparr>fl_renderProviderName := ''file'',
     fl_triggerIntervalDuration := Duration 1000000000, fl_triggerDatabaseConfig := ''triggers.yaml''\<rparr>"

theorem only_the_last_trigger_runs_witness:
  "\<exists>prog config d. assemble sample_env sample_cli two_trigger_flags empty_world = (Ok prog, empty_world) \<and>
    pg_actors prog = [ServerActor, TriggerActor (DatabaseTrigger config d), TriggerActor (DatabaseTrigger config d), SignalActor]"
proof -
  obtain prog where p: "assemble sample_env sample_cli two_trigger_flags empty_world = (Ok prog, empty_world)"
    and n: "length (pg_triggers prog) = 2"
    by (simp add: two_trigger_flags_def assemble_eval NewDbTrigger_def)
  obtain t where "pg_actors prog = ServerActor # replicate 2 (TriggerActor t) @ [SignalActor]"
    and "\<exists>config d. t = DatabaseTrigger config d"
    using only_the_last_trigger_runs [OF p] n by (auto simp: two_trigger_flags_def default_flags_def)
  then show ?thesis using p by (auto simp: numeral_2_eq_2)
qed

definition resource_flags :: flags where
  "resource_flags = default_flags\<lparr>fl_renderProviderName := ''jsonnet'', fl_triggerResourceConfig := ''r.yaml''\<rparr>"

theorem dynamic_imports_witness:
  "\<exists>prog r. assemble sample_env sample_cli resource_flags empty_world = (Ok prog, empty_world) \<and>
    rn_provider (pg_runner prog) = jsonnet_Render sample_renderer_files sample_vm r \<and>
    Import (\<lambda>d p w. (Err ErrNotAJob, w)) (jn_sources r) '''' '''' ''locutus-runtime/main/list'' empty_world =
      (Ok (''[]'', ''locutus-runtime/main/list''), empty_world)"
proof -
  obtain prog t i where p: "assemble sample_env sample_cli resource_flags empty_world = (Ok prog, empty_world)"
    and t: "ResourceTrigger t \<in> set (pg_triggers prog)" "(''main'', i) \<in> set (rg_infs t)"
    by (simp add: resource_flags_def assemble_eval NewResourceTrigger_def sample_resources_def sample_resource_def
        ClientFor_def newForConfig_def setConfigDefaults_def sample_kube_def NewClient_def
        SetUpdatePreparations_def SetUpdateChecks_def)
  have f: "fl_renderProviderName resource_flags = ''jsonnet''" "fl_sourceDatabaseFile resource_flags = ''''"
    by (simp_all add: resource_flags_def default_flags_def)
  have json: "cli_marshalList sample_cli (cli_stored sample_cli i empty_world) = Inr ''[]''"
    by (simp add: sample_cli_def)
  have L: "cli_F sample_cli = sample_renderer_files" "cli_V sample_cli = sample_vm" by (simp_all add: sample_cli_def)
  show ?thesis
    using dynamic_imports [OF p f t json, of "\<lambda>d p w. (Err ErrNotAJob, w)" "''''" "''''"] p
    by (auto simp: L)
qed

theorem one_off_runs_one_rollout_witness:
  "\<exists>prog x w2 m. assemble sample_env sample_cli one_off_flags empty_world = (Ok prog, empty_world) \<and>
    OneOff_Run (pg_register prog) sample_proc = (x, \<lparr>pr_world = w2, pr_metrics = m\<rparr>) \<and>
    mt_executions m = mt_executions (pr_metrics sample_proc) + 1"
proof -
  obtain prog where p: "assemble sample_env sample_cli one_off_flags empty_world = (Ok prog, empty_world)"
    using one_off_program ..
  have o: "fl_oneOff one_off_flags" "fl_configFile one_off_flags = ''''"
    by (simp_all add: one_off_flags_def default_flags_def)
  then have read: "(if fl_configFile one_off_flags = '''' then (Inr '''', pr_world sample_proc)
      else fs_ReadFile (cli_F sample_cli) (fl_configFile one_off_flags) (pr_world sample_proc)) =
      (Inr '''', pr_world sample_proc)" by simp
  have prov: "rn_provider (pg_runner prog) = file_Render (\<lambda>d w. sample_tree) sample_renderer_files sample_decode
      (\<lambda>s. Inr sample_spec) (file_NewRenderer ''manifests/'' ''rollout.yaml'')"
    "\<not> rn_renderOnly (pg_runner prog)"
    using p by (auto simp: one_off_flags_def assemble_eval)
  have body: "execute_body sample_env (pg_runner prog) '''' (None, pr_world sample_proc) =
      (Panic NilDereference, None, pr_world sample_proc)"
    by (simp add: execute_body_def prov file_Render_def Let_def sample_tree_def read_object_def sample_decode_def
        sample_renderer_files_def roll_out_def result_groups_def sample_spec_def)
  show ?thesis using one_off_runs_one_rollout [OF p o(1) read body] p by auto
qed

theorem exit_code_zero_witness:
  "\<exists>f. parse_args (\<lambda>f u n. 0) [''--renderer'', ''file'', ''-one-off''] default_flags = Parsed f \<and>
    fl_renderProviderName f = ''file'' \<and> fl_oneOff f"
proof -
  have a: "parse_args (\<lambda>f u n. 0) [''--renderer'', ''file'', ''-one-off''] default_flags = Parsed one_off_flags"
    by code_simp
  obtain prog where p: "assemble sample_env sample_cli one_off_flags empty_world = (Ok prog, empty_world)"
    using one_off_program ..
  have "Main sample_env sample_cli (\<lambda>f u n. 0) (\<lambda>prog w. (Ok (), w)) [''--renderer'', ''file'', ''-one-off''] empty_world =
      (Ok 0, empty_world)"
    by (simp add: Main_def a p)
  from exit_code_zero [OF this] a show ?thesis by (auto simp: one_off_flags_def default_flags_def)
qed

end
