(* ===== verification/Cli_Resource.thy ===== *)
theory Cli_Resource
  imports Cli_Props
begin

text \<open>
  The resource trigger in the assembled program: what one turn of its worker does with a key whose
  object is stored.
\<close>

section \<open>One turn of the worker\<close>

lemma NewResourceTrigger_writeStatus:
  assumes "NewResourceTrigger K cl F decode compile labels path writeStatus w = (Ok t, w')"
  shows "rg_writeStatus t = writeStatus"
  using assms by (auto simp: NewResourceTrigger_def Let_def andThen_Ok_iff split: prod.splits sum.splits)

lemma assembled_resource_trigger:
  assumes prog: "assemble E L f w = (Ok prog, w')" and t: "ResourceTrigger t \<in> set (pg_triggers prog)"
  shows "rg_writeStatus t = fl_writeStatus f"
proof -
  obtain cl res src0 db w1 w2 w4 w5 where res: "setup_resource E L f cl w1 = (Ok (res, src0), w2)"
    and db: "setup_database L f w4 = (Ok db, w5)" and p: "pg_triggers prog = setup_triggers f res db"
    using assemble_Ok [OF prog] by auto
  show ?thesis using NewResourceTrigger_writeStatus [OF configured_resource_trigger(1) [OF res db t [unfolded p]]] .
qed

text \<open>
  C25: In an assembled program, a turn of the resource trigger's worker on a key whose object is stored
  executes exactly one rollout and counts it. The rollout gets the JSON of that object as its
  configuration, unless there is a configuration file, which then replaces it, and feedback on that
  very object exactly when the status is to be written. The key is forgotten when the rollout
  succeeds and comes back rate limited when it fails; either way the worker goes on, whereas a panic
  ends it.
\<close>

theorem reported_object_gets_one_rollout:
  assumes prog: "assemble E L f w = (Ok prog, w')"
    and t: "ResourceTrigger t \<in> set (pg_triggers prog)" and main: "rg_inf t = Some i"
    and get: "wq_Get W q = (Some key, q1)" and look: "getByKey i key p = Inr (Some u)" and json: "marshal u = Inr own"
    and read: "(if fl_configFile f = '''' then (Inr own, pr_world p)
      else fs_ReadFile (cli_F L) (fl_configFile f) (pr_world p)) = (Inr raw, w1)"
    and body: "execute_body E (pg_runner prog) raw
      (if fl_writeStatus f then Some (NewFeedback (e_U E) cl u) else None, w1) = (x, fb, w2)"
    and ret: "x \<noteq> Diverge"
  shows "\<exists>m. mt_executions m = mt_executions (pr_metrics p) + 1 \<and>
    mt_executionsFailed m = mt_executionsFailed (pr_metrics p) + (if is_Err x then 1 else 0) \<and>
    processNextWorkItem W (sync (e_U E) cl getByKey marshal (pg_register prog) t) (q, p) =
      (case x of
         Panic c \<Rightarrow> (Panic c, wq_Done W key q1, \<lparr>pr_world = w2, pr_metrics = m\<rparr>)
       | Err e \<Rightarrow> (Ok True, wq_Done W key (wq_AddRateLimited W key q1), \<lparr>pr_world = w2, pr_metrics = m\<rparr>)
       | _ \<Rightarrow> (Ok True, wq_Done W key (wq_Forget W key q1), \<lparr>pr_world = w2, pr_metrics = m\<rparr>))"
proof -
  let ?fb = "if fl_writeStatus f then Some (NewFeedback (e_U E) cl u) else None"
  let ?m = "count_execution x (pr_metrics p)"
  obtain c' where "Register_Execute (pg_register prog) (Some \<lparr>cf_RawConfig = own, cf_Feedback = ?fb\<rparr>) p =
      (x, c', \<lparr>pr_world = w2, pr_metrics = ?m\<rparr>)"
    using registered_execution [OF prog _ read body, where c = "Some \<lparr>cf_RawConfig = own, cf_Feedback = ?fb\<rparr>"]
    by auto
  then have "sync (e_U E) cl getByKey marshal (pg_register prog) t key p = (x, \<lparr>pr_world = w2, pr_metrics = ?m\<rparr>)"
    using main look json by (simp add: sync_def assembled_resource_trigger [OF prog t])
  then show ?thesis
    using get ret
    by (intro exI [of _ ?m]) (cases x; simp add: processNextWorkItem_def count_execution_def)
qed

section \<open>Witness\<close>

definition render_only_flags :: flags where
  "render_only_flags = resource_flags\<lparr>fl_renderOnly := True\<rparr>"

theorem reported_object_gets_one_rollout_witness:
  "\<exists>prog t w2 m. assemble sample_env sample_cli render_only_flags empty_world = (Ok prog, empty_world) \<and>
    processNextWorkItem sample_queue (sync (e_U sample_env) (NewClient sample_cfg) (\<lambda>i k p. Inr (Some sample_service))
      (\<lambda>u. Inr ''{}'') (pg_register prog) t) ([], sample_proc) =
      (Ok True, [''done k'', ''forget k''], \<lparr>pr_world = w2, pr_metrics = m\<rparr>) \<and>
    mt_executions m = mt_executions (pr_metrics sample_proc) + 1"
proof -
  obtain prog t i where p: "assemble sample_env sample_cli render_only_flags empty_world = (Ok prog, empty_world)"
    and t: "ResourceTrigger t \<in> set (pg_triggers prog)" "rg_inf t = Some i"
    by (simp add: render_only_flags_def resource_flags_def assemble_eval NewResourceTrigger_def sample_resources_def
        sample_resource_def ClientFor_def newForConfig_def setConfigDefaults_def sample_kube_def NewClient_def
        SetUpdatePreparations_def SetUpdateChecks_def)
  have get: "wq_Get sample_queue [] = (Some ''k'', [])" by (simp add: sample_queue_def)
  have f: "fl_configFile render_only_flags = ''''" "fl_writeStatus render_only_flags"
    by (simp_all add: render_only_flags_def resource_flags_def default_flags_def)
  have read: "(if fl_configFile render_only_flags = '''' then (Inr ''{}'', pr_world sample_proc)
      else fs_ReadFile (cli_F sample_cli) (fl_configFile render_only_flags) (pr_world sample_proc)) =
      (Inr ''{}'', pr_world sample_proc)" by (simp add: f)
  have ro: "rn_renderOnly (pg_runner prog)"
    using assembled_runner [OF p] by (simp add: render_only_flags_def)
  obtain jr where prov: "rn_provider (pg_runner prog) = jsonnet_Render sample_renderer_files sample_vm jr"
    using p by (auto simp: render_only_flags_def resource_flags_def assemble_eval andThen_Ok_iff split: prod.splits)
  obtain fb w2 where body: "execute_body sample_env (pg_runner prog) ''{}''
      (if fl_writeStatus render_only_flags then Some (NewFeedback (e_U sample_env) (NewClient sample_cfg) sample_service)
       else None, pr_world sample_proc) = (Ok (), fb, w2)"
    by (simp add: execute_body_def prov ro jsonnet_Render_def Let_def sample_vm_def sample_renderer_files_def sample_env_def)
  show ?thesis
    using reported_object_gets_one_rollout [OF p t get, where getByKey = "\<lambda>i k p. Inr (Some sample_service)"
        and p = sample_proc and cl = "NewClient sample_cfg" and marshal = "\<lambda>u. Inr ''{}''", OF refl refl read body] p
    by (auto simp: sample_queue_def)
qed

end
