(* ===== verification/Manifest_Leaves.thy ===== *)
theory Manifest_Leaves
  imports Cli_Props
begin

text \<open>
  The objects that a manifest consists of, by what addresses them at the API server. An action, on
  whatever depth of nested lists and however it ends, leaves these addresses as they were rendered.
\<close>

lemma leaves_rec_enough:
  assumes U: "ulib_ok U"
  shows "size (VObj u) \<le> n \<Longrightarrow> size (VObj u) \<le> m \<Longrightarrow> leaves_rec n U u = leaves_rec m U u"
proof (induction n arbitrary: m u)
  case (Suc n)
  then obtain m' where m: "m = Suc m'" by (cases m) auto
  have "leaves_rec n U v = leaves_rec m' U v" if "VObj v \<in> set (listItems U u)" for v
    using ulib_okD(9) [OF U that] Suc.prems m by (intro Suc.IH) auto
  then show ?case unfolding m
    by (auto intro!: arg_cong [where f = concat] map_cong split: gov.splits)
qed simp

lemma leaves_eq:
  assumes U: "ulib_ok U"
  shows "leaves U u =
    (if isList U u then concat (map (\<lambda>x. case x of VObj m \<Rightarrow> leaves U m | _ \<Rightarrow> [None]) (listItems U u))
     else [Some u])"
proof -
  define n where "n = size (VObj u)"
  have u: "leaves U u = leaves_rec (Suc n) U u"
    unfolding leaves_def by (rule leaves_rec_enough [OF U]) (simp_all only: n_def)
  have "leaves_rec n U v = leaves U v" if "VObj v \<in> set (listItems U u)" for v
    using ulib_okD(9) [OF U that] unfolding leaves_def n_def by (intro leaves_rec_enough [OF U]) simp_all
  then show ?thesis unfolding u leaves_rec.simps(2)
    by (auto intro!: arg_cong [where f = concat] map_cong simp del: leaves_rec.simps split: gov.splits)
qed

definition leaf_idents :: "ulib \<Rightarrow> obj \<Rightarrow> (string \<times> string \<times> string \<times> string) option list" where
  "leaf_idents U u = map (map_option (ident U)) (leaves U u)"

lemma set_leaf_idents: "Some i \<in> set (leaf_idents U u) \<longleftrightarrow> (\<exists>v. Some v \<in> set (leaves U u) \<and> i = ident U v)"
proof -
  have "Some i = map_option (ident U) x \<longleftrightarrow> (\<exists>v. x = Some v \<and> i = ident U v)" for x
    by (cases x) auto
  then show ?thesis by (auto simp: leaf_idents_def image_iff)
qed

lemma leaf_idents_eq:
  assumes U: "ulib_ok U"
  shows "leaf_idents U u =
    (if isList U u
     then concat (map (\<lambda>x. case x of VObj m \<Rightarrow> leaf_idents U m | _ \<Rightarrow> [None]) (listItems U u))
     else [Some (ident U u)])"
proof -
  have "map (map_option (ident U)) (case x of VObj m \<Rightarrow> leaves U m | _ \<Rightarrow> [None]) =
      (case x of VObj m \<Rightarrow> leaf_idents U m | _ \<Rightarrow> [None])" for x
    by (cases x) (simp_all add: leaf_idents_def)
  then show ?thesis
    by (simp add: leaf_idents_def [of U u] leaves_eq [OF U, of u] map_concat comp_def)
qed

lemma each_item_map:
  assumes "\<And>m w x m' w'. f m w = (x, m', w') \<Longrightarrow> h m' = h m"
  shows "each_item e f xs w = (x, ys, w') \<Longrightarrow>
    map (\<lambda>x. case x of VObj m \<Rightarrow> h m | _ \<Rightarrow> d) ys = map (\<lambda>x. case x of VObj m \<Rightarrow> h m | _ \<Rightarrow> d) xs"
proof (induction xs arbitrary: w x ys w')
  case (Cons a xs)
  show ?case
  proof (cases a)
    case (VObj m)
    obtain y n w1 where f: "f m w = (y, n, w1)" by (rule prod_cases3)
    obtain z zs w2 where r: "each_item e f xs w1 = (z, zs, w2)" by (rule prod_cases3)
    have "ys = VObj n # (if y = Ok () then zs else xs)"
      using Cons.prems f r by (auto simp: VObj split: if_splits)
    then show ?thesis using Cons.IH [OF r] assms [OF f] by (simp add: VObj)
  qed (use Cons.prems in auto)
qed simp

lemma executeAction_rec_idents:
  assumes U: "ulib_ok (e_U E)" and r: "wired r"
  shows "executeAction_rec n E r a u w = (x, u', w') \<Longrightarrow> leaf_idents (e_U E) u' = leaf_idents (e_U E) u"
proof (induction n arbitrary: u w x u' w')
  case (Suc n)
  show ?case
  proof (cases "isList (e_U E) u")
    case True
    obtain y ys w1 where e: "each_item (itemNotObject (e_U E)) (executeAction_rec n E r a)
        (listItems (e_U E) u) w = (y, ys, w1)" by (rule prod_cases3)
    then have u': "u' = setListItems (e_U E) u ys" using Suc.prems True by simp
    then have l: "isList (e_U E) u'" "listItems (e_U E) u' = ys"
      using True ulib_okD(10,11) [OF U True] by (simp_all add: keeps_def)
    have "map (\<lambda>x. case x of VObj m \<Rightarrow> leaf_idents (e_U E) m | _ \<Rightarrow> [None]) ys =
        map (\<lambda>x. case x of VObj m \<Rightarrow> leaf_idents (e_U E) m | _ \<Rightarrow> [None]) (listItems (e_U E) u)"
      by (rule each_item_map [OF _ e]) (erule Suc.IH)
    then show ?thesis
      unfolding leaf_idents_eq [OF U, of u'] leaf_idents_eq [OF U, of u] by (simp only: l True if_True)
  next
    case False
    then have "keeps (e_U E) u u'" using executeSingleAction_keeps [OF U r, of u a w] Suc.prems by simp
    then show ?thesis using False by (simp add: leaf_idents_eq [OF U] keeps_def)
  qed
qed simp

lemma executeAction_idents:
  "ulib_ok (e_U E) \<Longrightarrow> wired r \<Longrightarrow> executeAction E r a u w = (x, u', w') \<Longrightarrow>
   leaf_idents (e_U E) u' = leaf_idents (e_U E) u"
  unfolding executeAction_def by (rule executeAction_rec_idents)

end
