(* ===== verification/Isolation.thy ===== *)
theory Isolation
  imports Manifest_Leaves
begin

text \<open>
  What a whole execution changes at the API server: the objects that the rendered manifests name, and
  the object that feedback is given on. Rendering aside, every part of the program that runs
  during an execution is covered: actions, checks with their polls and reports, and feedback.
\<close>

section \<open>The names in a manifest\<close>

text \<open>Namespace and name of the leaves.\<close>

definition address :: "ulib \<Rightarrow> obj \<Rightarrow> string \<times> string" where
  "address U u = (getNamespace U u, getName U u)"

definition leaf_addrs :: "ulib \<Rightarrow> obj \<Rightarrow> (string \<times> string) set" where
  "leaf_addrs U u = address U ` {v. Some v \<in> set (leaves U u)}"

lemma leaf_addrs_idents:
  assumes "leaf_idents U u' = leaf_idents U u"
  shows "leaf_addrs U u' = leaf_addrs U u"
proof -
  have "leaf_addrs U u = {a. \<exists>i. Some i \<in> set (leaf_idents U u) \<and> a = (fst (snd (snd i)), snd (snd (snd i)))}" for u
    by (auto simp: leaf_addrs_def set_leaf_idents address_def ident_def)
  then show ?thesis using assms by simp
qed

section \<open>Calls that change no object\<close>

text \<open>
  What the program relies on of its environment: discovery, the list of pods, the clock, the databases
  and the standard output change no object at the API server, a poll and a transaction change
  only what the function does that they are given, and a status request changes only the object it is
  for, and returns an object with that name and namespace.
\<close>

definition outside_law :: "'w env \<Rightarrow> 'w view \<Rightarrow> bool" where
  "outside_law E store \<longleftrightarrow>
     discovery_law (e_K E) store \<and>
     (\<forall>ns sel w. store (snd (k_ListPods (e_K E) ns sel w)) = store w) \<and>
     (\<forall>w. store (snd (now (e_T E) w)) = store w) \<and>
     (\<forall>p stmt w. store (snd (dl_Exec (e_D E) p stmt w)) = store w) \<and>
     (\<forall>p l w. store (dl_Observe (e_D E) p l w) = store w) \<and>
     (\<forall>res w. store (snd (e_Encode E res w)) = store w) \<and>
     (\<forall>i t cond w. (\<forall>v. store (snd (cond v)) = store v) \<longrightarrow>
        store (snd (rt_Poll (e_R E) i t cond w)) = store w) \<and>
     (\<forall>p tx w. (\<forall>v. store (snd (tx v)) = store v) \<longrightarrow>
        store (snd (dl_ExecuteTx (e_D E) p tx w)) = store w) \<and>
     (\<forall>t u s w x w'. k_UpdateStatus (e_K E) t (status_request (e_U E) (e_T E) u s) w = (x, w') \<longrightarrow>
        only_changes store t (getName (e_U E) u) w w' \<and>
        (\<forall>u'. x = Inr u' \<longrightarrow> address (e_U E) u' = address (e_U E) u))"

lemma outside_lawD:
  assumes "outside_law E store"
  shows "discovery_law (e_K E) store"
    and "store (snd (k_ListPods (e_K E) ns sel w)) = store w"
    and "store (snd (now (e_T E) w)) = store w"
    and "store (snd (dl_Exec (e_D E) p stmt w)) = store w"
    and "store (dl_Observe (e_D E) p l w) = store w"
    and "store (snd (e_Encode E res w)) = store w"
    and "(\<And>v. store (snd (cond v)) = store v) \<Longrightarrow> store (snd (rt_Poll (e_R E) i t cond w)) = store w"
    and "(\<And>v. store (snd (tx v)) = store v) \<Longrightarrow> store (snd (dl_ExecuteTx (e_D E) p tx w)) = store w"
    and "k_UpdateStatus (e_K E) tg (status_request (e_U E) (e_T E) u s) w = (x, w') \<Longrightarrow>
      only_changes store tg (getName (e_U E) u) w w' \<and> (\<forall>u'. x = Inr u' \<longrightarrow> address (e_U E) u' = address (e_U E) u)"
  using assms unfolding outside_law_def by simp_all

lemma andThen_view:
  "f (snd r) = f w \<Longrightarrow> (\<And>a w1. f w1 = f w \<Longrightarrow> f (snd (g a w1)) = f w) \<Longrightarrow> f (snd (andThen r g)) = f w"
  by (cases r; cases "fst r") (auto simp: andThen_def)

lemma currentValues_view:
  "kube_ok U K store \<Longrightarrow> store (snd (currentValues K J R c rc name w)) = store w"
  by (auto simp: currentValues_def split: prod.splits sum.splits dest: kube_okD_get(1))

lemma crdb_ExecuteTx_view:
  assumes out: "outside_law E store" and tx: "\<And>v. store (snd (tx v)) = store v"
  shows "store (snd (crdb_ExecuteTx (e_D E) p tx w)) = store w"
proof -
  obtain x w1 where x: "dl_ExecuteTx (e_D E) p tx w = (x, w1)" by (rule prod.exhaust)
  then show ?thesis
    using outside_lawD(8) [OF out tx, of p w] outside_lawD(5) [OF out]
    by (cases x) (simp_all add: crdb_ExecuteTx_def)
qed

lemma report_view:
  "outside_law E store \<Longrightarrow> store (snd (report (e_D E) c r w)) = store w"
  by (simp add: report_def reportDatabase_def crdb_ExecuteTx_view outside_lawD(4) split: option.split)

lemma job_check_view:
  assumes out: "outside_law E store"
  shows "store (snd (ck_Execute (JobOOMKilledCheck U (e_K E)) u w)) = store w"
  using outside_lawD(2) [OF out]
  by (simp add: JobOOMKilledCheck_def JobOOMKilled_Execute_def split: prod.split sum.split) (metis snd_conv)

definition job_checks_only :: "ulib \<Rightarrow> 'w kube \<Rightarrow> (string \<rightharpoonup> 'w check) \<Rightarrow> bool" where
  "job_checks_only U K known \<longleftrightarrow> (\<forall>n ck. known n = Some ck \<longrightarrow> ck = JobOOMKilledCheck U K)"

lemma checkFailed_view:
  assumes out: "outside_law E store" and known: "job_checks_only (e_U E) (e_K E) (cr_knownChecks c)"
  shows "store (snd (checkFailed (e_D E) c u w)) = store w"
proof -
  have "store (snd (run_failure_checks (e_D E) c fds u w)) = store w" for fds
  proof (induction fds arbitrary: w)
    case (Cons fd fds)
    show ?case
    proof (cases "cr_knownChecks c (fd_CheckName fd)")
      case (Some ck)
      obtain x w1 where x: "ck_Execute ck u w = (x, w1)" by (rule prod.exhaust)
      have "store w1 = store w"
        using job_check_view [OF out, of "e_U E" u w] known Some x by (auto simp: job_checks_only_def)
      then show ?thesis using Cons.IH [of w1] report_view [OF out]
        by (cases x) (simp_all add: Some x split: option.split)
    qed simp
  qed simp
  then show ?thesis by (simp add: checkFailed_def)
qed

lemma inner_condition_view:
  assumes "kube_ok (e_U E) (e_K E) store" "outside_law E store"
    and "job_checks_only (e_U E) (e_K E) (cr_knownChecks c)"
  shows "store (snd (inner_condition (e_K E) J R (e_D E) c rc u name outer w)) = store w"
  unfolding inner_condition_def Let_def
  by (intro andThen_view) (auto simp: currentValues_view [OF assms(1)] checkFailed_view [OF assms(2,3)]
      intro!: andThen_view)

lemma outer_condition_view:
  assumes "kube_ok (e_U E) (e_K E) store" "outside_law E store"
    and "job_checks_only (e_U E) (e_K E) (cr_knownChecks c)"
  shows "store (snd (outer_condition (e_K E) J (e_R E) (e_D E) c rc u name w)) = store w"
  unfolding outer_condition_def
  by (intro andThen_view) (auto simp: currentValues_view [OF assms(1)] checkFailed_view [OF assms(2,3)]
      inner_condition_view [OF assms] outside_lawD(7) [OF assms(2)] intro!: andThen_view)

lemma RunChecks_view:
  assumes "kube_ok (e_U E) (e_K E) store" and out: "outside_law E store"
    and known: "job_checks_only (e_U E) (e_K E) (cks_knownChecks cs)"
  shows "store (snd (RunChecks (e_U E) (e_K E) (e_J E) (e_R E) (e_D E) cs ds u w)) = store w"
proof -
  have cl: "store (snd (ClientForUnstructured (e_U E) (e_K E) c u w)) = store w" for c w
    using ClientFor_store [OF outside_lawD(1) [OF out]] by (metis prod.collapse)
  have "store (snd (CheckRunner_Execute (e_U E) (e_K E) (e_J E) (e_R E) (e_D E) c u w)) = store w"
    if "cr_knownChecks c = cks_knownChecks cs" for c w
  proof -
    have k: "job_checks_only (e_U E) (e_K E) (cr_knownChecks c)" using known that by simp
    have poll: "store w2 = store v" if "rt_Poll (e_R E) i t
        (outer_condition (e_K E) (e_J E) (e_R E) (e_D E) c rc u n) v = (x, w2)" for i t rc n v x w2
    proof -
      let ?cond = "outer_condition (e_K E) (e_J E) (e_R E) (e_D E) c rc u n"
      have "store (snd (?cond v)) = store v" for v by (rule outer_condition_view [OF assms(1) out k])
      from outside_lawD(7) [OF out, of ?cond, OF this] have "store (snd (rt_Poll (e_R E) i t ?cond v)) = store v" .
      then show ?thesis by (simp add: that)
    qed
    have rep: "store (snd (reportTimeout (e_D E) c v)) = store v" for v
      using report_view [OF out] by (simp add: reportTimeout_def split: option.split)
    show ?thesis unfolding CheckRunner_Execute_def
    proof (rule andThen_view)
      fix rc w1 assume w1: "store w1 = store w"
      obtain x w2 where x: "rt_Poll (e_R E) (fc_PollInterval (cr_comparisons c)) (fc_Timeout (cr_comparisons c))
          (outer_condition (e_K E) (e_J E) (e_R E) (e_D E) c rc u (getName (e_U E) u)) w1 = (x, w2)"
        by (rule prod.exhaust)
      show "store (snd (let (r, w2) = rt_Poll (e_R E) (fc_PollInterval (cr_comparisons c))
              (fc_Timeout (cr_comparisons c))
              (outer_condition (e_K E) (e_J E) (e_R E) (e_D E) c rc u (getName (e_U E) u)) w1
            in if r = Err (rt_ErrWaitTimeout (e_R E)) \<and> fc_ReportTimeout (cr_comparisons c) \<noteq> None
               then reportTimeout (e_D E) c w2 else (r, w2))) = store w"
        using poll [OF x] w1 by (simp add: x rep)
    qed (simp add: cl)
  qed
  then have "store (snd (runCheck (e_U E) (e_K E) (e_J E) (e_R E) (e_D E) cs d u w)) = store w" for d w
    by (cases "NewCheckRunner (e_J E) (cks_client cs) d (cks_databaseConnections cs) (cks_knownChecks cs)")
      (auto simp: runCheck_def NewCheckRunner_def split: option.splits sum.splits)
  then show ?thesis by (induction ds arbitrary: w) (auto intro: andThen_view)
qed

section \<open>Feedback\<close>

text \<open>The object that feedback is given on.\<close>

definition feedback_addrs :: "ulib \<Rightarrow> feedback option \<Rightarrow> (string \<times> string) set" where
  "feedback_addrs U fb = {address U u | b u. fb = Some b \<and> fb_obj b = Some u}"

lemma feedback_addrs_simps [simp]:
  "feedback_addrs U None = {}"
  "feedback_addrs U (Some b) = (case fb_obj b of None \<Rightarrow> {} | Some u \<Rightarrow> {address U u})"
  by (auto simp: feedback_addrs_def split: option.splits)

definition changes_within :: "'w view \<Rightarrow> (string \<times> string) set \<Rightarrow> 'w \<Rightarrow> 'w \<Rightarrow> bool" where
  "changes_within store A w w' \<longleftrightarrow> (\<forall>t n. store w' t n \<noteq> store w t n \<longrightarrow> (tg_Namespace t, n) \<in> A)"

lemma changes_within_eq: "store w' = store w \<Longrightarrow> changes_within store A w w'"
  by (simp add: changes_within_def)

lemma changes_within_trans:
  assumes "changes_within store A a b" "changes_within store B b c" "B \<subseteq> A"
  shows "changes_within store A a c"
  unfolding changes_within_def
proof (intro allI impI)
  fix t n assume "store c t n \<noteq> store a t n"
  then have "store b t n \<noteq> store a t n \<or> store c t n \<noteq> store b t n" by auto
  then show "(tg_Namespace t, n) \<in> A" using assms unfolding changes_within_def by blast
qed

text \<open>A call on the feedback: its object stays the same one or is gone, and nothing else changes.\<close>

definition feedback_stays :: "ulib \<Rightarrow> 'w view \<Rightarrow> feedback \<times> 'w \<Rightarrow> feedback \<times> 'w \<Rightarrow> bool" where
  "feedback_stays U store s s' \<longleftrightarrow>
     feedback_addrs U (Some (fst s')) \<subseteq> feedback_addrs U (Some (fst s)) \<and>
     changes_within store (feedback_addrs U (Some (fst s))) (snd s) (snd s')"

lemma updateStatus_stays:
  assumes out: "outside_law E store"
  shows "feedback_stays (e_U E) store s (snd (updateStatus (e_U E) (e_K E) (e_T E) s))"
proof -
  obtain f w where s: "s = (f, w)" by (rule prod.exhaust)
  show ?thesis
  proof (cases "fb_oldStatus f = fb_currentStatus f \<or> fb_obj f = None")
    case True
    then show ?thesis
      by (auto simp: s updateStatus_def feedback_stays_def changes_within_eq split: option.splits)
  next
    case False
    then obtain u where u: "fb_obj f = Some u" and c: "fb_oldStatus f \<noteq> fb_currentStatus f" by blast
    obtain x w1 where x: "ClientForUnstructured (e_U E) (e_K E) (fb_client f) u w = (x, w1)" by (rule prod.exhaust)
    have w1: "store w1 = store w" using ClientFor_store [OF outside_lawD(1) [OF out] x] .
    show ?thesis
    proof (cases x)
      case (Inl e)
      then show ?thesis by (simp add: s updateStatus_def u c x feedback_stays_def changes_within_eq w1)
    next
      case (Inr rc)
      obtain y w2 where y: "k_UpdateStatus (e_K E) (rc_target rc)
          (status_request (e_U E) (e_T E) u (fb_currentStatus f)) w1 = (y, w2)" by (rule prod.exhaust)
      have t: "tg_Namespace (rc_target rc) = getNamespace (e_U E) u"
        using ClientFor_Inr(3) [of "e_K E" "fb_client f"] x Inr unfolding ClientForUnstructured_def by blast
      note o' = outside_lawD(9) [OF out y]
      have "changes_within store {address (e_U E) u} w w2"
        unfolding changes_within_def
      proof (intro allI impI)
        fix t' n assume "store w2 t' n \<noteq> store w t' n"
        then have "(t', n) = (rc_target rc, getName (e_U E) u)"
          using o' w1 unfolding only_changes_def by metis
        then show "(tg_Namespace t', n) \<in> {address (e_U E) u}" using t by (simp add: address_def)
      qed
      then show ?thesis using o'
        by (cases y) (auto simp: s updateStatus_def u c x Inr y feedback_stays_def)
    qed
  qed
qed

lemma clock_view:
  assumes out: "outside_law E store"
  shows "store (snd (fresh_conditions (e_T E) gs w)) = store w"
    and "store (snd (kept_conditions (e_T E) available gs w)) = store w"
    and "store (snd (set_conditions (e_T E) name new cs w)) = store w"
proof -
  note t = outside_lawD(3) [OF out]
  show "store (snd (fresh_conditions (e_T E) gs w)) = store w"
    by (induction gs arbitrary: w) (simp_all add: t split_beta Let_def)
  show "store (snd (kept_conditions (e_T E) available gs w)) = store w"
    by (induction gs arbitrary: w) (simp_all add: t split_beta Let_def split: option.split)
  show "store (snd (set_conditions (e_T E) name new cs w)) = store w"
    by (induction cs arbitrary: w) (simp_all add: t split_beta Let_def)
qed

lemma feedback_stays_trans:
  "feedback_stays U store a b \<Longrightarrow> feedback_stays U store b c \<Longrightarrow> feedback_stays U store a c"
  unfolding feedback_stays_def by (elim conjE, intro conjI, rule order_trans, assumption+)
    (rule changes_within_trans)

lemma feedback_stays_eq:
  "fb_obj (fst s') = fb_obj (fst s) \<Longrightarrow> store (snd s') = store (snd s) \<Longrightarrow> feedback_stays U store s s'"
  by (simp add: feedback_stays_def changes_within_eq)

lemma Initialize_stays:
  assumes out: "outside_law E store"
  shows "feedback_stays (e_U E) store s (snd (Initialize (e_U E) (e_K E) (e_T E) groups s))"
proof -
  have "feedback_stays (e_U E) store s (initializeStatus (e_T E) groups s)"
    by (rule feedback_stays_eq)
      (simp_all add: initializeStatus_def clock_view [OF out] split_beta Let_def)
  from feedback_stays_trans [OF this updateStatus_stays [OF out]] show ?thesis
    by (simp add: Initialize_def feedback_stays_eq)
qed

lemma SetCondition_stays:
  assumes out: "outside_law E store"
  shows "feedback_stays (e_U E) store s (snd (SetCondition (e_U E) (e_K E) (e_T E) name new s))"
proof -
  obtain f w where s: "s = (f, w)" by (rule prod.exhaust)
  have "feedback_stays (e_U E) store (f, w) (snd (updateStatus (e_U E) (e_K E) (e_T E)
      (f\<lparr>fb_currentStatus := Some \<lparr>stt_Conditions = Some cs'\<rparr>\<rparr>, w1)))" if "store w1 = store w" for cs' w1
    by (rule feedback_stays_trans [OF _ updateStatus_stays [OF out]])
      (rule feedback_stays_eq, simp_all add: that)
  then show ?thesis
    using updateStatus_stays [OF out, of s] clock_view(3) [OF out]
    by (simp add: s SetCondition_def split_beta Let_def feedback_stays_eq split: option.split)
qed

section \<open>A rollout\<close>

definition rollout_addrs :: "ulib \<Rightarrow> objects \<Rightarrow> (string \<times> string) set" where
  "rollout_addrs U objs = {a. \<exists>k u. objs k = Some u \<and> a \<in> leaf_addrs U u}"

lemma rollout_addrs_upd:
  "objs k = Some u \<Longrightarrow> leaf_addrs U u' \<subseteq> leaf_addrs U u \<Longrightarrow> rollout_addrs U (objs(k \<mapsto> u')) \<subseteq> rollout_addrs U objs"
  unfolding rollout_addrs_def by (auto split: if_splits)

definition stays_within ::
  "ulib \<Rightarrow> 'w view \<Rightarrow> objects \<times> feedback option \<times> 'w \<Rightarrow> objects \<times> feedback option \<times> 'w \<Rightarrow> bool" where
  "stays_within U store a b \<longleftrightarrow>
     (let (objs, fb, w) = a; (objs', fb', w') = b in
      rollout_addrs U objs' \<subseteq> rollout_addrs U objs \<and> feedback_addrs U fb' \<subseteq> feedback_addrs U fb \<and>
      changes_within store (rollout_addrs U objs \<union> feedback_addrs U fb) w w')"

lemma stays_within_refl: "stays_within U store a a"
  by (cases a) (simp add: stays_within_def changes_within_eq)

lemma stays_within_trans:
  assumes "stays_within U store a b" "stays_within U store b c"
  shows "stays_within U store a c"
proof -
  obtain o1 f1 w1 o2 f2 w2 o3 f3 w3 where abc: "a = (o1, f1, w1)" "b = (o2, f2, w2)" "c = (o3, f3, w3)"
    by (metis prod_cases3)
  show ?thesis
    using assms changes_within_trans [of store _ w1 w2 "rollout_addrs U o2 \<union> feedback_addrs U f2" w3]
    unfolding abc stays_within_def by (simp add: le_supI1 le_supI2 order_trans) blast
qed

lemma changes_within_mono: "changes_within store A w w' \<Longrightarrow> A \<subseteq> B \<Longrightarrow> changes_within store B w w'"
  unfolding changes_within_def by blast

lemma runStep_stays:
  assumes U: "ulib_ok (e_U E)" and K: "kube_ok (e_U E) (e_K E) store" and out: "outside_law E store"
    and r: "wired r" and known: "job_checks_only (e_U E) (e_K E) (cks_knownChecks (rn_checks r))"
    and run: "runStep E r s (objs, w) = (x, (objs', w'))"
  shows "stays_within (e_U E) store (objs, fb, w) (objs', fb, w')"
proof (cases "objs (st_Object s)")
  case (Some u)
  obtain y u' w1 where y: "executeAction E r (st_Action s) u w = (y, u', w1)" by (rule prod_cases3)
  have addrs: "leaf_addrs (e_U E) u' \<subseteq> leaf_addrs (e_U E) u"
    using leaf_addrs_idents [OF executeAction_idents [OF U r y]] by simp
  have w1: "changes_within store (leaf_addrs (e_U E) u) w w1"
    unfolding changes_within_def
  proof (intro allI impI)
    fix t n assume "store w1 t n \<noteq> store w t n"
    from executeAction_changes [OF U K outside_lawD(1) [OF out] r y this]
    show "(tg_Namespace t, n) \<in> leaf_addrs (e_U E) u" by (auto simp: leaf_addrs_def address_def)
  qed
  have "objs' = objs(st_Object s \<mapsto> u')" "store w' = store w1"
    using run Some y RunChecks_view [OF K out known, of "st_Success s" u' w1]
    by (cases y; auto simp: runStep_def split: prod.splits)+
  moreover have "leaf_addrs (e_U E) u \<subseteq> rollout_addrs (e_U E) objs"
    using Some by (auto simp: rollout_addrs_def)
  ultimately show ?thesis
    using rollout_addrs_upd [of objs, OF Some addrs] changes_within_mono [OF w1]
      changes_within_trans [OF _ changes_within_eq, of store _ w w1 w' "{}"]
    by (simp add: stays_within_def le_supI1)
qed (use run in \<open>auto simp: runStep_def stays_within_refl\<close>)

lemma report_finished_stays:
  assumes "outside_law E store" and "report_finished E g (fb, w) = (x, (fb', w'))"
  shows "stays_within (e_U E) store (objs, fb, w) (objs, fb', w')"
proof (cases fb)
  case (Some f)
  then show ?thesis
    using SetCondition_stays [OF assms(1), of "(f, w)" "gr_Name g" StatusConditionFinished] assms(2)
    by (auto simp: report_finished_def stays_within_def feedback_stays_def simp del: feedback_addrs_simps
        intro: changes_within_mono split: prod.splits)
qed (use assms(2) in \<open>simp add: report_finished_def stays_within_refl\<close>)

lemma initialize_feedback_stays:
  assumes "outside_law E store" and "initialize_feedback E groups (fb, w) = (x, (fb', w'))"
  shows "stays_within (e_U E) store (objs, fb, w) (objs, fb', w')"
proof (cases fb)
  case (Some f)
  then show ?thesis
    using Initialize_stays [OF assms(1), of "(f, w)" groups] assms(2)
    by (auto simp: initialize_feedback_def stays_within_def feedback_stays_def on_err_def
        simp del: feedback_addrs_simps intro: changes_within_mono split: prod.splits)
qed (use assms(2) in \<open>simp add: initialize_feedback_def stays_within_refl\<close>)

section \<open>An execution\<close>

lemma roll_out_stays:
  assumes "ulib_ok (e_U E)" and "kube_ok (e_U E) (e_K E) store" and out: "outside_law E store"
    and "wired r" and "job_checks_only (e_U E) (e_K E) (cks_knownChecks (rn_checks r))"
    and run: "roll_out E r res (fb, w) = (x, (fb', w'))"
  shows "changes_within store (rollout_addrs (e_U E) (rr_Objects res) \<union> feedback_addrs (e_U E) fb) w w'"
proof (cases "result_groups res")
  case None
  then show ?thesis using run by (simp add: roll_out_def changes_within_eq)
next
  case (Some groups)
  obtain y fb1 w1 where i: "initialize_feedback E (map gr_Name groups) (fb, w) = (y, (fb1, w1))" by (rule prod_cases3)
  have a: "stays_within (e_U E) store (rr_Objects res, fb, w) (rr_Objects res, fb1, w1)"
    by (rule initialize_feedback_stays [OF out i])
  obtain z objs2 fb2 w2 where g: "run_groups E r groups (rr_Objects res, fb1, w1) = (z, (objs2, fb2, w2))"
    by (rule prod_cases4)
  have "stays_within (e_U E) store (rr_Objects res, fb1, w1) (objs2, fb2, w2)"
  proof (rule run_groups_closed [of "stays_within (e_U E) store", OF _ _ _ _ g])
    show "stays_within (e_U E) store a a" for a by (rule stays_within_refl)
    show "stays_within (e_U E) store a c" if "stays_within (e_U E) store a b" "stays_within (e_U E) store b c"
      for a b c using that by (rule stays_within_trans)
    show "stays_within (e_U E) store (objs, fb, w) (objs', fb, w')"
      if "runStep E r s (objs, w) = (x, (objs', w'))" for s objs w x objs' w' fb
      by (rule runStep_stays [OF assms(1-5) that])
    show "stays_within (e_U E) store (objs, fb, w) (objs, fb', w')"
      if "report_finished E g (fb, w) = (x, (fb', w'))" for g fb w x fb' w' objs
      by (rule report_finished_stays [OF out that])
  qed
  from stays_within_trans [OF a this] a show ?thesis
    using run by (cases y) (auto simp: roll_out_def Some i g stays_within_def)
qed

text \<open>
  C2: An execution of a program that was set up changes at the API server only objects that have the
  namespace and the name of a manifest that was rendered (or of an element of a rendered list), and
  the object that feedback is given on, however the execution ends: with success, an error or
  a panic. When only rendering is asked for, it changes nothing.
\<close>

theorem execution_changes_only_what_it_names:
  assumes prog: "assemble E L f w0 = (Ok prog, w1)"
    and U: "ulib_ok (e_U E)" and K: "kube_ok (e_U E) (e_K E) store" and out: "outside_law E store"
    and cfg: "(raw, fb) = (case c of None \<Rightarrow> ('''', None) | Some c \<Rightarrow> (cf_RawConfig c, cf_Feedback c))"
    and render: "rn_provider (pg_runner prog) raw (pr_world p) = (Ok res, w2)" "store w2 = store (pr_world p)"
    and run: "Execute E (pg_runner prog) c p = (x, c', p')"
    and ch: "store (pr_world p') t n \<noteq> store (pr_world p) t n"
  shows "\<not> fl_renderOnly f \<and>
    ((\<exists>k u v. rr_Objects res k = Some u \<and> Some v \<in> set (leaves (e_U E) u) \<and>
        (tg_Namespace t, n) = (getNamespace (e_U E) v, getName (e_U E) v)) \<or>
     (\<exists>b u. fb = Some b \<and> fb_obj b = Some u \<and>
        (tg_Namespace t, n) = (getNamespace (e_U E) u, getName (e_U E) u)))"
proof -
  let ?r = "pg_runner prog"
  note r = assembled_runner [OF prog]
  have known: "job_checks_only (e_U E) (e_K E) (cks_knownChecks (rn_checks ?r))"
    using r by (auto simp: job_checks_only_def split: if_splits)
  obtain fb' w' where b: "execute_body E ?r raw (fb, pr_world p) = (x, (fb', w'))" and p': "pr_world p' = w'"
    using run cfg by (cases c) (auto simp: Execute_def split: prod.splits)
  show ?thesis
  proof (cases "fl_renderOnly f")
    case True
    then have "store w' = store w2"
      using b render r outside_lawD(6) [OF out, of res w2] by (auto simp: execute_body_def split: prod.splits)
    then show ?thesis using ch render(2) p' by simp
  next
    case False
    then have "roll_out E ?r res (fb, w2) = (x, (fb', w'))" using b render r by (simp add: execute_body_def)
    from roll_out_stays [OF U K out _ known this] r
    have "changes_within store (rollout_addrs (e_U E) (rr_Objects res) \<union> feedback_addrs (e_U E) fb) w2 w'" by blast
    then have "(tg_Namespace t, n) \<in> rollout_addrs (e_U E) (rr_Objects res) \<union> feedback_addrs (e_U E) fb"
      using ch render(2) p' by (simp add: changes_within_def)
    then show ?thesis using False
      by (auto simp: rollout_addrs_def leaf_addrs_def feedback_addrs_def address_def)
  qed
qed

section \<open>Witness\<close>

text \<open>A program that rolls one service out.\<close>

lemma sample_outside_law: "outside_law sample_env sw_store"
proof -
  have "address sample_ulib (status_request sample_ulib T u s) = address sample_ulib u" for T u s
    by (simp add: address_def status_request_def sample_ulib_eval)
  moreover have "only_changes sw_store t n w (sw_logged m w)" for t n w m
    by (simp add: only_changes_def)
  ultimately show ?thesis
    unfolding outside_law_def
    by (simp add: discovery_law_def sample_kube_def sample_clock_def sample_dead_dblib_def sample_env_def
        sample_rt_def)
      (auto intro: andThen_view)
qed

definition web_spec :: rollout where
  "web_spec = \<lparr>ro_APIVersion = '''', ro_Kind = ''Rollout'', ro_Metadata = None,
     ro_Spec = Some \<lparr>sp_Parallel = False, sp_Groups = [\<lparr>gr_Name = ''web'', gr_Parallel = False, gr_Steps =
       [\<lparr>st_Name = ''create'', st_Object = ''web.yaml'', st_Action = ''CreateOrUpdate'', st_Success = [],
         st_ContinueOnError = False\<rparr>]\<rparr>]\<rparr>\<rparr>"

definition web_cli :: "sworld cli_lib" where
  "web_cli = sample_cli\<lparr>cli_tree := (\<lambda>d w. DirNode [(''web.yaml'', FileNode (Inr ''''))]),
     cli_decodeObject := (\<lambda>s. Inr sample_service), cli_decodeRollout := (\<lambda>s. Inr web_spec)\<rparr>"

definition web_result :: render_result where
  "web_result = \<lparr>rr_Objects = [''web.yaml'' \<mapsto> sample_service], rr_Rollout = Some web_spec\<rparr>"

definition web_target :: target where
  "web_target = \<lparr>tg_Config = \<lparr>cfg_Base = ''https'', cfg_GroupVersion = Some ([], ''v1''), cfg_APIPath = ''/api''\<rparr>,
     tg_Group = [], tg_Version = ''v1'', tg_Resource = ''services'', tg_Namespace = ''ns''\<rparr>"

definition web_runner :: "sworld runner" where
  "web_runner = SetObjectActions
     \<lparr>rn_client = SetUpdateChecks (SetUpdatePreparations (NewClient sample_cfg) DefaultUpdatePreparations)
        (DefaultUpdateChecks sample_decodeSA),
      rn_actions = Map.empty,
      rn_checks = \<lparr>cks_client = SetUpdateChecks (SetUpdatePreparations (NewClient sample_cfg) DefaultUpdatePreparations)
           (DefaultUpdateChecks sample_decodeSA), cks_databaseConnections = None,
         cks_knownChecks = [''JobOOMKilled'' \<mapsto> JobOOMKilledCheck sample_ulib sample_kube]\<rparr>,
      rn_provider = file_Render (cli_tree web_cli) sample_renderer_files (\<lambda>s. Inr sample_service)
        (\<lambda>s. Inr web_spec) (file_NewRenderer ''manifests/'' ''rollout.yaml''),
      rn_renderOnly = False\<rparr> DefaultObjectActions"

lemma web_program:
  "\<exists>prog. assemble sample_env web_cli one_off_flags empty_world = (Ok prog, empty_world) \<and>
     pg_runner prog = web_runner"
  by (simp add: one_off_flags_def assemble_eval web_cli_def web_runner_def JobOOMKilledCheck_def)

lemma web_render: "rn_provider web_runner '''' empty_world = (Ok web_result, empty_world)"
proof -
  have "TrimPrefix (Join ''manifests/'' ''web.yaml'') ''manifests/'' = ''web.yaml''" by code_simp
  then show ?thesis
    by (simp add: web_runner_def file_Render_def file_NewRenderer_def web_cli_def read_object_def
        sample_renderer_files_def web_result_def)
qed

lemma web_create:
  "\<exists>u' w'. executeAction sample_env web_runner ''CreateOrUpdate'' sample_service empty_world = (Ok (), u', w') \<and>
     sw_store w' web_target ''web'' \<noteq> sw_store empty_world web_target ''web''"
  unfolding executeAction_sample_service
  by (simp add: rollout_eval sample_eval web_runner_def web_target_def SetObjectActions_def SetUpdateChecks_def
      SetUpdatePreparations_def NewClient_def DefaultObjectActions_def CreateIfNotExistObjectAction_def
      DeleteIfExistsObjectAction_def)

lemma web_execute:
  "\<exists>c' p'. Execute sample_env web_runner None sample_proc = (Ok (), c', p') \<and>
     sw_store (pr_world p') web_target ''web'' \<noteq> sw_store (pr_world sample_proc) web_target ''web''"
proof -
  obtain u' w' where w': "executeAction sample_env web_runner ''CreateOrUpdate'' sample_service empty_world = (Ok (), u', w')"
    and ch: "sw_store w' web_target ''web'' \<noteq> sw_store empty_world web_target ''web''"
    using web_create by blast
  have "\<not> rn_renderOnly web_runner" by (simp add: web_runner_def)
  then show ?thesis
    using web_render w' ch
    by (simp add: Execute_def execute_body_def roll_out_def result_groups_def initialize_feedback_def
        report_finished_def run_groups.simps web_result_def web_spec_def run_group_def run_sequential.simps
        runStep_def sample_proc_def)
qed

theorem execution_changes_only_what_it_names_witness:
  "\<exists>prog c' p'. assemble sample_env web_cli one_off_flags empty_world = (Ok prog, empty_world) \<and>
     Execute sample_env (pg_runner prog) None sample_proc = (Ok (), c', p') \<and>
     sw_store (pr_world p') web_target ''web'' \<noteq> sw_store (pr_world sample_proc) web_target ''web'' \<and>
     (\<exists>k u v. rr_Objects web_result k = Some u \<and> Some v \<in> set (leaves sample_ulib u) \<and>
        (''ns'', ''web'') = (getNamespace sample_ulib v, getName sample_ulib v))"
proof -
  obtain prog where p: "assemble sample_env web_cli one_off_flags empty_world = (Ok prog, empty_world)"
    "pg_runner prog = web_runner" using web_program by blast
  obtain c' p' where x: "Execute sample_env (pg_runner prog) None sample_proc = (Ok (), c', p')"
    and ch: "sw_store (pr_world p') web_target ''web'' \<noteq> sw_store (pr_world sample_proc) web_target ''web''"
    using web_execute p(2) by auto
  have r: "rn_provider (pg_runner prog) '''' (pr_world sample_proc) = (Ok web_result, empty_world)"
    using web_render p(2) by (simp add: sample_proc_def)
  have c: "('''', None) = (case None of None \<Rightarrow> ('''', None) | Some c \<Rightarrow> (cf_RawConfig c, cf_Feedback c))" by simp
  have s: "sw_store empty_world = sw_store (pr_world sample_proc)" by (simp add: sample_proc_def)
  have t: "tg_Namespace web_target = ''ns''" by (simp add: web_target_def)
  have "\<exists>k u v. rr_Objects web_result k = Some u \<and> Some v \<in> set (leaves sample_ulib u) \<and>
      (tg_Namespace web_target, ''web'') = (getNamespace sample_ulib v, getName sample_ulib v)"
    using execution_changes_only_what_it_names
      [OF p(1) _ _ sample_outside_law c r s x ch] sample_ulib_ok sample_kube_ok by simp
  then show ?thesis using p(1) x ch t by simp
qed

end
