(* ===== verification/Convergence.thy ===== *)
theory Convergence
  imports Isolation
begin

text \<open>
  What a whole execution that succeeds has done at the API server: the objects that its steps were to
  create are there when it ends.
\<close>

section \<open>The server\<close>

text \<open>
  Two more laws of the environment. Only a delete removes an object: a create, an update or a status
  request, successful or not, leaves every object in place that was there. And discovery gives
  one answer throughout: the client for an object with a given address always sends its requests to
  the same place, \<open>tgt\<close>.
\<close>

definition only_deletes_remove :: "'w kube \<Rightarrow> 'w view \<Rightarrow> bool" where
  "only_deletes_remove K store \<longleftrightarrow>
     (\<forall>t u w t' n. store w t' n \<noteq> None \<longrightarrow>
        store (snd (k_Create K t u w)) t' n \<noteq> None \<and> store (snd (k_Update K t u w)) t' n \<noteq> None \<and>
        store (snd (k_UpdateStatus K t u w)) t' n \<noteq> None)"

type_synonym identity = "string \<times> string \<times> string \<times> string"

definition discovery_fixed :: "'w env \<Rightarrow> 'w runner \<Rightarrow> (identity \<Rightarrow> target) \<Rightarrow> bool" where
  "discovery_fixed E r tgt \<longleftrightarrow>
     (\<forall>u w rc w'. ClientForUnstructured (e_U E) (e_K E) (rn_client r) u w = (Inr rc, w') \<longrightarrow>
        rc_target rc = tgt (ident (e_U E) u))"

definition name_of :: "identity \<Rightarrow> string" where
  "name_of i = snd (snd (snd i))"

definition held :: "'w view \<Rightarrow> (identity \<Rightarrow> target) \<Rightarrow> 'w \<Rightarrow> identity \<Rightarrow> bool" where
  "held store tgt w i \<longleftrightarrow> store w (tgt i) (name_of i) \<noteq> None"

lemma name_of_ident [simp]: "name_of (ident U u) = getName U u"
  by (simp add: name_of_def ident_def)

lemma held_eq: "store w' = store w \<Longrightarrow> held store tgt w' i = held store tgt w i"
  by (simp add: held_def)

lemma only_deletes_removeD:
  assumes "only_deletes_remove K store" "held store tgt w i"
  shows "k_Create K t u w = (x, w') \<Longrightarrow> held store tgt w' i"
    and "k_Update K t u w = (x, w') \<Longrightarrow> held store tgt w' i"
    and "k_UpdateStatus K t u w = (y, w') \<Longrightarrow> held store tgt w' i"
  using assms unfolding only_deletes_remove_def held_def by (metis snd_conv)+

section \<open>One action\<close>

definition has_default_actions :: "'w runner \<Rightarrow> bool" where
  "has_default_actions r \<longleftrightarrow> rn_actions r =
     [''CreateOrUpdate'' \<mapsto> CreateOrUpdateObjectAction, ''CreateIfNotExist'' \<mapsto> CreateIfNotExistObjectAction,
      ''DeleteIfExist'' \<mapsto> DeleteIfExistsObjectAction]"

lemma SetObjectActions_default:
  "rn_actions r = Map.empty \<Longrightarrow> has_default_actions (SetObjectActions r DefaultObjectActions)"
  by (simp add: has_default_actions_def SetObjectActions_def DefaultObjectActions_def
      CreateOrUpdateObjectAction_def CreateIfNotExistObjectAction_def DeleteIfExistsObjectAction_def)

lemma assembled_actions:
  assumes "assemble E L f w = (Ok prog, w')"
  shows "has_default_actions (pg_runner prog)"
proof -
  obtain cl w0 w1 conns src runner w5 w6 where r: "setup_runner E L f cl conns src w5 = (Ok runner, w6)"
    and prog: "pg_runner prog = runner"
    using assemble_Ok [OF assms] by auto
  obtain render c where "runner = SetObjectActions \<lparr>rn_client = cl, rn_actions = Map.empty, rn_checks = c,
      rn_provider = render, rn_renderOnly = fl_renderOnly f\<rparr> DefaultObjectActions"
    using setup_runner_Ok [OF r] by blast
  then show ?thesis unfolding prog by (simp add: SetObjectActions_default)
qed

definition creates :: "string \<Rightarrow> bool" where
  "creates a \<longleftrightarrow> a = ''CreateOrUpdate'' \<or> a = ''CreateIfNotExist''"

lemma update_holds:
  assumes K: "kube_ok U K store" "only_deletes_remove K store" and h: "held store tgt w i"
    and run: "UpdateWithCurrent U K rc cur u w = (x, u', w')"
  shows "held store tgt w' i"
  using run h only_deletes_removeD(2) [OF K(2)]
  by (auto simp: UpdateWithCurrent_def split: prod.splits sum.splits if_splits)

lemma action_holds:
  assumes K: "kube_ok U K store" "only_deletes_remove K store" and h: "held store tgt w i"
    and run: "exec U K rc u w = (x, u', w')"
    and exec: "exec = CreateOrUpdate_Execute \<or> exec = CreateIfNotExist_Execute \<or>
      exec = DeleteIfExists_Execute \<and> (rc_target rc, getName U u) \<noteq> (tgt i, name_of i)"
  shows "held store tgt w' i"
proof -
  obtain g w1 where g: "k_Get K (rc_target rc) (getName U u) w = (g, w1)" by (rule prod.exhaust)
  then have h1: "held store tgt w1 i" using kube_okD_get(1) [OF K(1) g] h by (simp add: held_def)
  obtain c w2 where c: "k_Create K (rc_target rc) u w1 = (c, w2)" by (rule prod.exhaust)
  note h2 = only_deletes_removeD(1) [OF K(2) h1 c]
  from exec show ?thesis
  proof (elim disjE conjE)
    assume "exec = CreateOrUpdate_Execute"
    then show ?thesis
      using run g c h1 h2 update_holds [OF K h1]
      by (auto simp: CreateOrUpdate_Execute_def Let_def split: sum.splits if_splits prod.splits)
  next
    assume "exec = CreateIfNotExist_Execute"
    then show ?thesis
      using run g c h1 h2 by (auto simp: CreateIfNotExist_Execute_def split: sum.splits if_splits)
  next
    assume del: "exec = DeleteIfExists_Execute" and other: "(rc_target rc, getName U u) \<noteq> (tgt i, name_of i)"
    obtain d w3 where d: "k_Delete K (rc_target rc) (getName U u) (Some DeletePropagationForeground) w = (d, w3)"
      by (rule prod.exhaust)
    then have "w' = w3" using run del by (auto simp: DeleteIfExists_Execute_def split: sum.splits if_splits)
    then show ?thesis
      using kube_okD_delete(1) [OF K(1) d] other h unfolding held_def only_changes_def by metis
  qed
qed

lemma single_holds:
  assumes K: "kube_ok (e_U E) (e_K E) store" "only_deletes_remove (e_K E) store" "discovery_law (e_K E) store"
    and r: "has_default_actions r" "discovery_fixed E r tgt" and h: "held store tgt w i"
    and run: "executeSingleAction E r a u w = (x, u', w')"
    and del: "a = ''DeleteIfExist'' \<Longrightarrow> (tgt (ident (e_U E) u), getName (e_U E) u) \<noteq> (tgt i, name_of i)"
  shows "held store tgt w' i"
proof -
  obtain y w1 where c: "ClientForUnstructured (e_U E) (e_K E) (rn_client r) u w = (y, w1)" by (rule prod.exhaust)
  then have h1: "held store tgt w1 i" using ClientFor_store [OF K(3) c] h by (simp add: held_def)
  show ?thesis
  proof (cases "rn_actions r a")
    case None
    then show ?thesis using run h by (simp add: executeSingleAction_def)
  next
    case (Some act)
    show ?thesis
    proof (cases y)
      case (Inl e)
      then show ?thesis using run h1 by (simp add: executeSingleAction_def Some c)
    next
      case (Inr rc)
      obtain z where z: "oa_Execute act (e_U E) (e_K E) rc u w1 = (z, u', w')"
        using run by (auto simp: executeSingleAction_def Some c Inr split: prod.splits)
      have "rc_target rc = tgt (ident (e_U E) u)" using r(2) c Inr by (auto simp: discovery_fixed_def)
      then show ?thesis
        using Some r(1) del
        by (intro action_holds [where exec = "oa_Execute act", OF K(1,2) h1 z])
          (auto simp: has_default_actions_def CreateOrUpdateObjectAction_def CreateIfNotExistObjectAction_def
            DeleteIfExistsObjectAction_def split: if_splits)
    qed
  qed
qed

lemma single_makes:
  assumes U: "ulib_ok (e_U E)" and K: "kube_ok (e_U E) (e_K E) store"
    and r: "wired r" "has_default_actions r" "discovery_fixed E r tgt"
    and run: "executeSingleAction E r a u w = (Ok (), u', w')" and a: "creates a"
  shows "held store tgt w' (ident (e_U E) u)"
proof -
  obtain act rc w1 where act: "rn_actions r a = Some act"
    and c: "ClientForUnstructured (e_U E) (e_K E) (rn_client r) u w = (Inr rc, w1)"
    and z: "oa_Execute act (e_U E) (e_K E) rc u w1 = (Inr (), u', w')"
    using run by (auto simp: executeSingleAction_def split: option.splits prod.splits sum.splits)
  have rc: "rc_updatePreparations rc = DefaultUpdatePreparations" "rc_target rc = tgt (ident (e_U E) u)"
    using ClientFor_Inr(1) [OF c [unfolded ClientForUnstructured_def]] r c
    by (auto simp: wired_def discovery_fixed_def)
  from a consider "act = CreateOrUpdateObjectAction" | "act = CreateIfNotExistObjectAction"
    using act r(2) by (auto simp: creates_def has_default_actions_def)
  then have "store w' (rc_target rc) (getName (e_U E) u) \<noteq> None"
  proof cases
    case 1
    then show ?thesis using create_or_update_put [OF U K rc(1), of u w1 u' w'] z by (auto simp: CreateOrUpdateObjectAction_def)
  next
    case 2
    then show ?thesis using create_if_not_exist_creates_only [OF K] z by (auto simp: CreateIfNotExistObjectAction_def)
  qed
  then show ?thesis by (simp add: held_def rc)
qed

section \<open>One step\<close>

lemma run_leaves_holds:
  "\<forall>u w. Some u \<in> set ls \<longrightarrow> P w \<longrightarrow> P (snd (snd (f u w))) \<Longrightarrow> P w \<Longrightarrow> P (snd (run_leaves e f ls w))"
proof (induction ls arbitrary: w)
  case (Cons l ls)
  show ?case
  proof (cases l)
    case (Some u)
    then have "P (snd (snd (f u w)))" using Cons.prems by simp
    then show ?thesis using Cons.IH [of "snd (snd (f u w))"] Cons.prems(1)
      by (auto simp: Some split_beta Let_def)
  qed (use Cons.prems in simp)
qed simp

lemma run_leaves_makes:
  "\<forall>u w. Some u \<in> set ls \<longrightarrow> P w \<longrightarrow> P (snd (snd (f u w))) \<Longrightarrow>
   \<forall>w. fst (f v w) = Ok () \<longrightarrow> P (snd (snd (f v w))) \<Longrightarrow>
   fst (run_leaves e f ls w) = Ok () \<Longrightarrow> Some v \<in> set ls \<Longrightarrow> P (snd (run_leaves e f ls w))"
proof (induction ls arbitrary: w)
  case (Cons l ls)
  show ?case
  proof (cases l)
    case (Some u)
    let ?w = "snd (snd (f u w))"
    have y: "fst (f u w) = Ok ()" and rest: "fst (run_leaves e f ls ?w) = Ok ()"
      using Cons.prems(3) by (auto simp: Some split_beta Let_def split: if_splits)
    have eq: "run_leaves e f (l # ls) w = run_leaves e f ls ?w" by (simp add: Some split_beta Let_def y)
    have keep: "\<forall>u w. Some u \<in> set ls \<longrightarrow> P w \<longrightarrow> P (snd (snd (f u w)))" using Cons.prems(1) by simp
    show ?thesis
    proof (cases "u = v")
      case True
      then have "P ?w" using Cons.prems(2) y by simp
      with run_leaves_holds [OF keep] show ?thesis unfolding eq .
    next
      case False
      then have "Some v \<in> set ls" using Cons.prems(4) by (simp add: Some)
      with Cons.IH [OF keep Cons.prems(2) rest] show ?thesis unfolding eq .
    qed
  qed (use Cons.prems in simp)
qed simp

lemma executeAction_run_leaves:
  assumes "ulib_ok (e_U E)" "executeAction E r a u w = (x, u', w')"
  shows "run_leaves (itemNotObject (e_U E)) (executeSingleAction E r a) (leaves (e_U E) u) w = (x, w')"
  using executeAction_rec_leaves [OF assms(1) order_refl, of u r a w] assms(2)
  by (simp add: executeAction_def leaves_def)

text \<open>
  The environment and the runner for which a rollout is considered from here on, and the objects of
  the rollout: they have the addresses they were rendered with.
\<close>

definition converging :: "'w env \<Rightarrow> 'w runner \<Rightarrow> 'w view \<Rightarrow> (identity \<Rightarrow> target) \<Rightarrow> bool" where
  "converging E r store tgt \<longleftrightarrow> ulib_ok (e_U E) \<and> kube_ok (e_U E) (e_K E) store \<and> outside_law E store \<and>
     only_deletes_remove (e_K E) store \<and> wired r \<and> has_default_actions r \<and> discovery_fixed E r tgt \<and>
     job_checks_only (e_U E) (e_K E) (cks_knownChecks (rn_checks r))"

definition same_idents :: "ulib \<Rightarrow> objects \<Rightarrow> objects \<Rightarrow> bool" where
  "same_idents U objs objs' \<longleftrightarrow> (\<forall>k. map_option (leaf_idents U) (objs' k) = map_option (leaf_idents U) (objs k))"

text \<open>A step that deletes nothing that has the address \<open>i\<close>.\<close>

definition spares :: "ulib \<Rightarrow> (identity \<Rightarrow> target) \<Rightarrow> objects \<Rightarrow> identity \<Rightarrow> step \<Rightarrow> bool" where
  "spares U tgt objs i s \<longleftrightarrow> (st_Action s = ''DeleteIfExist'' \<longrightarrow>
     (\<forall>u j. objs (st_Object s) = Some u \<longrightarrow> Some j \<in> set (leaf_idents U u) \<longrightarrow>
        (tgt j, name_of j) \<noteq> (tgt i, name_of i)))"

lemma spares_same: "same_idents U objs objs' \<Longrightarrow> spares U tgt objs i s \<Longrightarrow> spares U tgt objs' i s"
  unfolding same_idents_def spares_def by (metis (no_types, lifting) map_option_eq_Some)

lemma runStep_holds:
  assumes env: "converging E r store tgt" and run: "runStep E r s (objs, w) = (x, (objs', w'))"
    and s: "spares (e_U E) tgt objs i s"
  shows "same_idents (e_U E) objs objs' \<and> (held store tgt w i \<longrightarrow> held store tgt w' i) \<and>
    (x = Ok () \<longrightarrow> creates (st_Action s) \<longrightarrow>
       (\<exists>u. objs (st_Object s) = Some u \<and> (Some i \<in> set (leaf_idents (e_U E) u) \<longrightarrow> held store tgt w' i)))"
proof (cases "objs (st_Object s)")
  case None
  then show ?thesis using run by (auto simp: runStep_def same_idents_def)
next
  case (Some u)
  note E = env [unfolded converging_def]
  then have U: "ulib_ok (e_U E)" and K: "kube_ok (e_U E) (e_K E) store" and out: "outside_law E store" by simp_all
  obtain y u' w1 where y: "executeAction E r (st_Action s) u w = (y, u', w1)" by (rule prod_cases3)
  note l = executeAction_run_leaves [OF U y]
  have step: "\<forall>v w. Some v \<in> set (leaves (e_U E) u) \<longrightarrow> held store tgt w i \<longrightarrow>
      held store tgt (snd (snd (executeSingleAction E r (st_Action s) v w))) i"
  proof (intro allI impI)
    fix v w2 assume v: "Some v \<in> set (leaves (e_U E) u)" and h: "held store tgt w2 i"
    obtain z v' w3 where z: "executeSingleAction E r (st_Action s) v w2 = (z, v', w3)" by (rule prod_cases3)
    have "Some (ident (e_U E) v) \<in> set (leaf_idents (e_U E) u)" using v by (auto simp: set_leaf_idents)
    then have "(tgt (ident (e_U E) v), getName (e_U E) v) \<noteq> (tgt i, name_of i)" if "st_Action s = ''DeleteIfExist''"
      using s Some that unfolding spares_def by (metis name_of_ident)
    with single_holds [OF K _ outside_lawD(1) [OF out] _ _ h z] E have "held store tgt w3 i" by simp
    then show "held store tgt (snd (snd (executeSingleAction E r (st_Action s) v w2))) i" by (simp add: z)
  qed
  have "held store tgt w1 i" if "held store tgt w i"
    using run_leaves_holds [OF step that, of "itemNotObject (e_U E)"] l by simp
  moreover have "held store tgt w1 i"
    if ok: "y = Ok ()" and c: "creates (st_Action s)" and i: "Some i \<in> set (leaf_idents (e_U E) u)"
  proof -
    obtain v where v: "Some v \<in> set (leaves (e_U E) u)" "i = ident (e_U E) v" using i by (auto simp: set_leaf_idents)
    have "\<forall>w. fst (executeSingleAction E r (st_Action s) v w) = Ok () \<longrightarrow>
        held store tgt (snd (snd (executeSingleAction E r (st_Action s) v w))) i"
      using single_makes [OF U K _ _ _ _ c, of r tgt v] E by (metis prod.collapse v(2))
    from run_leaves_makes [OF step this _ v(1), of "itemNotObject (e_U E)" w] show ?thesis by (simp add: l ok)
  qed
  moreover have r: "objs' = objs(st_Object s \<mapsto> u')" "store w' = store w1" "x = Ok () \<Longrightarrow> y = Ok ()"
    using run Some y RunChecks_view [OF K out, of "rn_checks r" "st_Success s" u' w1] E
    by (cases y; auto simp: runStep_def split: prod.splits)+
  moreover have "held store tgt w' i = held store tgt w1 i" using r(2) by (rule held_eq)
  moreover have "same_idents (e_U E) objs objs'"
    using executeAction_idents [OF U _ y] E Some r(1) by (simp add: same_idents_def)
  ultimately show ?thesis using Some by blast
qed

section \<open>Groups\<close>

text \<open>
  What holds over the steps of a group: a relation that every step respects holds between its two
  ends, and every step that succeeded is somewhere in between.
\<close>

definition visited :: "'w env \<Rightarrow> 'w runner \<Rightarrow> (objects \<times> 'w \<Rightarrow> objects \<times> 'w \<Rightarrow> bool) \<Rightarrow> objects \<times> 'w \<Rightarrow>
    objects \<times> 'w \<Rightarrow> step \<Rightarrow> unit outcome \<Rightarrow> bool" where
  "visited E r R st st' s x \<longleftrightarrow> (\<exists>a. R st a \<and> fst (runStep E r s a) = x \<and> R (snd (runStep E r s a)) st')"

definition preserved :: "'w env \<Rightarrow> 'w runner \<Rightarrow> (objects \<times> 'w \<Rightarrow> objects \<times> 'w \<Rightarrow> bool) \<Rightarrow> step set \<Rightarrow> bool" where
  "preserved E r R ss \<longleftrightarrow> reflp R \<and> transp R \<and> (\<forall>s \<in> ss. \<forall>a. R a (snd (runStep E r s a)))"

lemma ran_visits:
  "ran E r ss st xs st' \<Longrightarrow> preserved E r R (set ss) \<Longrightarrow>
   R st st' \<and> (\<forall>p \<in> set (zip ss xs). visited E r R st st' (fst p) (snd p))"
proof (induction rule: ran.induct)
  case (ran_Nil st)
  then show ?case by (simp add: preserved_def reflpD)
next
  case (ran_Cons s st x st1 ss xs st')
  have R: "reflp R" "transp R" and "R st (snd (runStep E r s st))"
    using ran_Cons.prems unfolding preserved_def by (blast, blast, metis list.set_intros(1))
  then have a: "R st st1" using ran_Cons.hyps(1) by simp
  have "preserved E r R (set ss)" using ran_Cons.prems by (simp add: preserved_def)
  note IH = ran_Cons.IH [OF this]
  have "visited E r R st st' s x"
    using IH reflpD [OF R(1)] ran_Cons.hyps(1) unfolding visited_def by (intro exI [of _ st]) simp
  moreover have "visited E r R st st' s' y" if "visited E r R st1 st' s' y" for s' y
    using that transpD [OF R(2) a] unfolding visited_def by blast
  ultimately show ?case using IH transpD [OF R(2) a, of st'] by simp
qed

text \<open>A step that the success of its group requires to succeed.\<close>

definition required :: "rolloutGroup \<Rightarrow> step \<Rightarrow> bool" where
  "required g s \<longleftrightarrow> s \<in> set (gr_Steps g) \<and> (gr_Parallel g \<or> \<not> st_ContinueOnError s)"

lemma errors_of_Nil: "errors_of xs = [] \<Longrightarrow> x \<in> set xs \<Longrightarrow> x = Ok () \<or> (\<exists>e. x = Err e) \<Longrightarrow> x = Ok ()"
  by (induction xs) (auto split: outcome.splits)

lemma run_group_visits:
  assumes S: "schedule_law E" and R: "preserved E r R (set (gr_Steps g))"
    and run: "run_group E r g st = (Ok (), st')"
  shows "R st st' \<and> (\<forall>s. required g s \<longrightarrow> visited E r R st st' s (Ok ()))"
proof -
  define ss where "ss = (if gr_Parallel g
      then map (\<lambda>i. gr_Steps g ! i) (e_Schedule E (snd st) (length (gr_Steps g))) else gr_Steps g)"
  have ss: "set ss = set (gr_Steps g)"
    using mset_eq_setD [OF scheduled_steps [OF S, of "gr_Steps g" "snd st"]] by (simp add: ss_def)
  obtain xs where xs: "ran E r ss st xs st'"
    and ok: "\<forall>p \<in> set (zip ss xs). gr_Parallel g \<or> \<not> st_ContinueOnError (fst p) \<longrightarrow> snd p = Ok ()"
  proof (cases "gr_Parallel g")
    case True
    obtain y st1 where y: "run_parallel E r ss [] st = (y, st1)" by (rule prod.exhaust)
    then have "y = Ok [] \<and> st1 = st'"
      using run True by (cases y) (auto simp: run_group_def ss_def split: if_splits)
    then obtain xs where xs: "ran E r ss st xs st'" "errors_of xs = []" using y by (auto simp: run_parallel_Ok)
    then have "\<forall>x \<in> set xs. x = Ok ()" using errors_of_Nil ran_results [OF xs(1)] by blast
    then show ?thesis using that [OF xs(1)] set_zip_rightD [of _ _ ss xs] by (metis prod.collapse)
  next
    case False
    then obtain xs where xs: "ran E r ss st xs st'" "list_all2 tolerated ss xs"
      using run by (auto simp: run_group_def ss_def run_sequential_Ok)
    then have "\<forall>p \<in> set (zip ss xs). tolerated (fst p) (snd p)" by (auto simp: list_all2_iff)
    then show ?thesis using that [OF xs(1)] False by (auto simp: tolerated_def)
  qed
  have vis: "R st st' \<and> (\<forall>p \<in> set (zip ss xs). visited E r R st st' (fst p) (snd p))"
    using ran_visits [OF xs, of R, unfolded ss, OF R] .
  have "visited E r R st st' s (Ok ())" if "required g s" for s
  proof -
    have "s \<in> set ss" using that ss by (simp add: required_def)
    then obtain x where x: "(s, x) \<in> set (zip ss xs)"
      using ran_length [OF xs] by (metis in_set_impl_in_set_zip1)
    then have "x = Ok ()" using bspec [OF ok x] that by (auto simp: required_def)
    then show ?thesis using vis x by (metis fst_conv snd_conv)
  qed
  then show ?thesis using vis by blast
qed

section \<open>A rollout\<close>

lemma UpdateStatus_held:
  assumes "only_deletes_remove (e_K E) store" and out: "outside_law E store" and h: "held store tgt w i"
  shows "held store tgt (snd (snd (updateStatus (e_U E) (e_K E) (e_T E) (f, w)))) i"
proof (cases "fb_oldStatus f = fb_currentStatus f \<or> fb_obj f = None")
  case True
  then show ?thesis using h by (auto simp: updateStatus_def split: option.splits)
next
  case False
  then obtain u where u: "fb_obj f = Some u" and c: "fb_oldStatus f \<noteq> fb_currentStatus f" by blast
  obtain x w1 where x: "ClientForUnstructured (e_U E) (e_K E) (fb_client f) u w = (x, w1)" by (rule prod.exhaust)
  have h1: "held store tgt w1 i" using ClientFor_store [OF outside_lawD(1) [OF out] x] h by (simp add: held_def)
  show ?thesis
  proof (cases x)
    case (Inr rc)
    obtain y w2 where y: "k_UpdateStatus (e_K E) (rc_target rc)
        (status_request (e_U E) (e_T E) u (fb_currentStatus f)) w1 = (y, w2)" by (rule prod.exhaust)
    then show ?thesis
      using only_deletes_removeD(3) [OF assms(1) h1 y] by (cases y) (simp_all add: updateStatus_def u c x Inr)
  qed (simp add: updateStatus_def u c x h1)
qed

lemma report_finished_held:
  assumes "only_deletes_remove (e_K E) store" and out: "outside_law E store" and h: "held store tgt w i"
    and run: "report_finished E g (fb, w) = (x, (fb', w'))"
  shows "held store tgt w' i"
proof (cases fb)
  case (Some f)
  have "held store tgt (snd (snd (SetCondition (e_U E) (e_K E) (e_T E) n new (f, w)))) i" for n new
    using UpdateStatus_held [OF assms(1,2)] h clock_view(3) [OF out]
    by (simp add: SetCondition_def split_beta Let_def held_def split: option.split)
  then show ?thesis
    using run by (auto simp: report_finished_def Some split: prod.splits) (metis snd_conv)
qed (use run h in \<open>simp add: report_finished_def\<close>)

text \<open>
  Over a whole rollout the objects keep their addresses, and what is at the server under an address
  that no step deletes stays there.
\<close>

definition spared_stays :: "'w env \<Rightarrow> 'w view \<Rightarrow> (identity \<Rightarrow> target) \<Rightarrow> objects \<Rightarrow> identity \<Rightarrow>
    objects \<times> 'w \<Rightarrow> objects \<times> 'w \<Rightarrow> bool" where
  "spared_stays E store tgt objs0 i a b \<longleftrightarrow> same_idents (e_U E) objs0 (fst a) \<longrightarrow>
     same_idents (e_U E) objs0 (fst b) \<and> (held store tgt (snd a) i \<longrightarrow> held store tgt (snd b) i)"

lemma same_idents_refl [simp]: "same_idents U objs objs"
  by (simp add: same_idents_def)

lemma same_idents_trans: "same_idents U a b \<Longrightarrow> same_idents U b c \<Longrightarrow> same_idents U a c"
  by (simp add: same_idents_def)

lemma rollout_preserves:
  assumes env: "converging E r store tgt" and ss: "\<forall>s \<in> ss. spares (e_U E) tgt objs0 i s"
  shows "preserved E r (spared_stays E store tgt objs0 i) ss"
  unfolding preserved_def
proof (intro conjI ballI allI)
  fix s a assume s: "s \<in> ss"
  obtain objs w x objs' w' where a: "a = (objs, w)" and run: "runStep E r s (objs, w) = (x, (objs', w'))"
    by (metis prod.exhaust)
  show "spared_stays E store tgt objs0 i a (snd (runStep E r s a))"
    unfolding spared_stays_def
  proof
    assume "same_idents (e_U E) objs0 (fst a)"
    then have o: "same_idents (e_U E) objs0 objs" by (simp add: a)
    have "spares (e_U E) tgt objs i s" using spares_same [OF o] ss s by blast
    from runStep_holds [OF env run this] same_idents_trans [OF o]
    show "same_idents (e_U E) objs0 (fst (snd (runStep E r s a))) \<and>
        (held store tgt (snd a) i \<longrightarrow> held store tgt (snd (snd (runStep E r s a))) i)"
      by (simp add: a run)
  qed
qed (auto simp: reflp_def transp_def spared_stays_def)

lemma visited_held:
  assumes env: "converging E r store tgt" and s: "spares (e_U E) tgt objs0 i s" "creates (st_Action s)"
    and i: "objs0 (st_Object s) = Some u" "Some i \<in> set (leaf_idents (e_U E) u)"
    and vis: "visited E r (spared_stays E store tgt objs0 i) st st' s (Ok ())"
    and st: "same_idents (e_U E) objs0 (fst st)"
  shows "held store tgt (snd st') i"
proof -
  obtain a where a: "spared_stays E store tgt objs0 i st a" "fst (runStep E r s a) = Ok ()"
    "spared_stays E store tgt objs0 i (snd (runStep E r s a)) st'" using vis by (auto simp: visited_def)
  obtain objs w x objs' w' where b: "a = (objs, w)" and run: "runStep E r s (objs, w) = (x, (objs', w'))"
    by (metis prod.exhaust)
  have o: "same_idents (e_U E) objs0 objs" using a(1) st by (simp add: spared_stays_def b)
  have "spares (e_U E) tgt objs i s" using spares_same [OF o s(1)] .
  note holds = runStep_holds [OF env run this]
  have x: "x = Ok ()" using a(2) by (simp add: b run)
  obtain v where v: "objs (st_Object s) = Some v" "leaf_idents (e_U E) v = leaf_idents (e_U E) u"
    using o i(1) by (auto simp: same_idents_def dest!: spec [of _ "st_Object s"])
  have "held store tgt w' i" using holds x s(2) v i(2) by auto
  moreover have "same_idents (e_U E) objs0 objs'" using holds same_idents_trans [OF o] by blast
  ultimately show ?thesis using a(3) by (simp add: spared_stays_def b run)
qed

lemma run_groups_held:
  assumes env: "converging E r store tgt" and S: "schedule_law E"
  shows "run_groups E r gs (objs, fb, w) = (Ok (), (objs', fb', w')) \<Longrightarrow>
    \<forall>g \<in> set gs. \<forall>s \<in> set (gr_Steps g). spares (e_U E) tgt objs0 i s \<Longrightarrow> same_idents (e_U E) objs0 objs \<Longrightarrow>
    same_idents (e_U E) objs0 objs' \<and> (held store tgt w i \<longrightarrow> held store tgt w' i) \<and>
    (\<forall>g \<in> set gs. \<forall>s u. required g s \<longrightarrow> creates (st_Action s) \<longrightarrow> objs0 (st_Object s) = Some u \<longrightarrow>
       Some i \<in> set (leaf_idents (e_U E) u) \<longrightarrow> held store tgt w' i)"
proof (induction gs arbitrary: objs fb w)
  case (Cons g gs)
  obtain y objs1 w1 where g: "run_group E r g (objs, w) = (y, (objs1, w1))" by (rule prod_cases3)
  obtain z fb2 w2 where rf: "report_finished E g (fb, w1) = (z, (fb2, w2))" by (rule prod_cases3)
  have y: "y = Ok ()" and rest: "run_groups E r gs (objs1, fb2, w2) = (Ok (), (objs', fb', w'))"
    using Cons.prems(1) unfolding run_groups_Cons [OF g rf] by (auto split: if_splits)
  let ?R = "spared_stays E store tgt objs0 i"
  have "preserved E r ?R (set (gr_Steps g))" using rollout_preserves [OF env] Cons.prems(2) by simp
  from run_group_visits [OF S this g [unfolded y]]
  have R: "?R (objs, w) (objs1, w1)" and vis: "required g s \<Longrightarrow> visited E r ?R (objs, w) (objs1, w1) s (Ok ())" for s
    by blast+
  have o1: "same_idents (e_U E) objs0 objs1" and h1: "held store tgt w i \<Longrightarrow> held store tgt w1 i"
    using R Cons.prems(3) by (simp_all add: spared_stays_def)
  have h2: "held store tgt w1 i \<Longrightarrow> held store tgt w2 i"
    using report_finished_held [OF _ _ _ rf] env by (simp add: converging_def)
  have "held store tgt w1 i" if "required g s" "creates (st_Action s)" "objs0 (st_Object s) = Some u"
    "Some i \<in> set (leaf_idents (e_U E) u)" for s u
    using visited_held [OF env _ that(2-4) vis [OF that(1)]] Cons.prems(2,3) that(1) by (simp add: required_def)
  with Cons.IH [OF rest _ o1] Cons.prems(2) h1 h2 show ?case by auto
qed simp

text \<open>
  C3: When an execution of a program that was set up succeeds, every object that a step was to create
  is at the API server when it ends: each manifest of a step with the action CreateOrUpdate or
  CreateIfNotExist whose failure would have failed the rollout, and each element of a rendered
  list, at whatever depth. The one exception are addresses that another step deletes. Checks,
  reports, feedback and the other steps, in whatever order a parallel group runs them, do not undo it.
\<close>

theorem successful_execution_creates_all:
  assumes prog: "assemble E L f w0 = (Ok prog, w1)" and live: "\<not> fl_renderOnly f"
    and U: "ulib_ok (e_U E)" and K: "kube_ok (e_U E) (e_K E) store" and out: "outside_law E store"
    and keep: "only_deletes_remove (e_K E) store" and S: "schedule_law E"
    and tgt: "discovery_fixed E (pg_runner prog) tgt"
    and cfg: "(raw, fb) = (case c of None \<Rightarrow> ('''', None) | Some c \<Rightarrow> (cf_RawConfig c, cf_Feedback c))"
    and render: "rn_provider (pg_runner prog) raw (pr_world p) = (Ok res, w2)" "result_groups res = Some gs"
    and run: "Execute E (pg_runner prog) c p = (Ok (), c', p')"
    and step: "g \<in> set gs" "s \<in> set (gr_Steps g)" "gr_Parallel g \<or> \<not> st_ContinueOnError s"
      "st_Action s = ''CreateOrUpdate'' \<or> st_Action s = ''CreateIfNotExist''"
    and obj: "rr_Objects res (st_Object s) = Some u" "Some v \<in> set (leaves (e_U E) u)"
    and spared: "\<And>g' s' u' v'. g' \<in> set gs \<Longrightarrow> s' \<in> set (gr_Steps g') \<Longrightarrow> st_Action s' = ''DeleteIfExist'' \<Longrightarrow>
      rr_Objects res (st_Object s') = Some u' \<Longrightarrow> Some v' \<in> set (leaves (e_U E) u') \<Longrightarrow>
      (tgt (ident (e_U E) v'), getName (e_U E) v') \<noteq> (tgt (ident (e_U E) v), getName (e_U E) v)"
  shows "store (pr_world p') (tgt (ident (e_U E) v)) (getName (e_U E) v) \<noteq> None"
proof -
  let ?r = "pg_runner prog" and ?i = "ident (e_U E) v"
  note r = assembled_runner [OF prog]
  have env: "converging E ?r store tgt"
    using r assembled_actions [OF prog] U K out keep tgt
    by (auto simp: converging_def job_checks_only_def split: if_splits)
  obtain fb' w' where b: "execute_body E ?r raw (fb, pr_world p) = (Ok (), (fb', w'))" and p': "pr_world p' = w'"
    using run cfg by (cases c) (auto simp: Execute_def split: prod.splits)
  have "roll_out E ?r res (fb, w2) = (Ok (), (fb', w'))" using b render(1) r live by (simp add: execute_body_def)
  then obtain fb1 w3 where i: "(let (x, objs, st1) = run_groups E ?r gs (rr_Objects res, fb1, w3) in (x, st1)) =
      (Ok (), (fb', w'))"
    by (auto simp: roll_out_def render(2) andThen_Ok_iff)
  obtain objs' where g: "run_groups E ?r gs (rr_Objects res, fb1, w3) = (Ok (), (objs', fb', w'))"
    using i by (cases "run_groups E ?r gs (rr_Objects res, fb1, w3)") auto
  have "\<forall>g \<in> set gs. \<forall>s \<in> set (gr_Steps g). spares (e_U E) tgt (rr_Objects res) ?i s"
    using spared unfolding spares_def set_leaf_idents by (metis name_of_ident)
  moreover have "required g s" "creates (st_Action s)" "Some ?i \<in> set (leaf_idents (e_U E) u)"
    using step obj by (auto simp: required_def creates_def set_leaf_idents)
  ultimately have "held store tgt w' ?i"
    using run_groups_held [OF env S g, of "rr_Objects res" ?i] step(1) obj(1) same_idents_refl by blast
  then show ?thesis by (simp add: held_def p')
qed

section \<open>Witness\<close>

lemma sample_only_deletes_remove: "only_deletes_remove sample_kube sw_store"
  by (auto simp: only_deletes_remove_def sample_kube_def sw_put_def sw_store_def sw_logged_def Let_def
      split: option.splits)

definition sample_tgt :: "identity \<Rightarrow> target" where
  "sample_tgt i = (case i of (v, k, ns, n) \<Rightarrow>
     case fst (ClientFor sample_kube (NewClient sample_cfg) v k ns empty_world) of
       Inr rc \<Rightarrow> rc_target rc | Inl e \<Rightarrow> web_target)"

lemma sample_tgt_eq:
  assumes "ClientFor sample_kube c v k ns w = (Inr rc, w')" "cl_cfg c = sample_cfg"
  shows "rc_target rc = sample_tgt (v, k, ns, n)"
proof -
  define d where "d = fst (k_ServerResources sample_kube v empty_world)"
  have "k_ServerResources sample_kube v w = (d, w)" for w by (simp add: d_def sample_kube_def)
  then show ?thesis
    using assms by (auto simp: sample_tgt_def ClientFor_def NewClient_def split: sum.splits)
qed

lemma web_discovery_fixed: "discovery_fixed sample_env web_runner sample_tgt"
  using sample_tgt_eq [where c = "rn_client web_runner"]
  by (auto simp: discovery_fixed_def ident_def ClientForUnstructured_def)
    (simp add: web_runner_def SetUpdateChecks_def SetUpdatePreparations_def NewClient_def)

theorem successful_execution_creates_all_witness:
  "\<exists>prog c' p'. assemble sample_env web_cli one_off_flags empty_world = (Ok prog, empty_world) \<and>
     Execute sample_env (pg_runner prog) None sample_proc = (Ok (), c', p') \<and>
     sw_store (pr_world p') web_target ''web'' \<noteq> None \<and> sw_store (pr_world sample_proc) web_target ''web'' = None"
proof -
  obtain prog where p: "assemble sample_env web_cli one_off_flags empty_world = (Ok prog, empty_world)"
    "pg_runner prog = web_runner" using web_program by blast
  obtain c' p' where x: "Execute sample_env (pg_runner prog) None sample_proc = (Ok (), c', p')"
    using web_execute p(2) by auto
  have r: "rn_provider (pg_runner prog) '''' (pr_world sample_proc) = (Ok web_result, empty_world)"
    using web_render p(2) by (simp add: sample_proc_def)
  have c: "('''', None) = (case None of None \<Rightarrow> ('''', None) | Some c \<Rightarrow> (cf_RawConfig c, cf_Feedback c))" by simp
  have l: "leaves sample_ulib sample_service = [Some sample_service]"
    by (simp add: leaves_eq sample_ulib_ok) (simp add: sample_ulib_def sample_service_def)
  have t: "sample_tgt (ident sample_ulib sample_service) = web_target" "getName sample_ulib sample_service = ''web''"
    by (simp_all add: sample_tgt_def ident_def sample_eval web_target_def ClientFor_def newForConfig_def
        setConfigDefaults_def NewClient_def)
  define step where "step = \<lparr>st_Name = ''create'', st_Object = ''web.yaml'', st_Action = ''CreateOrUpdate'',
      st_Success = [], st_ContinueOnError = False\<rparr>"
  define gr where "gr = \<lparr>gr_Name = ''web'', gr_Parallel = False, gr_Steps = [step]\<rparr>"
  have g: "result_groups web_result = Some [gr]"
    by (simp add: result_groups_def web_result_def web_spec_def gr_def step_def)
  have "sw_store (pr_world p') (sample_tgt (ident (e_U sample_env) sample_service))
      (getName (e_U sample_env) sample_service) \<noteq> None"
    by (rule successful_execution_creates_all [where s = step and g = gr and u = sample_service,
          OF p(1) _ _ _ sample_outside_law _ sample_schedule_law _ c r g x])
      (auto simp: one_off_flags_def default_flags_def sample_ulib_ok sample_kube_ok sample_only_deletes_remove p(2)
        web_discovery_fixed gr_def step_def web_result_def l)
  moreover have "sw_store (pr_world sample_proc) web_target ''web'' = None"
    by (simp add: sample_proc_def sw_store_def empty_world_def)
  ultimately show ?thesis using p(1) x t by auto
qed

end
